(* ===== verification/Prelude.thy ===== *)
theory Prelude
  imports Main "HOL-Library.Word" "HOL-Library.Sublist" "HOL-Library.Monad_Syntax"
begin

text \<open>
  Shared vocabulary of the development.  It holds the names of the machine types, the fragment of
  the C library that the sources call (character classes in the C locale, NUL-terminated strings,
  \<open>strchr\<close>, \<open>strrchr\<close>, \<open>strncmp\<close>, \<open>strtoull\<close>, \<open>snprintf\<close> with \<open>%u\<close> and \<open>%llu\<close>), the hexadecimal
  encoder that three of the components share, and the lemmas about them.  A C string is a list of
  characters without its terminating NUL; a byte buffer is a list of \<^typ>\<open>8 word\<close>.
\<close>

unbundle bit_operations_syntax

section \<open>Machine types and lemma collections\<close>

type_synonym byte = "8 word"
type_synonym u16 = "16 word"
type_synonym u32 = "32 word"
type_synonym u64 = "64 word"

named_theorems cstr_simps \<open>rewriting of the C string library\<close>
named_theorems word_nat \<open>unsigned words read as natural numbers\<close>

lemmas [word_nat] = word_le_nat_alt word_less_nat_alt

lemma unat_add_no_wrap [word_nat]:
  "unat (a :: 'a::len word) + unat b < 2 ^ LENGTH('a) \<Longrightarrow> unat (a + b) = unat a + unat b"
  by (simp add: unat_word_ariths)

lemma unat_diff_le [word_nat]: "b \<le> a \<Longrightarrow> unat (a - b :: 'a::len word) = unat a - unat b"
  by (rule unat_sub)

lemma unat_u64_bound: "unat (x :: u64) < 18446744073709551616"
  using unsigned_less [of x] by simp

lemma unat_byte_bound: "unat (x :: byte) < 256"
  using unsigned_less [of x] by simp

lemma unat_and_mask_mod: "unat ((b :: 'a::len word) AND mask n) = unat b mod 2 ^ n"
proof -
  have "b AND mask n = take_bit n b" by (simp add: take_bit_eq_mask)
  then have "unat (b AND mask n) = take_bit n (unat b)" by (simp only: unsigned_take_bit_eq)
  then show ?thesis by (simp only: take_bit_eq_mod)
qed

section \<open>Characters of the C locale\<close>

abbreviation code :: "char \<Rightarrow> nat" where
  "code c \<equiv> of_char c"

abbreviation uchar :: "char \<Rightarrow> byte" where
  "uchar c \<equiv> of_char c"

abbreviation NUL :: char where
  "NUL \<equiv> CHR 0x00"

lemma code_inject [simp]: "code c = code d \<longleftrightarrow> c = d"
  by (metis char_of_char)

lemma unat_of_nat_byte: "n < 256 \<Longrightarrow> unat (of_nat n :: byte) = n"
  by (simp add: unat_of_nat)

lemma uchar_code: "unat (uchar c) = code c"
proof -
  have "code c < 256" by (cases c) (simp add: of_char_def; metis)
  then show ?thesis by (metis unat_of_nat_byte of_nat_of_char)
qed

lemma uchar_inject [simp]: "uchar c = uchar d \<longleftrightarrow> c = d"
  by (metis uchar_code code_inject)

lemma word_eq_unat: "(v :: 'a::len word) = w \<longleftrightarrow> unat v = unat w"
  by (rule word_eq_iff_unsigned)

lemma code_char_of_byte [simp]: "code (char_of (unat (b :: byte))) = unat b"
  using unat_byte_bound [of b] by simp

lemma uchar_char_of_byte [simp]: "uchar (char_of (unat (b :: byte))) = b"
  by (simp only: word_eq_unat uchar_code code_char_of_byte)

definition isdigit :: "char \<Rightarrow> bool" where
  "isdigit c \<longleftrightarrow> 48 \<le> code c \<and> code c \<le> 57"

definition isspace :: "char \<Rightarrow> bool" where
  "isspace c \<longleftrightarrow> code c = 32 \<or> (9 \<le> code c \<and> code c \<le> 13)"

definition isalnum :: "char \<Rightarrow> bool" where
  "isalnum c \<longleftrightarrow> isdigit c \<or> (65 \<le> code c \<and> code c \<le> 90) \<or> (97 \<le> code c \<and> code c \<le> 122)"

text \<open>The test that the sources write as \<open>isdigit(c) || (c >= 'a' && c <= 'f')\<close>.\<close>

definition lower_hex :: "char \<Rightarrow> bool" where
  "lower_hex c \<longleftrightarrow> isdigit c \<or> (97 \<le> code c \<and> code c \<le> 102)"

lemma isdigit_not_isspace [simp]: "isdigit c \<Longrightarrow> \<not> isspace c"
  by (auto simp: isdigit_def isspace_def)

lemma isdigit_lower_hex [simp]: "isdigit c \<Longrightarrow> lower_hex c"
  by (simp add: lower_hex_def)

section \<open>C strings\<close>

definition cstr :: "char list \<Rightarrow> string" where
  "cstr buffer = takeWhile (\<lambda>c. c \<noteq> NUL) buffer"

definition c_string :: "char list \<Rightarrow> bool" where
  "c_string s \<longleftrightarrow> NUL \<notin> set s"

lemma cstr_c_string [simp]: "c_string (cstr b)"
  by (auto simp: c_string_def cstr_def dest: set_takeWhileD)

lemma cstr_id [simp]: "c_string s \<Longrightarrow> cstr s = s"
  by (auto simp: c_string_def cstr_def takeWhile_eq_all_conv)

lemma length_cstr_le: "length (cstr b) \<le> length b"
  by (simp add: cstr_def length_takeWhile_le)

lemma c_string_append [cstr_simps]: "c_string (a @ b) \<longleftrightarrow> c_string a \<and> c_string b"
  by (auto simp: c_string_def)

lemma c_string_Nil [simp]: "c_string []"
  by (simp add: c_string_def)

lemma c_string_Cons [cstr_simps]: "c_string (c # s) \<longleftrightarrow> c \<noteq> NUL \<and> c_string s"
  by (auto simp: c_string_def)

lemma c_string_subset: "c_string s \<Longrightarrow> set t \<subseteq> set s \<Longrightarrow> c_string t"
  by (auto simp: c_string_def)

text \<open>
  Reading element \<open>i\<close> of a zero-filled character array that holds the C string \<open>s\<close>: past the string
  there are only NUL bytes.
\<close>

definition char_at :: "string \<Rightarrow> nat \<Rightarrow> char" where
  "char_at s i = (if i < length s then s ! i else NUL)"

text \<open>\<open>strchr\<close>: the text before the first \<open>c\<close> and the text after it, or \<open>None\<close>.\<close>

fun split_at_first :: "char \<Rightarrow> string \<Rightarrow> (string \<times> string) option" where
  "split_at_first c [] = None"
| "split_at_first c (x # xs) =
     (if x = c then Some ([], xs)
      else map_option (\<lambda>(a, b). (x # a, b)) (split_at_first c xs))"

lemma split_at_first_None [cstr_simps]: "split_at_first c s = None \<longleftrightarrow> c \<notin> set s"
  by (induction s) auto

lemma split_at_first_Some:
  "split_at_first c s = Some (a, b) \<Longrightarrow> s = a @ c # b \<and> c \<notin> set a"
  by (induction s arbitrary: a b) (auto split: if_splits)

lemma split_at_first_append [cstr_simps]:
  "c \<notin> set a \<Longrightarrow> split_at_first c (a @ c # b) = Some (a, b)"
  by (induction a) auto

text \<open>\<open>strrchr\<close>: the text before the last \<open>c\<close> and the text after it, or \<open>None\<close>.\<close>

definition split_at_last :: "char \<Rightarrow> string \<Rightarrow> (string \<times> string) option" where
  "split_at_last c s = map_option (\<lambda>(a, b). (rev b, rev a)) (split_at_first c (rev s))"

lemma split_at_last_Some:
  "split_at_last c s = Some (a, b) \<Longrightarrow> s = a @ c # b \<and> c \<notin> set b"
  by (auto simp: split_at_last_def rev_swap dest!: split_at_first_Some)

lemma split_at_last_None: "split_at_last c s = None \<longleftrightarrow> c \<notin> set s"
  by (simp add: split_at_last_def cstr_simps)

lemma split_at_last_append: "c \<notin> set b \<Longrightarrow> split_at_last c (a @ c # b) = Some (a, b)"
  by (simp add: split_at_last_def cstr_simps)

text \<open>The trimming loop shared by the configuration reader and the fast upload listener.\<close>

definition trim :: "string \<Rightarrow> string" where
  "trim text = rev (dropWhile isspace (rev (dropWhile isspace text)))"

definition trimmed :: "string \<Rightarrow> bool" where
  "trimmed s \<longleftrightarrow> (s \<noteq> [] \<longrightarrow> \<not> isspace (hd s) \<and> \<not> isspace (last s))"

lemma set_trim: "set (trim s) \<subseteq> set s"
  unfolding trim_def by (metis set_dropWhileD set_rev subsetI)

lemma length_dropWhile_le_trans: "length xs \<le> n \<Longrightarrow> length (dropWhile P xs) \<le> n"
  by (meson le_trans length_dropWhile_le)

lemma length_trim_le: "length (trim s) \<le> length s"
  by (simp add: trim_def length_dropWhile_le_trans length_dropWhile_le)

lemma trim_c_string [simp]: "c_string s \<Longrightarrow> c_string (trim s)"
  by (rule c_string_subset [OF _ set_trim])

lemma dropWhile_isspace_id: "s = [] \<or> \<not> isspace (hd s) \<Longrightarrow> dropWhile isspace s = s"
  by (cases s) auto

lemma trim_id: "trimmed s \<Longrightarrow> trim s = s"
  by (auto simp: trim_def trimmed_def dropWhile_isspace_id hd_rev)

lemma trimmed_trim [simp]: "trimmed (trim s)"
proof (cases "trim s = []")
  case False
  define t where "t = dropWhile isspace s"
  define u where "u = dropWhile isspace (rev t)"
  have trim: "trim s = rev u" by (simp add: trim_def t_def u_def)
  with False have u: "u \<noteq> []" by simp
  then have "\<not> isspace (hd u)" unfolding u_def by (rule hd_dropWhile)
  with u have l: "\<not> isspace (last (trim s))" by (simp add: trim last_rev)
  have "rev t = takeWhile isspace (rev t) @ u" by (simp add: u_def)
  then have w: "t = trim s @ rev (takeWhile isspace (rev t))"
    by (metis rev_append rev_rev_ident trim)
  with False have "t \<noteq> []" by auto
  then have "\<not> isspace (hd t)" unfolding t_def by (rule hd_dropWhile)
  with w False have "\<not> isspace (hd (trim s))" by (metis hd_append2)
  with l show ?thesis by (simp add: trimmed_def)
qed (simp add: trimmed_def)

section \<open>Decimal numbers\<close>

text \<open>The value of a run of digits, and the digits that \<open>%u\<close> and \<open>%llu\<close> print.\<close>

definition dec_value :: "string \<Rightarrow> nat" where
  "dec_value ds = foldl (\<lambda>n c. 10 * n + (code c - 48)) 0 ds"

fun dec_string :: "nat \<Rightarrow> string" where
  "dec_string n =
     (if n < 10 then [char_of (48 + n)] else dec_string (n div 10) @ [char_of (48 + n mod 10)])"

declare dec_string.simps [simp del]

lemma code_digit: "d < 10 \<Longrightarrow> code (char_of (48 + d)) = 48 + d"
  by simp

lemma dec_value_snoc: "dec_value (ds @ [c]) = 10 * dec_value ds + (code c - 48)"
  by (simp add: dec_value_def)

lemma dec_value_dec_string [simp]: "dec_value (dec_string n) = n"
proof (induction n rule: dec_string.induct)
  case (1 n)
  show ?case
  proof (cases "n < 10")
    case True
    then show ?thesis by (subst dec_string.simps) (simp add: dec_value_def)
  next
    case False
    with 1 show ?thesis by (subst dec_string.simps) (simp add: dec_value_snoc)
  qed
qed

lemma dec_string_digits: "c \<in> set (dec_string n) \<Longrightarrow> isdigit c"
proof (induction n rule: dec_string.induct)
  case (1 n)
  then show ?case
    by (subst (asm) (2) dec_string.simps) (auto simp: isdigit_def split: if_splits)
qed

lemma dec_string_nonempty [simp]: "dec_string n \<noteq> []"
  by (subst dec_string.simps) simp

lemma dec_string_inject: "dec_string m = dec_string n \<longleftrightarrow> m = n"
  by (metis dec_value_dec_string)

text \<open>
  \<open>strtoull(text, &end, 10)\<close>: the result, the rest of the text at \<open>end\<close>, and whether \<open>errno\<close> was set
  to \<open>ERANGE\<close>.  Without a digit nothing is consumed and the rest is the whole text.
\<close>

definition strtoull :: "string \<Rightarrow> u64 \<times> string \<times> bool" where
  "strtoull text =
     (let s = dropWhile isspace text;
          negative = (s \<noteq> [] \<and> hd s = CHR ''-'');
          u = (if s \<noteq> [] \<and> (hd s = CHR ''-'' \<or> hd s = CHR ''+'') then tl s else s);
          ds = takeWhile isdigit u
      in if ds = [] then (0, text, False)
         else if dec_value ds > 18446744073709551615 then (- 1, dropWhile isdigit u, True)
         else ((if negative then - of_nat (dec_value ds) else of_nat (dec_value ds)),
               dropWhile isdigit u, False))"

lemma strtoull_digits:
  assumes "ds \<noteq> []" and "\<forall>c \<in> set ds. isdigit c" and "rest = [] \<or> \<not> isdigit (hd rest)"
  shows "strtoull (ds @ rest) =
    (if dec_value ds > 18446744073709551615 then (- 1, rest, True)
     else (of_nat (dec_value ds), rest, False))"
proof -
  obtain d ds' where ds: "ds = d # ds'" using assms(1) by (cases ds) auto
  with assms(2) have d: "isdigit d" by simp
  then have signs: "d \<noteq> CHR ''-''" "d \<noteq> CHR ''+''" by (auto simp: isdigit_def)
  have takes: "takeWhile isdigit (ds @ rest) = ds" "dropWhile isdigit (ds @ rest) = rest"
    using assms(2,3) by (cases rest; auto simp: takeWhile_append dropWhile_append)+
  have "dropWhile isspace (ds @ rest) = ds @ rest" using d ds by simp
  then show ?thesis
    using takes signs ds by (simp add: strtoull_def Let_def del: takeWhile.simps dropWhile.simps)
qed

lemma strtoull_dec_string:
  assumes "n \<le> 18446744073709551615" and "rest = [] \<or> \<not> isdigit (hd rest)"
  shows "strtoull (dec_string n @ rest) = (of_nat n, rest, False)"
  using strtoull_digits [OF dec_string_nonempty _ assms(2), of n] dec_string_digits assms(1) by simp

section \<open>Hexadecimal encoding\<close>

definition hex_digits :: string where
  "hex_digits = ''0123456789abcdef''"

definition hex_pair :: "byte \<Rightarrow> string" where
  "hex_pair b = [hex_digits ! unat (drop_bit 4 b), hex_digits ! unat (b AND 15)]"

definition hex_encode :: "byte list \<Rightarrow> string" where
  "hex_encode bs = concat (map hex_pair bs)"

definition hex_value :: "char \<Rightarrow> nat" where
  "hex_value c = (if isdigit c then code c - 48 else code c - 87)"

fun hex_decode :: "string \<Rightarrow> byte list option" where
  "hex_decode [] = Some []"
| "hex_decode [c] = None"
| "hex_decode (c # d # s) =
     (if lower_hex c \<and> lower_hex d
      then map_option (\<lambda>bs. of_nat (16 * hex_value c + hex_value d) # bs) (hex_decode s)
      else None)"

lemma hex_digits_table:
  "list_all (\<lambda>n. hex_value (hex_digits ! n) = n \<and> lower_hex (hex_digits ! n)) [0..<16]"
  by code_simp

lemma hex_digit_facts:
  "n < 16 \<Longrightarrow> hex_value (hex_digits ! n) = n" "n < 16 \<Longrightarrow> lower_hex (hex_digits ! n)"
  using hex_digits_table by (auto simp: list_all_iff)

lemma nibbles:
  "unat (drop_bit 4 (b :: byte)) < 16" "unat ((b :: byte) AND 15) < 16"
  "16 * unat (drop_bit 4 b) + unat (b AND 15) = unat b"
proof -
  have m: "(15 :: byte) = mask 4" by (simp add: mask_eq_exp_minus_1)
  have d: "unat (drop_bit 4 b) = unat b div 16" by (simp add: drop_bit_eq_div unat_div)
  show "unat (drop_bit 4 b) < 16" using unat_byte_bound [of b] d by simp
  show "unat (b AND 15) < 16" unfolding m unat_and_mask_mod by simp
  show "16 * unat (drop_bit 4 b) + unat (b AND 15) = unat b"
    unfolding m unat_and_mask_mod d by simp
qed

lemma hex_pair_lower_hex: "c \<in> set (hex_pair b) \<Longrightarrow> lower_hex c"
  using hex_digit_facts(2) nibbles(1,2) by (auto simp: hex_pair_def)

lemma hex_encode_simps [simp]:
  "hex_encode [] = []" "hex_encode (b # bs) = hex_pair b @ hex_encode bs"
  by (simp_all add: hex_encode_def)

lemma length_hex_encode [simp]: "length (hex_encode bs) = 2 * length bs"
  by (induction bs) (simp_all add: hex_pair_def)

lemma hex_encode_lower_hex: "c \<in> set (hex_encode bs) \<Longrightarrow> lower_hex c"
  by (induction bs) (auto dest: hex_pair_lower_hex)

lemma lower_hex_not_NUL [simp]: "\<not> lower_hex NUL"
  by (simp add: lower_hex_def isdigit_def)

lemma hex_encode_c_string [simp]: "c_string (hex_encode bs)"
  using hex_encode_lower_hex by (fastforce simp: c_string_def)

text \<open>
  The contract of a text encoding: whatever is printed can be read back.  Two different values then
  never share a printed form, which is what identifiers and tokens need.
\<close>

locale text_codec =
  fixes encode :: "'a \<Rightarrow> string" and decode :: "string \<Rightarrow> 'a option" and valid :: "'a \<Rightarrow> bool"
  assumes decode_encode: "valid x \<Longrightarrow> decode (encode x) = Some x"
begin

lemma encode_inject: "valid x \<Longrightarrow> valid y \<Longrightarrow> encode x = encode y \<longleftrightarrow> x = y"
  using decode_encode by (metis option.inject)

lemma encode_distinct: "distinct xs \<Longrightarrow> list_all valid xs \<Longrightarrow> distinct (map encode xs)"
  by (induction xs) (auto simp: list_all_iff encode_inject)

end

lemma hex_decode_encode: "hex_decode (hex_encode bs) = Some bs"
proof (induction bs)
  case (Cons b bs)
  then show ?case
    using hex_digit_facts nibbles [of b] by (simp add: hex_pair_def)
qed simp

interpretation hex: text_codec hex_encode hex_decode "\<lambda>_. True"
  by unfold_locales (rule hex_decode_encode)

interpretation dec: text_codec "dec_string" "\<lambda>s. Some (dec_value s)" "\<lambda>_. True"
  by unfold_locales simp

end
