(* ===== verification/Sha256.thy ===== *)
theory Sha256
  imports Prelude
begin

text \<open>
  \<^verbatim>\<open>src/src/sha256.c\<close>: the incremental SHA-256 used to verify uploads.  The first part
  transcribes the C code, with its context record, its in-place block path and its padding; the
  second part states SHA-256 as FIPS 180-4 defines it on a whole message, and shows that feeding a
  message to the code in any number of pieces gives that digest.
\<close>

section \<open>The code\<close>

type_synonym hash8 = "u32 \<times> u32 \<times> u32 \<times> u32 \<times> u32 \<times> u32 \<times> u32 \<times> u32"

record sha256_context =
  sha_state :: hash8
  bit_count :: u64
  block :: "byte list"
  block_size :: nat

definition rotate_right :: "u32 \<Rightarrow> nat \<Rightarrow> u32" where
  "rotate_right value count = drop_bit count value OR push_bit (32 - count) value"

definition constants :: "u32 list" where
  "constants =
     [0x428a2f98, 0x71374491, 0xb5c0fbcf, 0xe9b5dba5] @
     [0x3956c25b, 0x59f111f1, 0x923f82a4, 0xab1c5ed5] @
     [0xd807aa98, 0x12835b01, 0x243185be, 0x550c7dc3] @
     [0x72be5d74, 0x80deb1fe, 0x9bdc06a7, 0xc19bf174] @
     [0xe49b69c1, 0xefbe4786, 0x0fc19dc6, 0x240ca1cc] @
     [0x2de92c6f, 0x4a7484aa, 0x5cb0a9dc, 0x76f988da] @
     [0x983e5152, 0xa831c66d, 0xb00327c8, 0xbf597fc7] @
     [0xc6e00bf3, 0xd5a79147, 0x06ca6351, 0x14292967] @
     [0x27b70a85, 0x2e1b2138, 0x4d2c6dfc, 0x53380d13] @
     [0x650a7354, 0x766a0abb, 0x81c2c92e, 0x92722c85] @
     [0xa2bfe8a1, 0xa81a664b, 0xc24b8b70, 0xc76c51a3] @
     [0xd192e819, 0xd6990624, 0xf40e3585, 0x106aa070] @
     [0x19a4c116, 0x1e376c08, 0x2748774c, 0x34b0bcb5] @
     [0x391c0cb3, 0x4ed8aa4a, 0x5b9cca4f, 0x682e6ff3] @
     [0x748f82ee, 0x78a5636f, 0x84c87814, 0x8cc70208] @
     [0x90befffa, 0xa4506ceb, 0xbef9a3f7, 0xc67178f2]"

definition initial :: hash8 where
  "initial = (0x6a09e667, 0xbb67ae85, 0x3c6ef372, 0xa54ff53a,
              0x510e527f, 0x9b05688c, 0x1f83d9ab, 0x5be0cd19)"

text \<open>The two loops that fill \<open>words[64]\<close>.\<close>

definition load_word :: "byte list \<Rightarrow> nat \<Rightarrow> u32" where
  "load_word input index =
     (push_bit 24 (ucast (input ! (index * 4))) OR push_bit 16 (ucast (input ! (index * 4 + 1)))
      OR push_bit 8 (ucast (input ! (index * 4 + 2)))) OR ucast (input ! (index * 4 + 3))"

definition schedule_step :: "u32 list \<Rightarrow> nat \<Rightarrow> u32 list" where
  "schedule_step words index =
     (let x = words ! (index - 15);
          y = words ! (index - 2);
          s0 = (rotate_right x 7 XOR rotate_right x 18) XOR drop_bit 3 x;
          s1 = (rotate_right y 17 XOR rotate_right y 19) XOR drop_bit 10 y
      in words @ [words ! (index - 16) + s0 + words ! (index - 7) + s1])"

definition schedule :: "byte list \<Rightarrow> u32 list" where
  "schedule input = foldl schedule_step (map (load_word input) [0..<16]) [16..<64]"

text \<open>One pass of the compression loop, with \<open>constants[index]\<close> and \<open>words[index]\<close>.\<close>

fun compress_round :: "hash8 \<Rightarrow> u32 \<times> u32 \<Rightarrow> hash8" where
  "compress_round (a, b, c, d, e, f, g, h) (k, w) =
     (let s1 = (rotate_right e 6 XOR rotate_right e 11) XOR rotate_right e 25;
          choice = (e AND f) XOR (NOT e AND g);
          t1 = h + s1 + choice + k + w;
          s0 = (rotate_right a 2 XOR rotate_right a 13) XOR rotate_right a 22;
          majority = ((a AND b) XOR (a AND c)) XOR (b AND c);
          t2 = s0 + majority
      in (t1 + t2, a, b, c, d + t1, e, f, g))"

fun add8 :: "hash8 \<Rightarrow> hash8 \<Rightarrow> hash8" where
  "add8 (a, b, c, d, e, f, g, h) (a', b', c', d', e', f', g', h') =
     (a + a', b + b', c + c', d + d', e + e', f + f', g + g', h + h')"

definition compress :: "hash8 \<Rightarrow> byte list \<Rightarrow> hash8" where
  "compress st input = add8 st (foldl compress_round st (zip constants (schedule input)))"

definition transform :: "sha256_context \<Rightarrow> byte list \<Rightarrow> sha256_context" where
  "transform context input = context\<lparr>sha_state := compress (sha_state context) input\<rparr>"

definition sha256_zero :: sha256_context where
  "sha256_zero = \<lparr>sha_state = (0, 0, 0, 0, 0, 0, 0, 0), bit_count = 0, block = replicate 64 0,
     block_size = 0\<rparr>"

definition sha256_init :: sha256_context where
  "sha256_init = sha256_zero\<lparr>sha_state := initial\<rparr>"

text \<open>
  The \<open>while (size > 0)\<close> loop.  A context whose pending block is full would make the C loop spin
  without progress; \<open>block_size\<close> is below 64 between calls (\<open>sha_holds_block_size\<close> below), so the
  guard on it only makes the recursion well founded.
\<close>

function sha256_loop :: "sha256_context \<Rightarrow> byte list \<Rightarrow> sha256_context" where
  "sha256_loop context input =
     (if input = [] \<or> 64 \<le> block_size context then context
      else if block_size context = 0 \<and> 64 \<le> length input
      then sha256_loop (transform context (take 64 input)) (drop 64 input)
      else
        let n = min (64 - block_size context) (length input);
            context = context\<lparr>block := take (block_size context) (block context) @ take n input
                                       @ drop (block_size context + n) (block context),
                              block_size := block_size context + n\<rparr>;
            context = (if block_size context = 64
                       then (transform context (block context))\<lparr>block_size := 0\<rparr> else context)
        in sha256_loop context (drop n input))"
  by pat_completeness auto
termination
  by (relation "measure (\<lambda>(c, i). length i)") auto

declare sha256_loop.simps [simp del]

definition sha256_update :: "sha256_context \<Rightarrow> byte list \<Rightarrow> sha256_context" where
  "sha256_update context data =
     sha256_loop (context\<lparr>bit_count := bit_count context + of_nat (length data) * 8\<rparr>) data"

definition store_length :: "u64 \<Rightarrow> byte list \<Rightarrow> byte list" where
  "store_length bits buf = foldl (\<lambda>b index. b[63 - index := ucast (drop_bit (index * 8) bits)]) buf [0..<8]"

fun digest_bytes :: "hash8 \<Rightarrow> byte list" where
  "digest_bytes (a, b, c, d, e, f, g, h) =
     concat (map (\<lambda>w. [ucast (drop_bit 24 w), ucast (drop_bit 16 w), ucast (drop_bit 8 w), ucast w])
                 [a, b, c, d, e, f, g, h])"

definition sha256_final :: "sha256_context \<Rightarrow> byte list \<times> sha256_context" where
  "sha256_final context =
     (let bits = bit_count context;
          context = context\<lparr>block := (block context)[block_size context := 0x80],
                            block_size := block_size context + 1\<rparr>;
          context = (if 56 < block_size context
                     then (let full = take (block_size context) (block context)
                                      @ replicate (64 - block_size context) 0
                           in (transform (context\<lparr>block := full\<rparr>) full)\<lparr>block_size := 0\<rparr>)
                     else context);
          last = store_length bits (take (block_size context) (block context)
                   @ replicate (56 - block_size context) 0 @ drop 56 (block context));
          context = transform (context\<lparr>block := last\<rparr>) last
      in (digest_bytes (sha_state context), sha256_zero))"

definition sha256_hex :: "byte list \<Rightarrow> string" where
  "sha256_hex digest = concat (map (\<lambda>index. hex_pair (digest ! index)) [0..<32])"

lemma sha256_hex_encode: "length digest = 32 \<Longrightarrow> sha256_hex digest = hex_encode digest"
proof -
  assume "length digest = 32"
  then have "map (\<lambda>i. hex_pair (digest ! i)) [0..<32] = map hex_pair digest"
    by (intro nth_equalityI) auto
  then show ?thesis by (simp only: sha256_hex_def hex_encode_def)
qed

section \<open>The standard\<close>

text \<open>FIPS 180-4, sections 4.1.2, 5.1.1, 5.2.1 and 6.2.2, for messages that are whole bytes.\<close>

definition Ch :: "u32 \<Rightarrow> u32 \<Rightarrow> u32 \<Rightarrow> u32" where
  "Ch x y z = (x AND y) XOR (NOT x AND z)"

definition Maj :: "u32 \<Rightarrow> u32 \<Rightarrow> u32 \<Rightarrow> u32" where
  "Maj x y z = (x AND y) XOR (x AND z) XOR (y AND z)"

definition Sigma0 :: "u32 \<Rightarrow> u32" where
  "Sigma0 x = word_rotr 2 x XOR word_rotr 13 x XOR word_rotr 22 x"

definition Sigma1 :: "u32 \<Rightarrow> u32" where
  "Sigma1 x = word_rotr 6 x XOR word_rotr 11 x XOR word_rotr 25 x"

definition sigma0 :: "u32 \<Rightarrow> u32" where
  "sigma0 x = word_rotr 7 x XOR word_rotr 18 x XOR drop_bit 3 x"

definition sigma1 :: "u32 \<Rightarrow> u32" where
  "sigma1 x = word_rotr 17 x XOR word_rotr 19 x XOR drop_bit 10 x"

text \<open>The message schedule \<open>W\<^sub>t\<close>, from the big-endian words of the message block.\<close>

function fips_W :: "byte list \<Rightarrow> nat \<Rightarrow> u32" where
  "fips_W M t =
     (if t < 16 then load_word M t
      else sigma1 (fips_W M (t - 2)) + fips_W M (t - 7) + sigma0 (fips_W M (t - 15))
           + fips_W M (t - 16))"
  by pat_completeness auto
termination
  by (relation "measure snd") auto

declare fips_W.simps [simp del]

text \<open>The working variables after \<open>t\<close> rounds.\<close>

primrec fips_vars :: "hash8 \<Rightarrow> byte list \<Rightarrow> nat \<Rightarrow> hash8" where
  "fips_vars H M 0 = H"
| "fips_vars H M (Suc t) =
     (case fips_vars H M t of (a, b, c, d, e, f, g, h) \<Rightarrow>
        (let T1 = h + Sigma1 e + Ch e f g + constants ! t + fips_W M t;
             T2 = Sigma0 a + Maj a b c
         in (T1 + T2, a, b, c, d + T1, e, f, g)))"

definition fips_compress :: "hash8 \<Rightarrow> byte list \<Rightarrow> hash8" where
  "fips_compress H M = add8 (fips_vars H M 64) H"

definition be64 :: "u64 \<Rightarrow> byte list" where
  "be64 n = map (\<lambda>i. ucast (drop_bit (8 * (7 - i)) n)) [0..<8]"

definition fips_pad :: "byte list \<Rightarrow> byte list" where
  "fips_pad m = m @ 0x80 # replicate ((119 - length m mod 64) mod 64) 0 @ be64 (of_nat (8 * length m))"

fun blocks64 :: "byte list \<Rightarrow> byte list list" where
  "blocks64 m = (if length m < 64 then [] else take 64 m # blocks64 (drop 64 m))"

declare blocks64.simps [simp del]

definition sha256_spec :: "byte list \<Rightarrow> byte list" where
  "sha256_spec m = digest_bytes (foldl fips_compress initial (blocks64 (fips_pad m)))"

section \<open>The compression function is the one of the standard\<close>

lemma rotate_right_rotr: "0 < n \<Longrightarrow> n < 32 \<Longrightarrow> rotate_right v n = word_rotr n v"
proof (rule bit_eqI)
  fix i assume n: "0 < n" "n < 32" and i: "possible_bit TYPE(u32) i"
  then have i32: "i < 32" by simp
  show "bit (rotate_right v n) i = bit (word_rotr n v) i"
  proof (cases "i + n < 32")
    case True
    then show ?thesis using n i32
      by (auto simp: rotate_right_def bit_simps bit_word_rotr_iff ac_simps)
  next
    case False
    then have "(i + n) mod 32 = i + n - 32" using n i32 by (simp add: mod_if)
    moreover have "\<not> bit v (i + n)" using False bit_imp_le_length [of v "i + n"] by auto
    ultimately show ?thesis using n i32 False
      by (auto simp: rotate_right_def bit_simps bit_word_rotr_iff ac_simps)
  qed
qed

lemmas rotr_simps = rotate_right_rotr [of 2, simplified] rotate_right_rotr [of 6, simplified]
  rotate_right_rotr [of 7, simplified] rotate_right_rotr [of 11, simplified]
  rotate_right_rotr [of 13, simplified] rotate_right_rotr [of 17, simplified]
  rotate_right_rotr [of 18, simplified] rotate_right_rotr [of 19, simplified]
  rotate_right_rotr [of 22, simplified] rotate_right_rotr [of 25, simplified]

lemmas fips_defs = Ch_def Maj_def Sigma0_def Sigma1_def sigma0_def sigma1_def

lemma schedule_prefix:
  "foldl schedule_step (map (load_word M) [0..<16]) [16..<16 + k] = map (fips_W M) [0..<16 + k]"
proof (induction k)
  case 0
  have "\<And>i. i < 16 \<Longrightarrow> load_word M i = fips_W M i" by (simp add: fips_W.simps)
  then show ?case by (simp del: upt_rec_numeral)
next
  case (Suc k)
  let ?ws = "map (fips_W M) [0..<16 + k]"
  have get: "?ws ! i = fips_W M i" if "i < 16 + k" for i using that by simp
  have "schedule_step ?ws (16 + k) = ?ws @ [fips_W M (16 + k)]"
    by (subst fips_W.simps)
      (simp add: schedule_step_def Let_def get rotr_simps fips_defs ac_simps xor.assoc del: upt_Suc)
  moreover have "[16..<16 + Suc k] = [16..<16 + k] @ [16 + k]" "[0..<16 + Suc k] = [0..<16 + k] @ [16 + k]"
    by (simp_all only: add_Suc_right upt_Suc_append le_add1 le0)
  ultimately show ?case by (simp only: Suc.IH foldl_append foldl.simps map_append list.map)
qed

lemma schedule_fips: "schedule M = map (fips_W M) [0..<64]"
  using schedule_prefix [of M 48] by (simp add: schedule_def del: upt_rec_numeral)

lemma length_constants [simp]: "length constants = 64"
  by (simp add: constants_def)

lemma compress_round_fips:
  "compress_round (a, b, c, d, e, f, g, h) (constants ! t, fips_W M t) =
     (let T1 = h + Sigma1 e + Ch e f g + constants ! t + fips_W M t;
          T2 = Sigma0 a + Maj a b c
      in (T1 + T2, a, b, c, d + T1, e, f, g))"
  by (simp add: Let_def rotr_simps fips_defs xor.assoc)

lemma compress_prefix:
  "t \<le> 64 \<Longrightarrow> foldl compress_round st (take t (zip constants (map (fips_W M) [0..<64]))) = fips_vars st M t"
proof (induction t)
  case (Suc t)
  let ?z = "zip constants (map (fips_W M) [0..<64])"
  from Suc.prems have "take (Suc t) ?z = take t ?z @ [(constants ! t, fips_W M t)]"
    by (simp add: take_Suc_conv_app_nth del: upt_rec_numeral)
  with Suc show ?case
    by (auto simp add: compress_round_fips split: prod.split simp del: compress_round.simps upt_rec_numeral)
qed simp

lemma add8_commute: "add8 x y = add8 y x"
  by (induction x y rule: add8.induct) (simp add: add.commute)

lemma compress_fips: "compress H M = fips_compress H M"
  using compress_prefix [of 64 H M]
  by (simp add: compress_def fips_compress_def schedule_fips add8_commute del: upt_rec_numeral fips_vars.simps)

section \<open>Incremental hashing\<close>

text \<open>
  What a caller of an incremental hash relies on: after any sequence of updates, finishing gives the
  hash of everything that was fed in, whatever the sizes of the pieces.
\<close>

locale incremental_hash =
  fixes init :: 'c and update :: "'c \<Rightarrow> 'b list \<Rightarrow> 'c" and finish :: "'c \<Rightarrow> 'd"
    and holds :: "'c \<Rightarrow> 'b list \<Rightarrow> bool" and hash :: "'b list \<Rightarrow> 'd"
  assumes holds_init: "holds init []"
    and holds_update: "holds c m \<Longrightarrow> holds (update c x) (m @ x)"
    and finish_holds: "holds c m \<Longrightarrow> finish c = hash m"
begin

lemma holds_chunks: "holds c m \<Longrightarrow> holds (foldl update c chunks) (m @ concat chunks)"
proof (induction chunks arbitrary: c m)
  case (Cons x chunks)
  then show ?case using Cons.IH [OF holds_update [OF Cons.prems]] by simp
qed simp

lemma finish_chunks: "finish (foldl update init chunks) = hash (concat chunks)"
  using finish_holds [OF holds_chunks [OF holds_init]] by simp

lemma finish_update: "holds c m \<Longrightarrow> finish (update c x) = hash (m @ x)"
  by (rule finish_holds [OF holds_update])

end

section \<open>The code is an incremental SHA-256\<close>

text \<open>
  \<open>sha_blocks context m\<close>: the chaining value has absorbed the whole blocks of \<open>m\<close> and the rest of
  \<open>m\<close>, less than a block, is the used part of \<open>block\<close>.  \<open>sha_holds\<close> adds the bit counter.
\<close>

definition sha_blocks :: "sha256_context \<Rightarrow> byte list \<Rightarrow> bool" where
  "sha_blocks context m \<longleftrightarrow>
     (\<exists>done rest. m = concat done @ rest \<and> list_all (\<lambda>b. length b = 64) done \<and>
        length rest = block_size context \<and> length rest < 64 \<and>
        length (block context) = 64 \<and> take (block_size context) (block context) = rest \<and>
        sha_state context = foldl compress initial done)"

definition sha_holds :: "sha256_context \<Rightarrow> byte list \<Rightarrow> bool" where
  "sha_holds context m \<longleftrightarrow> sha_blocks context m \<and> bit_count context = of_nat (8 * length m)"

lemma sha_blocksI:
  assumes "m = concat done @ rest" "list_all (\<lambda>b. length b = 64) done" "length rest = block_size c"
    "length rest < 64" "length (block c) = 64" "take (block_size c) (block c) = rest"
    "sha_state c = foldl compress initial done"
  shows "sha_blocks c m"
  using assms unfolding sha_blocks_def by blast

lemma sha_holds_block_size: "sha_holds c m \<Longrightarrow> block_size c < 64 \<and> length (block c) = 64"
  by (auto simp: sha_holds_def sha_blocks_def)

lemma sha_blocks_init: "sha_blocks sha256_init []"
  by (rule sha_blocksI [of _ "[]" "[]"]) (simp_all add: sha256_init_def sha256_zero_def)

text \<open>The three ways round the loop: a whole block of input, a block completed, input used up.\<close>

lemma sha_blocks_direct:
  assumes "sha_blocks c m" and "block_size c = 0" and "length x = 64"
  shows "sha_blocks (transform c x) (m @ x)"
proof -
  from assms obtain bs where "m = concat bs" "list_all (\<lambda>b. length b = 64) bs"
    "length (block c) = 64" "sha_state c = foldl compress initial bs"
    by (auto simp: sha_blocks_def)
  with assms show ?thesis
    by (intro sha_blocksI [of _ "bs @ [x]" "[]"]) (simp_all add: transform_def)
qed

definition buffer_input :: "sha256_context \<Rightarrow> byte list \<Rightarrow> sha256_context" where
  "buffer_input c x = c\<lparr>block := take (block_size c) (block c) @ x @ drop (block_size c + length x) (block c),
     block_size := block_size c + length x\<rparr>"

lemma sha_blocks_buffer:
  assumes "sha_blocks c m" and "block_size c + length x < 64"
  shows "sha_blocks (buffer_input c x) (m @ x)"
proof -
  from assms obtain bs r where "m = concat bs @ r" "list_all (\<lambda>b. length b = 64) bs"
    "length r = block_size c" "length (block c) = 64" "take (block_size c) (block c) = r"
    "sha_state c = foldl compress initial bs"
    unfolding sha_blocks_def by blast
  with assms show ?thesis
    by (intro sha_blocksI [of _ bs "r @ x"]) (simp_all add: buffer_input_def)
qed

lemma sha_blocks_complete:
  assumes "sha_blocks c m" and "block_size c + length x = 64"
  shows "sha_blocks ((transform (buffer_input c x) (block (buffer_input c x)))\<lparr>block_size := 0\<rparr>) (m @ x)"
proof -
  from assms obtain bs r where "m = concat bs @ r" "list_all (\<lambda>b. length b = 64) bs"
    "length r = block_size c" "length (block c) = 64" "take (block_size c) (block c) = r"
    "sha_state c = foldl compress initial bs"
    unfolding sha_blocks_def by blast
  with assms show ?thesis
    by (intro sha_blocksI [of _ "bs @ [r @ x]" "[]"]) (simp_all add: buffer_input_def transform_def)
qed

lemma sha_blocks_size: "sha_blocks c m \<Longrightarrow> block_size c < 64"
  by (auto simp: sha_blocks_def)

lemma sha_blocks_loop: "sha_blocks c m \<Longrightarrow> sha_blocks (sha256_loop c x) (m @ x)"
proof (induction c x arbitrary: m rule: sha256_loop.induct)
  case (1 c x)
  note size = sha_blocks_size [OF "1.prems"]
  consider (empty) "x = []" | (direct) "x \<noteq> []" "block_size c = 0" "64 \<le> length x"
    | (partial) "x \<noteq> []" "\<not> (block_size c = 0 \<and> 64 \<le> length x)"
    by fastforce
  then show ?case
  proof cases
    case empty
    with "1.prems" show ?thesis by (subst sha256_loop.simps) simp
  next
    case direct
    then have "sha_blocks (sha256_loop (transform c (take 64 x)) (drop 64 x)) ((m @ take 64 x) @ drop 64 x)"
      using size by (intro "1.IH"(1)) (simp_all add: sha_blocks_direct "1.prems")
    with direct size show ?thesis by (subst sha256_loop.simps) simp
  next
    case partial
    define n where "n = min (64 - block_size c) (length x)"
    define c' where "c' = buffer_input c (take n x)"
    define c'' where "c'' = (if block_size c' = 64 then (transform c' (block c'))\<lparr>block_size := 0\<rparr> else c')"
    have n: "length (take n x) = n" "block_size c' = block_size c + n" "block_size c + n \<le> 64"
      using size by (simp_all add: n_def c'_def buffer_input_def)
    have "sha_blocks c'' (m @ take n x)"
    proof (cases "block_size c + n = 64")
      case True
      then show ?thesis using sha_blocks_complete [OF "1.prems", of "take n x"] n
        by (simp add: c''_def c'_def)
    next
      case False
      then show ?thesis using sha_blocks_buffer [OF "1.prems", of "take n x"] n
        by (simp add: c''_def c'_def)
    qed
    moreover have unfold: "sha256_loop c x = sha256_loop c'' (drop n x)"
    proof -
      have no: "(block_size c = 0 \<and> 64 \<le> length x) = False" using partial(2) by blast
      show ?thesis
        using partial(1) size n(1)
        by (subst sha256_loop.simps, unfold no if_False)
          (simp add: Let_def n_def c''_def c'_def buffer_input_def)
    qed
    ultimately show ?thesis
      using "1.IH"(2) [of n _ c'' "m @ take n x"] partial size n(1)
      by (simp add: n_def c''_def c'_def buffer_input_def)
  qed
qed

lemma sha_holds_init: "sha_holds sha256_init []"
  using sha_blocks_init by (simp add: sha_holds_def sha256_init_def sha256_zero_def)

lemma sha256_loop_bit_count: "bit_count (sha256_loop c x) = bit_count c"
  by (induction c x rule: sha256_loop.induct) (subst sha256_loop.simps, simp add: Let_def transform_def)

lemma sha_holds_update:
  assumes "sha_holds c m"
  shows "sha_holds (sha256_update c x) (m @ x)"
proof -
  have "sha_blocks (c\<lparr>bit_count := n\<rparr>) m" for n
    using assms by (simp add: sha_holds_def sha_blocks_def)
  then show ?thesis using assms
    by (simp add: sha_holds_def sha256_update_def sha_blocks_loop sha256_loop_bit_count algebra_simps)
qed

text \<open>Cutting a padded message into blocks.\<close>

lemma blocks64_block: "length x = 64 \<Longrightarrow> blocks64 (x @ m) = x # blocks64 m"
  by (subst blocks64.simps) simp

lemma blocks64_concat: "list_all (\<lambda>b. length b = 64) bs \<Longrightarrow> blocks64 (concat bs @ m) = bs @ blocks64 m"
  by (induction bs) (simp_all add: blocks64_block)

lemma blocks64_Nil [simp]: "blocks64 [] = []"
  by (simp add: blocks64.simps)

lemma length_be64 [simp]: "length (be64 n) = 8"
  by (simp add: be64_def)

lemma store_length_be64:
  assumes "length p = 56" and "length q = 8"
  shows "store_length bits (p @ q) = p @ be64 bits"
proof -
  from assms(2) obtain q0 q1 q2 q3 q4 q5 q6 q7 where q: "q = [q0, q1, q2, q3, q4, q5, q6, q7]"
    by (auto simp: length_Suc_conv numeral_eq_Suc)
  show ?thesis
    using assms(1) unfolding q store_length_def be64_def by (simp add: list_update_append upt_rec)
qed

text \<open>The last one or two blocks that \<open>sha256_final\<close> builds out of the pending bytes.\<close>

definition last_block :: "byte list \<Rightarrow> u64 \<Rightarrow> byte list" where
  "last_block rest bits = rest @ replicate (56 - length rest) 0 @ be64 bits"

lemma fips_pad_blocks:
  assumes "list_all (\<lambda>b. length b = 64) bs" and "length r < 64"
  shows "blocks64 (fips_pad (concat bs @ r)) = bs @
    (if length r < 56 then [last_block (r @ [0x80]) (of_nat (8 * length (concat bs @ r)))]
     else [r @ 0x80 # replicate (63 - length r) 0, last_block [] (of_nat (8 * length (concat bs @ r)))])"
proof -
  let ?n = "of_nat (8 * length (concat bs @ r)) :: u64"
  have "length (concat bs) mod 64 = 0" using assms(1) by (induction bs) auto
  then have len: "length (concat bs @ r) mod 64 = length r"
    using assms(2) by (metis length_append mod_add_left_eq add_0 mod_less)
  show ?thesis
  proof (cases "length r < 56")
    case True
    then have "(119 - length r) mod 64 = 55 - length r"
      using assms(2) by (simp add: mod_if)
    then have "fips_pad (concat bs @ r) = concat bs @ last_block (r @ [0x80]) ?n"
      using len by (simp add: fips_pad_def last_block_def)
    moreover have "length (last_block (r @ [0x80]) ?n) = 64"
      using True by (simp add: last_block_def)
    then have "blocks64 (last_block (r @ [0x80]) ?n) = [last_block (r @ [0x80]) ?n]"
      using blocks64_block [of _ "[]"] by simp
    ultimately show ?thesis using True by (simp add: blocks64_concat assms(1))
  next
    case False
    let ?b = "r @ 0x80 # replicate (63 - length r) 0"
    have pad: "(119 - length r) mod 64 = (63 - length r) + 56"
      using False assms(2) by (simp add: mod_if)
    have "fips_pad (concat bs @ r) = concat bs @ (?b @ last_block [] ?n)"
      unfolding fips_pad_def len pad replicate_add by (simp add: last_block_def)
    moreover have "length ?b = 64" "length (last_block [] ?n) = 64"
      using False assms(2) by (simp_all add: last_block_def)
    then have "blocks64 (?b @ last_block [] ?n) = [?b, last_block [] ?n]"
      using blocks64_block [of "last_block [] ?n" "[]"]
      by (simp only: blocks64_block append_Nil2 blocks64_Nil)
    ultimately show ?thesis using False by (simp only: blocks64_concat assms(1)) simp
  qed
qed

lemma sha256_final_spec:
  assumes "sha_holds c m"
  shows "sha256_final c = (sha256_spec m, sha256_zero)"
proof -
  from assms obtain bs r where m: "m = concat bs @ r" and bs: "list_all (\<lambda>b. length b = 64) bs"
    and r: "length r = block_size c" "length r < 64" "length (block c) = 64"
      "take (block_size c) (block c) = r" and st: "sha_state c = foldl compress initial bs"
    unfolding sha_holds_def sha_blocks_def by blast
  have bits: "bit_count c = of_nat (8 * length (concat bs @ r))"
    using assms m by (simp add: sha_holds_def)
  define p where "p = (block c)[block_size c := 0x80]"
  have p: "take (Suc (block_size c)) p = r @ [0x80]" "length p = 64"
    using r by (simp_all add: p_def take_Suc_conv_app_nth)
  have fold: "foldl fips_compress initial (blocks64 (fips_pad m)) =
      foldl compress initial (blocks64 (fips_pad m))"
    by (rule foldl_cong) (simp_all add: compress_fips)
  show ?thesis
  proof (cases "length r < 56")
    case True
    have "store_length (bit_count c) (take (Suc (block_size c)) p @ replicate (55 - block_size c) 0 @ drop 56 p)
        = last_block (r @ [0x80]) (bit_count c)"
      using store_length_be64 [of "take (Suc (block_size c)) p @ replicate (55 - block_size c) 0" "drop 56 p"]
        True r(1) p by (simp add: last_block_def)
    then show ?thesis
      using True r(1) st fips_pad_blocks [OF bs r(2)]
      by (simp add: sha256_final_def sha256_spec_def Let_def transform_def fold bits flip: p_def) (simp add: m)
  next
    case False
    let ?full = "take (Suc (block_size c)) p @ replicate (63 - block_size c) 0"
    have full: "?full = r @ 0x80 # replicate (63 - length r) 0" "length ?full = 64"
      using p False r by simp_all
    have "store_length (bit_count c) (replicate 56 0 @ drop 56 ?full) = last_block [] (bit_count c)"
      using store_length_be64 [of "replicate 56 0" "drop 56 ?full"] full(2) by (simp add: last_block_def)
    then show ?thesis
      using False r(1) st fips_pad_blocks [OF bs r(2)] full(1)
      by (simp add: sha256_final_def sha256_spec_def Let_def transform_def fold bits flip: p_def) (simp add: m)
  qed
qed

interpretation sha256: incremental_hash sha256_init sha256_update "\<lambda>c. fst (sha256_final c)" sha_holds sha256_spec
  by unfold_locales (simp_all add: sha_holds_init sha_holds_update sha256_final_spec)

section \<open>Properties\<close>

text \<open>C31: Hashing a message in any number of pieces, of any sizes, gives the SHA-256 of FIPS 180-4 of the
  concatenation of the pieces.
\<close>

theorem sha256_pieces:
  "fst (sha256_final (foldl sha256_update sha256_init pieces)) = sha256_spec (concat pieces)"
  by (rule sha256.finish_chunks)

text \<open>The digest has 32 bytes, and its printed form is 64 lower-case hexadecimal digits.\<close>

lemma length_digest_bytes [simp]: "length (digest_bytes h) = 32"
  by (cases h rule: digest_bytes.cases) simp

lemma length_sha256_spec [simp]: "length (sha256_spec m) = 32"
  by (simp add: sha256_spec_def)

lemma sha256_hex_spec: "sha256_hex (sha256_spec m) = hex_encode (sha256_spec m)"
  by (simp add: sha256_hex_encode)

lemma sha256_hex_digest_eq: "sha256_hex (sha256_spec m) = sha256_hex (sha256_spec n) \<longleftrightarrow> sha256_spec m = sha256_spec n"
  by (simp add: sha256_hex_spec hex.encode_inject)

end
