(* ===== verification/Sha256_Vectors.thy ===== *)
theory Sha256_Vectors
  imports Sha256
begin

text \<open>
  A known answer for the code of \<^verbatim>\<open>src/src/sha256.c\<close>.  The digest of the standard's first test
  message is computed inside the kernel, with a homomorphic copy of the compression function on
  integers that the simplifier can evaluate.
\<close>

section \<open>Evaluation on integers\<close>

text \<open>
  The compression function on integers below \<open>2 ^ 32\<close>, where the simplifier evaluates every step;
  \<open>compress_int\<close> computes the same chaining value.
\<close>

abbreviation W :: "int \<Rightarrow> u32" where
  "W \<equiv> word_of_int"

definition in32 :: "int \<Rightarrow> bool" where
  "in32 x \<longleftrightarrow> 0 \<le> x \<and> x < 4294967296"

definition rot_int :: "int \<Rightarrow> nat \<Rightarrow> int" where
  "rot_int x n = drop_bit n x OR push_bit (32 - n) x"

definition schedule_step_int :: "int list \<Rightarrow> nat \<Rightarrow> int list" where
  "schedule_step_int ws i =
     (let x = ws ! (i - 15); y = ws ! (i - 2)
      in ws @ [(ws ! (i - 16) + ((rot_int x 7 XOR rot_int x 18) XOR drop_bit 3 x) + ws ! (i - 7)
                + ((rot_int y 17 XOR rot_int y 19) XOR drop_bit 10 y)) mod 4294967296])"

type_synonym int8 = "int \<times> int \<times> int \<times> int \<times> int \<times> int \<times> int \<times> int"

fun round_int :: "int8 \<Rightarrow> int \<times> int \<Rightarrow> int8" where
  "round_int (a, b, c, d, e, f, g, h) (k, w) =
     (let t1 = h + ((rot_int e 6 XOR rot_int e 11) XOR rot_int e 25)
               + ((e AND f) XOR (NOT e AND g)) + k + w;
          t2 = ((rot_int a 2 XOR rot_int a 13) XOR rot_int a 22)
               + (((a AND b) XOR (a AND c)) XOR (b AND c))
      in ((t1 + t2) mod 4294967296, a, b, c, (d + t1) mod 4294967296, e, f, g))"

fun W8 :: "int8 \<Rightarrow> hash8" where
  "W8 (a, b, c, d, e, f, g, h) = (W a, W b, W c, W d, W e, W f, W g, W h)"

fun in8 :: "int8 \<Rightarrow> bool" where
  "in8 (a, b, c, d, e, f, g, h) \<longleftrightarrow> list_all in32 [a, b, c, d, e, f, g, h]"

lemmas W_bits = of_int_and_eq of_int_or_eq of_int_xor_eq of_int_not_eq of_int_push_bit

lemma W_mod [simp]: "W (x mod 4294967296) = W x"
  by (simp add: word_of_int_eq_iff take_bit_eq_mod)

lemma in32_mod [simp]: "in32 (x mod 4294967296)"
  by (simp add: in32_def)

lemma W_drop_bit: "in32 x \<Longrightarrow> W (drop_bit n x) = drop_bit n (W x)"
proof (rule bit_word_eqI)
  fix i assume x: "in32 x" and i: "i < LENGTH(32)"
  have "take_bit 32 x = x" using x by (simp add: in32_def take_bit_int_eq_self)
  then have "bit x (n + i) \<Longrightarrow> n + i < 32" by (metis bit_take_bit_iff)
  with i show "bit (W (drop_bit n x)) i = bit (drop_bit n (W x)) i" by (auto simp: bit_simps)
qed

lemma W_rot: "in32 x \<Longrightarrow> W (rot_int x n) = rotate_right (W x) n"
  by (simp add: rot_int_def rotate_right_def W_drop_bit W_bits)

lemma schedule_step_int:
  assumes "list_all in32 ws" and "16 \<le> i" and "i \<le> length ws"
  shows "schedule_step (map W ws) i = map W (schedule_step_int ws i)"
    and "list_all in32 (schedule_step_int ws i)" and "length (schedule_step_int ws i) = Suc (length ws)"
proof -
  show "schedule_step (map W ws) i = map W (schedule_step_int ws i)"
    using assms
    by (simp add: schedule_step_def schedule_step_int_def Let_def W_rot W_drop_bit W_bits list_all_length)
qed (simp_all add: assms(1) schedule_step_int_def Let_def)

lemma schedule_int:
  assumes "list_all in32 ws" and "length ws = 16"
  shows "foldl schedule_step (map W ws) [16..<16 + k] = map W (foldl schedule_step_int ws [16..<16 + k])"
    and "list_all in32 (foldl schedule_step_int ws [16..<16 + k])"
    and "length (foldl schedule_step_int ws [16..<16 + k]) = 16 + k"
proof (induction k)
  case (Suc k)
  have up: "[16..<16 + Suc k] = [16..<16 + k] @ [16 + k]" by (simp only: add_Suc_right upt_Suc_append le_add1)
  case 1 show ?case using schedule_step_int [OF Suc(2), of "16 + k"] Suc unfolding up by simp
  case 2 show ?case using schedule_step_int [OF Suc(2), of "16 + k"] Suc unfolding up by simp
  case 3 show ?case using schedule_step_int [OF Suc(2), of "16 + k"] Suc unfolding up by simp
qed (use assms in \<open>simp_all del: upt_rec_numeral\<close>)

lemma round_int:
  "in8 st \<Longrightarrow> compress_round (W8 st) (W k, W w) = W8 (round_int st (k, w)) \<and> in8 (round_int st (k, w))"
  by (cases "(st, k, w)" rule: round_int.cases) (simp add: Let_def W_rot W_bits)

lemma rounds_int:
  "in8 st \<Longrightarrow> foldl compress_round (W8 st) (map (\<lambda>(k, w). (W k, W w)) kws) = W8 (foldl round_int st kws)"
proof (induction kws arbitrary: st)
  case (Cons kw kws)
  then show ?case using round_int [OF Cons.prems] by (cases kw) simp
qed simp

definition constants_int :: "int list" where
  "constants_int = map uint constants"

text \<open>One compression step, with everything but the last addition computed on integers.\<close>

lemma compress_int:
  assumes "map (load_word input) [0..<16] = map W ws" and "list_all in32 ws" and "in8 st"
  shows "compress (W8 st) input =
    add8 (W8 st) (W8 (foldl round_int st (zip constants_int (foldl schedule_step_int ws [16..<64]))))"
proof -
  let ?s = "foldl schedule_step_int ws [16..<16 + 48]"
  have "length ws = 16" using assms(1) by (metis length_map length_upt diff_zero)
  then have sched: "schedule input = map W ?s"
    using schedule_int(1) [OF assms(2), of 48] by (simp add: schedule_def assms(1) del: upt_rec_numeral)
  have kc: "constants = map W constants_int" by (simp add: constants_int_def map_idI)
  have "zip constants (schedule input) = map (\<lambda>(k, w). (W k, W w)) (zip constants_int ?s)"
    unfolding sched by (subst kc) (simp only: zip_map_map)
  then show ?thesis by (simp add: compress_def rounds_int [OF assms(3)] del: upt_rec_numeral)
qed

fun add8_int :: "int8 \<Rightarrow> int8 \<Rightarrow> int8" where
  "add8_int (a, b, c, d, e, f, g, h) (a', b', c', d', e', f', g', h') =
     ((a + a') mod 4294967296, (b + b') mod 4294967296, (c + c') mod 4294967296,
      (d + d') mod 4294967296, (e + e') mod 4294967296, (f + f') mod 4294967296,
      (g + g') mod 4294967296, (h + h') mod 4294967296)"

lemma add8_int: "add8 (W8 x) (W8 y) = W8 (add8_int x y)"
  by (induction x y rule: add8_int.induct) simp

lemma digest_one_block:
  assumes "blocks64 (fips_pad m) = [input]" and "map (load_word input) [0..<16] = map W ws"
    and "list_all in32 ws" and "in8 st" and "initial = W8 st"
  shows "sha256_spec m = digest_bytes (W8 (add8_int st
    (foldl round_int st (zip constants_int (foldl schedule_step_int ws [16..<64])))))"
  unfolding sha256_spec_def assms(1) foldl.simps compress_fips [symmetric] assms(5)
    compress_int [OF assms(2-4)] add8_int ..

definition initial_int :: int8 where
  "initial_int = (0x6a09e667, 0xbb67ae85, 0x3c6ef372, 0xa54ff53a,
                  0x510e527f, 0x9b05688c, 0x1f83d9ab, 0x5be0cd19)"

definition abc_words :: "int list" where
  "abc_words = [0x61626380, 0, 0, 0, 0, 0, 0, 0, 0, 0, 0, 0, 0, 0, 0, 0x18]"

lemma abc_schedule: "foldl schedule_step_int abc_words [16..<64] =
  [1633837952, 0, 0, 0, 0, 0, 0, 0, 0, 0, 0, 0, 0, 0, 0, 24, 1633837952,
   983040, 2108187653, 1610613702, 1050508152, 25426944, 316456923,
   3806512014, 3357629466, 3073800610, 3854317833, 845560923, 2636160359,
   3968280267, 1881225380, 3552024379, 2482346367, 996719219, 2952069057,
   4043988066, 176896406, 1924104970, 2483675966, 610538786, 2672279444,
   4037431130, 1042573945, 657669027, 206005234, 2215296807, 2049510749,
   106709978, 4215179723, 3430291419, 3118885940, 2845390439, 2226839261,
   3256115900, 344409900, 2987358873, 4015503821, 3957764664, 2682456414,
   2025622859, 2755645205, 1720397816, 4004225740, 313650667]"
  by (simp add: abc_words_def schedule_step_int_def rot_int_def Let_def)

lemma abc_rounds: "add8_int initial_int (foldl round_int initial_int
    (zip constants_int (foldl schedule_step_int abc_words [16..<64]))) =
  (0xba7816bf, 0x8f01cfea, 0x414140de, 0x5dae2223, 0xb00361a3, 0x96177a9c, 0xb410ff61, 0xf20015ad)"
  unfolding abc_schedule
  by (simp add: initial_int_def constants_int_def constants_def rot_int_def Let_def)

definition abc_block :: "byte list" where
  "abc_block = [0x61, 0x62, 0x63, 0x80, 0, 0, 0, 0, 0, 0, 0, 0, 0, 0, 0, 0, 0, 0, 0, 0, 0, 0, 0, 0,
                0, 0, 0, 0, 0, 0, 0, 0, 0, 0, 0, 0, 0, 0, 0, 0, 0, 0, 0, 0, 0, 0, 0, 0, 0, 0, 0, 0, 0, 0, 0, 0, 0, 0, 0, 0, 0, 0, 0, 0x18]"

lemma replicate_52: "replicate 52 (0 :: byte) = [0, 0, 0, 0, 0, 0, 0, 0, 0, 0, 0, 0, 0, 0, 0, 0, 0, 0, 0, 0, 0, 0, 0, 0, 0, 0, 0, 0, 0, 0, 0, 0, 0, 0, 0, 0, 0, 0, 0, 0, 0, 0, 0, 0, 0, 0, 0, 0, 0, 0, 0, 0]"
  by (simp add: numeral_eq_Suc)

lemma abc_blocks: "blocks64 (fips_pad [0x61, 0x62, 0x63]) = [abc_block]"
  using fips_pad_blocks [of "[]" "[0x61, 0x62, 0x63]"]
  by (simp add: last_block_def replicate_52 be64_def abc_block_def upt_rec)

lemma abc_load: "map (load_word abc_block) [0..<16] = map W abc_words"
  by (simp add: load_word_def abc_block_def abc_words_def upt_rec)

section \<open>The test vector\<close>

text \<open>Hashing the three bytes of ``abc'' with the code gives the digest that FIPS 180-4 prints for
  that message, which fixes every constant of the implementation.
\<close>

theorem sha256_abc:
  "sha256_hex (fst (sha256_final (sha256_update sha256_init [0x61, 0x62, 0x63]))) =
    ''ba7816bf8f01cfea414140de5dae2223b00361a396177a9cb410ff61f20015ad''"
proof -
  have "fst (sha256_final (sha256_update sha256_init [0x61, 0x62, 0x63])) = sha256_spec [0x61, 0x62, 0x63]"
    using sha256.finish_update [OF sha_holds_init, of "[0x61, 0x62, 0x63]"] by simp
  also have "\<dots> = digest_bytes (W8 (0xba7816bf, 0x8f01cfea, 0x414140de, 0x5dae2223,
      0xb00361a3, 0x96177a9c, 0xb410ff61, 0xf20015ad))"
    unfolding abc_rounds [symmetric]
    by (rule digest_one_block [OF abc_blocks abc_load])
      (simp_all add: abc_words_def in32_def initial_int_def initial_def)
  finally show ?thesis by (simp add: sha256_hex_encode hex_pair_def hex_digits_def)
qed

end
