(* ===== verification/Utf8.thy ===== *)
theory Utf8
  imports Prelude
begin

text \<open>
  The UTF-8 check of \<^verbatim>\<open>src/src/safe_path.c\<close> (\<open>valid_utf8\<close>), transcribed with its masks and shifts,
  and the proof that it accepts exactly the byte strings that encode a sequence of Unicode scalar
  values: no overlong form, no surrogate, nothing above \<open>U+10FFFF\<close>, no truncated sequence.
\<close>

section \<open>The code\<close>

text \<open>The first byte of a sequence of two to four: \<open>remaining\<close> and the bits it contributes.\<close>

definition utf8_lead :: "byte \<Rightarrow> (nat \<times> u32) option" where
  "utf8_lead b =
     (if b AND 0xe0 = 0xc0 then (if ucast (b AND 0x1f) < (2 :: u32) then None else Some (1, ucast (b AND 0x1f)))
      else if b AND 0xf0 = 0xe0 then Some (2, ucast (b AND 0x0f))
      else if b AND 0xf8 = 0xf0 then (if (4 :: u32) < ucast (b AND 0x07) then None else Some (3, ucast (b AND 0x07)))
      else None)"

text \<open>
  The inner loop over the continuation bytes.  At the end of the text it reads the terminating NUL,
  which is no continuation byte.
\<close>

fun utf8_tail :: "nat \<Rightarrow> u32 \<Rightarrow> byte list \<Rightarrow> (u32 \<times> byte list) option" where
  "utf8_tail 0 cp text = Some (cp, text)"
| "utf8_tail (Suc remaining) cp [] = None"
| "utf8_tail (Suc remaining) cp (b # text) =
     (if b AND 0xc0 \<noteq> 0x80 then None
      else utf8_tail remaining (push_bit 6 cp OR ucast (b AND 0x3f)) text)"

definition utf8_rejects :: "nat \<Rightarrow> u32 \<Rightarrow> bool" where
  "utf8_rejects sequence_bytes cp \<longleftrightarrow>
     (sequence_bytes = 2 \<and> cp < 0x80) \<or> (sequence_bytes = 3 \<and> cp < 0x800) \<or>
     (sequence_bytes = 4 \<and> cp < 0x10000) \<or> (0xd800 \<le> cp \<and> cp \<le> 0xdfff) \<or> 0x10ffff < cp"

lemma utf8_tail_length: "utf8_tail r cp s = Some (cp', rest) \<Longrightarrow> length rest \<le> length s"
  by (induction r cp s rule: utf8_tail.induct) (auto split: if_splits)

function valid_utf8 :: "byte list \<Rightarrow> bool" where
  "valid_utf8 [] = True"
| "valid_utf8 (b # text) =
     (if b < 0x80 then valid_utf8 text
      else case utf8_lead b of
          None \<Rightarrow> False
        | Some (remaining, cp) \<Rightarrow>
            (case utf8_tail remaining cp text of
               None \<Rightarrow> False
             | Some (cp, rest) \<Rightarrow> \<not> utf8_rejects (remaining + 1) cp \<and> valid_utf8 rest))"
  by pat_completeness auto
termination
  by (relation "measure length") (auto dest: utf8_tail_length)

section \<open>The encoding of scalar values\<close>

definition scalar :: "nat \<Rightarrow> bool" where
  "scalar n \<longleftrightarrow> n < 0xd800 \<or> (0xe000 \<le> n \<and> n \<le> 0x10ffff)"

definition utf8_encode :: "nat \<Rightarrow> byte list" where
  "utf8_encode n =
     (if n < 0x80 then [of_nat n]
      else if n < 0x800 then [of_nat (0xc0 + n div 64), of_nat (0x80 + n mod 64)]
      else if n < 0x10000 then
        [of_nat (0xe0 + n div 4096), of_nat (0x80 + n div 64 mod 64), of_nat (0x80 + n mod 64)]
      else
        [of_nat (0xf0 + n div 262144), of_nat (0x80 + n div 4096 mod 64),
         of_nat (0x80 + n div 64 mod 64), of_nat (0x80 + n mod 64)])"

definition utf8_text :: "nat list \<Rightarrow> byte list" where
  "utf8_text ns = concat (map utf8_encode ns)"

section \<open>Bytes as numbers\<close>

definition lead_nat :: "nat \<Rightarrow> (nat \<times> u32) option" where
  "lead_nat n =
     (if 194 \<le> n \<and> n < 224 then Some (1, of_nat (n - 192))
      else if 224 \<le> n \<and> n < 240 then Some (2, of_nat (n - 224))
      else if 240 \<le> n \<and> n < 245 then Some (3, of_nat (n - 240)) else None)"

lemma byte_table:
  "list_all (\<lambda>n. utf8_lead (of_nat n) = lead_nat n \<and>
      (((of_nat n :: byte) AND 0xc0 = 0x80) = (128 \<le> n \<and> n < 192))) [0..<256]"
  by (simp add: upt_rec utf8_lead_def lead_nat_def)

lemma byte_facts:
  "utf8_lead b = lead_nat (unat b)" "(b AND 0xc0 = 0x80) = (128 \<le> unat b \<and> unat b < 192)"
proof -
  have "unat b \<in> set [0..<256]" using unat_byte_bound [of b] by simp
  with byte_table have "utf8_lead (of_nat (unat b)) = lead_nat (unat b) \<and>
      (((of_nat (unat b) :: byte) AND 0xc0 = 0x80) = (128 \<le> unat b \<and> unat b < 192))"
    unfolding list_all_iff by (rule bspec)
  then show "utf8_lead b = lead_nat (unat b)" "(b AND 0xc0 = 0x80) = (128 \<le> unat b \<and> unat b < 192)"
    by simp_all
qed

lemma continuation_bits: "unat (b AND 0x3f :: byte) = unat b mod 64"
proof -
  have "mask 6 = (0x3f :: byte)" by (simp add: mask_eq_exp_minus_1)
  then show ?thesis using unat_and_mask_mod [of b 6] by simp
qed

lemma unat_ucast_u32 [simp]: "unat (ucast (b :: byte) :: u32) = unat b"
  using unat_byte_bound [of b] by (simp add: unsigned_ucast_eq take_bit_nat_eq_self)

lemma append_bits:
  assumes "unat cp < 2 ^ 26"
  shows "unat (push_bit 6 cp OR ucast (b AND 0x3f :: byte) :: u32) = unat cp * 64 + unat b mod 64"
proof -
  let ?x = "push_bit 6 cp" and ?y = "ucast (b AND 0x3f) :: u32"
  have y: "unat ?y = unat b mod 64" by (simp add: continuation_bits)
  have x: "unat ?x = unat cp * 64"
    using assms by (simp add: push_bit_eq_mult unat_word_ariths)
  have "?x AND ?y = 0"
  proof (rule bit_word_eqI)
    fix i assume "i < LENGTH(32)"
    have m: "(0x3f :: byte) = mask 6" by (simp add: mask_eq_exp_minus_1)
    show "bit (?x AND ?y) i = bit 0 i" unfolding m by (auto simp: bit_simps)
  qed
  then have "?x OR ?y = ?x + ?y" by (metis add_0 word_plus_and_or)
  moreover have "unat (?x + ?y) = unat ?x + unat ?y"
    using assms x y by (intro unat_add_no_wrap) simp
  ultimately show ?thesis using x y by simp
qed

section \<open>Accepted texts are encodings\<close>

text \<open>One byte at the front of a sequence, with the arithmetic of the tail carried on numbers.\<close>

fun tail_nat :: "nat \<Rightarrow> nat \<Rightarrow> byte list \<Rightarrow> (nat \<times> byte list) option" where
  "tail_nat 0 n s = Some (n, s)"
| "tail_nat (Suc r) n [] = None"
| "tail_nat (Suc r) n (b # s) =
     (if 128 \<le> unat b \<and> unat b < 192 then tail_nat r (n * 64 + (unat b - 128)) s else None)"

lemma continuation_value: "128 \<le> n \<Longrightarrow> n < 192 \<Longrightarrow> n mod 64 = n - (128 :: nat)"
  using mod_mult_self3 [of 2 64 "n - 128"] by simp

lemma utf8_tail_nat:
  "r \<le> 3 \<Longrightarrow> unat cp < 32 * 64 ^ (3 - r) \<Longrightarrow>
   map_option (\<lambda>(c, s). (unat c, s)) (utf8_tail r cp s) = tail_nat r (unat cp) s"
proof (induction r cp s rule: utf8_tail.induct)
  case (3 r cp b s)
  then consider "r = 0" | "r = 1" | "r = 2" by linarith
  then have cp: "unat cp < 2 ^ 26" and nxt: "64 * (32 * 64 ^ (3 - Suc r)) = (32 * 64 ^ (3 - r) :: nat)"
    using "3.prems"(2) by (cases; simp)+
  note eq = append_bits [OF cp, of b]
  show ?case
  proof (cases "128 \<le> unat b \<and> unat b < 192")
    case True
    then have m: "unat b mod 64 = unat b - 128" by (intro continuation_value) simp_all
    have "unat cp * 64 + unat b mod 64 < 32 * 64 ^ (3 - r)"
      using "3.prems"(2) True nxt m by simp
    with "3.IH" "3.prems"(1) True eq m show ?thesis by (simp add: byte_facts)
  next
    case False
    then show ?thesis by (auto simp: byte_facts)
  qed
qed simp_all

text \<open>One step of the check, on numbers.\<close>

definition lead_num :: "nat \<Rightarrow> (nat \<times> nat) option" where
  "lead_num n =
     (if 194 \<le> n \<and> n < 224 then Some (1, n - 192)
      else if 224 \<le> n \<and> n < 240 then Some (2, n - 224)
      else if 240 \<le> n \<and> n < 245 then Some (3, n - 240) else None)"

definition accepts_num :: "nat \<Rightarrow> nat \<Rightarrow> bool" where
  "accepts_num r cp \<longleftrightarrow>
     (r = 1 \<longrightarrow> 0x80 \<le> cp) \<and> (r = 2 \<longrightarrow> 0x800 \<le> cp) \<and> (r = 3 \<longrightarrow> 0x10000 \<le> cp) \<and> scalar cp"

lemma lead_nat_num: "lead_nat n = map_option (\<lambda>(r, m). (r, of_nat m)) (lead_num n)"
  by (simp add: lead_nat_def lead_num_def)

lemma utf8_rejects_num: "utf8_rejects (r + 1) cp \<longleftrightarrow> \<not> accepts_num r (unat cp)"
  by (auto simp: utf8_rejects_def accepts_num_def scalar_def word_nat)

lemma valid_utf8_ascii: "unat b < 128 \<Longrightarrow> valid_utf8 (b # s) = valid_utf8 s"
  by (simp add: word_nat)

lemma valid_utf8_multi:
  assumes "128 \<le> unat b"
  shows "valid_utf8 (b # s) =
    (case lead_num (unat b) of None \<Rightarrow> False
     | Some (r, n) \<Rightarrow> (case tail_nat r n s of None \<Rightarrow> False
                      | Some (cp, rest) \<Rightarrow> accepts_num r cp \<and> valid_utf8 rest))"
proof -
  have big: "\<not> b < 0x80" using assms by (simp add: word_nat)
  show ?thesis
proof (cases "lead_num (unat b)")
  case None
  then have "utf8_lead b = None" by (simp add: byte_facts(1) lead_nat_num)
  with None big show ?thesis by simp
next
  case (Some rn)
  then obtain r n where rn: "rn = (r, n)" and r: "r \<in> {1, 2, 3}" "n < 32 * 64 ^ (3 - r)"
    by (cases rn) (auto simp: lead_num_def split: if_splits)
  then have n: "unat (of_nat n :: u32) = n"
    by (auto simp: unat_of_nat)
  have lead: "utf8_lead b = Some (r, of_nat n)" using Some rn by (simp add: byte_facts(1) lead_nat_num)
  have tail: "map_option (\<lambda>(c, s). (unat c, s)) (utf8_tail r (of_nat n) s) = tail_nat r n s"
    using utf8_tail_nat [of r "of_nat n" s] r n by auto
  show ?thesis
  proof (cases "utf8_tail r (of_nat n) s")
    case None
    with tail have "tail_nat r n s = None" by simp
    with None lead big Some rn show ?thesis by simp
  next
    case (Some cr)
    then obtain c rest where c: "utf8_tail r (of_nat n) s = Some (c, rest)" by (cases cr) simp
    with tail have "tail_nat r n s = Some (unat c, rest)" by simp
    with c lead big \<open>lead_num (unat b) = Some rn\<close> rn utf8_rejects_num [of r c] show ?thesis by simp
  qed
qed
qed

declare valid_utf8.simps(2) [simp del]

lemma mod_64_byte: "unat (of_nat (128 + n mod 64) :: byte) = 128 + n mod 64"
proof -
  have "n mod 64 < 64" by simp
  then have "128 + n mod 64 < 256" by linarith
  then show ?thesis by (rule unat_of_nat_byte)
qed

lemma tail_nat_continuation:
  "tail_nat (Suc r) n (of_nat (128 + k mod 64) # s) = tail_nat r (n * 64 + k mod 64) s"
  unfolding tail_nat.simps mod_64_byte by simp

lemma digits64:
  "n div 64 * 64 + n mod 64 = (n :: nat)"
  "(n div 4096 * 64 + n div 64 mod 64) * 64 + n mod 64 = (n :: nat)"
  "((n div 262144 * 64 + n div 4096 mod 64) * 64 + n div 64 mod 64) * 64 + n mod 64 = (n :: nat)"
proof -
  show 1: "n div 64 * 64 + n mod 64 = n" for n :: nat by simp
  show 2: "(n div 4096 * 64 + n div 64 mod 64) * 64 + n mod 64 = n" for n :: nat
    using 1 [of "n div 64"] 1 [of n] by (simp add: div_mult2_eq [symmetric])
  show "((n div 262144 * 64 + n div 4096 mod 64) * 64 + n div 64 mod 64) * 64 + n mod 64 = n"
    using 2 [of "n div 64"] 1 [of n] by (simp add: div_mult2_eq [symmetric])
qed

text \<open>The encoding of a scalar value passes the check, and passing means being one.\<close>

lemma valid_utf8_encode:
  assumes "scalar n"
  shows "valid_utf8 (utf8_encode n @ s) = valid_utf8 s"
proof -
  have n: "n < 0x110000" using assms by (auto simp: scalar_def)
  consider "n < 0x80" | "0x80 \<le> n" "n < 0x800" | "0x800 \<le> n" "n < 0x10000" | "0x10000 \<le> n" by linarith
  then show ?thesis
  proof cases
    case 1
    then show ?thesis by (simp add: utf8_encode_def valid_utf8_ascii unat_of_nat_byte)
  next
    case 2
    then have d: "2 \<le> n div 64" "n div 64 < 32" by (simp_all add: less_mult_imp_div_less)
    then have b: "unat (of_nat (192 + n div 64) :: byte) = 192 + n div 64"
      by (intro unat_of_nat_byte) simp
    from d have l: "lead_num (192 + n div 64) = Some (Suc 0, n div 64)" by (simp add: lead_num_def)
    have e: "utf8_encode n @ s = of_nat (192 + n div 64) # of_nat (128 + n mod 64) # s"
      using 2 by (simp add: utf8_encode_def)
    show ?thesis unfolding e
      by (subst valid_utf8_multi)
        (use 2 assms in \<open>simp_all only: b l tail_nat_continuation tail_nat.simps(1) digits64 option.case
           prod.case accepts_num_def\<close>, simp_all)
  next
    case 3
    then have d: "n div 4096 < 16" by (simp add: less_mult_imp_div_less)
    then have b: "unat (of_nat (224 + n div 4096) :: byte) = 224 + n div 4096"
      by (intro unat_of_nat_byte) simp
    from d have l: "lead_num (224 + n div 4096) = Some (Suc (Suc 0), n div 4096)"
      by (simp add: lead_num_def numeral_2_eq_2)
    have e: "utf8_encode n @ s = of_nat (224 + n div 4096) # of_nat (128 + n div 64 mod 64)
        # of_nat (128 + n mod 64) # s"
      using 3 by (simp add: utf8_encode_def)
    show ?thesis unfolding e
      by (subst valid_utf8_multi)
        (use 3 assms in \<open>simp_all only: b l tail_nat_continuation tail_nat.simps(1) digits64 option.case
           prod.case accepts_num_def\<close>, simp_all)
  next
    case 4
    then have d: "n div 262144 < 5" using n by (simp add: less_mult_imp_div_less)
    then have b: "unat (of_nat (240 + n div 262144) :: byte) = 240 + n div 262144"
      by (intro unat_of_nat_byte) simp
    from d have l: "lead_num (240 + n div 262144) = Some (Suc (Suc (Suc 0)), n div 262144)"
      by (simp add: lead_num_def numeral_3_eq_3)
    have e: "utf8_encode n @ s = of_nat (240 + n div 262144) # of_nat (128 + n div 4096 mod 64)
        # of_nat (128 + n div 64 mod 64) # of_nat (128 + n mod 64) # s"
      using 4 by (simp add: utf8_encode_def)
    show ?thesis unfolding e
      by (subst valid_utf8_multi)
        (use 4 assms in \<open>simp_all only: b l tail_nat_continuation tail_nat.simps(1) digits64 option.case
           prod.case accepts_num_def\<close>, simp_all)
  qed
qed

lemma tail_nat_Suc_iff:
  "tail_nat (Suc r) n s = Some (cp, rest) \<longleftrightarrow>
   (\<exists>b s'. s = b # s' \<and> 128 \<le> unat b \<and> unat b < 192 \<and> tail_nat r (n * 64 + (unat b - 128)) s' = Some (cp, rest))"
  by (cases s) auto

lemma byte_eqI: "unat b = n \<Longrightarrow> (b :: byte) = of_nat n"
  by auto

lemma split64:
  fixes q m :: nat
  assumes "m < 64"
  shows "(q * 64 + m) div 64 = q" "(q * 64 + m) mod 64 = m" "(q * 64 + m) div 4096 = q div 64"
    "(q * 64 + m) div 262144 = q div 4096"
proof -
  show 1: "(q * 64 + m) div 64 = q" and "(q * 64 + m) mod 64 = m" using assms by simp_all
  show "(q * 64 + m) div 4096 = q div 64"
    using div_mult2_eq [of "q * 64 + m" 64 64] 1 by simp
  show "(q * 64 + m) div 262144 = q div 4096"
    using div_mult2_eq [of "q * 64 + m" 64 4096] 1 by simp
qed

lemma tail_nat_encode:
  assumes "lead_num (unat b) = Some (r, n)" and "tail_nat r n s = Some (cp, rest)" and "accepts_num r cp"
  shows "b # s = utf8_encode cp @ rest"
proof -
  consider (two) "r = 1" "194 \<le> unat b" "unat b < 224" "n = unat b - 192"
    | (three) "r = 2" "224 \<le> unat b" "unat b < 240" "n = unat b - 224"
    | (four) "r = 3" "240 \<le> unat b" "unat b < 245" "n = unat b - 240"
    using assms(1) by (auto simp: lead_num_def split: if_splits)
  then show ?thesis
  proof cases
    case two
    from assms(2) [unfolded two(1) One_nat_def tail_nat_Suc_iff tail_nat.simps(1) option.inject prod.inject] obtain b1 where s: "s = b1 # rest" and b1: "128 \<le> unat b1" "unat b1 < 192"
      and cp: "cp = n * 64 + (unat b1 - 128)"
      by blast
    from b1 have m: "unat b1 - 128 < 64" by simp
    have "0x80 \<le> cp" using assms(3) two by (simp add: accepts_num_def)
    moreover have "cp < 0x800" using cp m two by simp
    ultimately have "utf8_encode cp = [of_nat (0xc0 + n), of_nat (0x80 + (unat b1 - 128))]"
      unfolding utf8_encode_def cp split64 [OF m] by simp
    moreover have "b = of_nat (0xc0 + n)" "b1 = of_nat (0x80 + (unat b1 - 128))"
      using two b1 by (intro byte_eqI; simp)+
    ultimately show ?thesis using s by simp
  next
    case three
    from assms(2) [unfolded three(1) numeral_2_eq_2 tail_nat_Suc_iff tail_nat.simps(1) option.inject prod.inject] obtain b1 b2 where s: "s = b1 # b2 # rest" and b1: "128 \<le> unat b1" "unat b1 < 192"
      and b2: "128 \<le> unat b2" "unat b2 < 192" and cp: "cp = (n * 64 + (unat b1 - 128)) * 64 + (unat b2 - 128)"
      by blast
    from b1 b2 have m: "unat b1 - 128 < 64" "unat b2 - 128 < 64" by simp_all
    have "0x800 \<le> cp" using assms(3) three by (simp add: accepts_num_def)
    moreover have "cp < 0x10000" using cp m three by simp
    ultimately have "utf8_encode cp = [of_nat (0xe0 + n), of_nat (0x80 + (unat b1 - 128)), of_nat (0x80 + (unat b2 - 128))]"
      unfolding utf8_encode_def cp split64 [OF m(2)] split64 [OF m(1)] by simp
    moreover have "b = of_nat (0xe0 + n)" "b1 = of_nat (0x80 + (unat b1 - 128))" "b2 = of_nat (0x80 + (unat b2 - 128))"
      using three b1 b2 by (intro byte_eqI; simp)+
    ultimately show ?thesis using s by simp
  next
    case four
    from assms(2) [unfolded four(1) numeral_3_eq_3 tail_nat_Suc_iff tail_nat.simps(1) option.inject prod.inject] obtain b1 b2 b3 where s: "s = b1 # b2 # b3 # rest" and b1: "128 \<le> unat b1" "unat b1 < 192"
      and b2: "128 \<le> unat b2" "unat b2 < 192" and b3: "128 \<le> unat b3" "unat b3 < 192"
      and cp: "cp = ((n * 64 + (unat b1 - 128)) * 64 + (unat b2 - 128)) * 64 + (unat b3 - 128)"
      by blast
    from b1 b2 b3 have m: "unat b1 - 128 < 64" "unat b2 - 128 < 64" "unat b3 - 128 < 64" by simp_all
    have "0x10000 \<le> cp" using assms(3) four by (simp add: accepts_num_def)
    then have "utf8_encode cp = [of_nat (0xf0 + n), of_nat (0x80 + (unat b1 - 128)),
        of_nat (0x80 + (unat b2 - 128)), of_nat (0x80 + (unat b3 - 128))]"
      unfolding utf8_encode_def cp split64 [OF m(3)] split64 [OF m(2)] split64 [OF m(1)] by simp
    moreover have "b = of_nat (0xf0 + n)" "b1 = of_nat (0x80 + (unat b1 - 128))"
        "b2 = of_nat (0x80 + (unat b2 - 128))" "b3 = of_nat (0x80 + (unat b3 - 128))"
      using four b1 b2 b3 by (intro byte_eqI; simp)+
    ultimately show ?thesis using s by simp
  qed
qed

lemma tail_nat_length: "tail_nat r n s = Some (cp, rest) \<Longrightarrow> length rest \<le> length s"
  by (induction r n s rule: tail_nat.induct) (auto split: if_splits)

lemma valid_utf8_text: "valid_utf8 s \<Longrightarrow> \<exists>ns. list_all scalar ns \<and> s = utf8_text ns"
proof (induction s rule: length_induct)
  case (1 s)
  show ?case
  proof (cases s)
    case Nil
    then show ?thesis by (intro exI [of _ "[]"]) (simp add: utf8_text_def)
  next
    case (Cons b t)
    have "\<exists>n rest. scalar n \<and> s = utf8_encode n @ rest \<and> length rest < length s \<and> valid_utf8 rest"
    proof (cases "unat b < 128")
      case True
      then have "scalar (unat b)" "utf8_encode (unat b) = [b]"
        by (auto simp: scalar_def utf8_encode_def)
      with True "1.prems" Cons show ?thesis by (force simp: valid_utf8_ascii)
    next
      case False
      with "1.prems" Cons obtain r n cp rest where l: "lead_num (unat b) = Some (r, n)"
        and t: "tail_nat r n t = Some (cp, rest)" and a: "accepts_num r cp" "valid_utf8 rest"
        by (auto simp: valid_utf8_multi split: option.splits)
      with tail_nat_encode [OF l t a(1)] tail_nat_length [OF t] Cons show ?thesis
        by (intro exI [of _ cp] exI [of _ rest]) (auto simp: accepts_num_def)
    qed
    then obtain n rest where n: "scalar n" "s = utf8_encode n @ rest" "length rest < length s" "valid_utf8 rest"
      by blast
    with "1.IH" obtain ns where "list_all scalar ns" "rest = utf8_text ns" by blast
    with n show ?thesis by (intro exI [of _ "n # ns"]) (simp add: utf8_text_def)
  qed
qed

lemma valid_utf8_utf8_text: "list_all scalar ns \<Longrightarrow> valid_utf8 (utf8_text ns @ s) = valid_utf8 s"
  by (induction ns) (simp_all add: utf8_text_def valid_utf8_encode)

text \<open>C37: The check of file names accepts a byte string if and only if it is the UTF-8 encoding of some
  sequence of Unicode scalar values.\<close>
theorem valid_utf8_iff: "valid_utf8 s = (\<exists>ns. list_all scalar ns \<and> s = utf8_text ns)"
  using valid_utf8_text [of s] valid_utf8_utf8_text [of _ "[]"] by auto

section \<open>Cutting and joining\<close>

lemma valid_utf8_append: "valid_utf8 a \<Longrightarrow> valid_utf8 (a @ b) = valid_utf8 b"
  using valid_utf8_text [of a] valid_utf8_utf8_text by blast

definition continuation :: "byte \<Rightarrow> bool" where
  "continuation b \<longleftrightarrow> b AND 0xc0 = 0x80"

lemma tail_nat_cut:
  "tail_nat r n (a @ b) = Some (cp, rest) \<Longrightarrow> b = [] \<or> \<not> continuation (hd b) \<Longrightarrow>
   \<exists>a'. rest = a' @ b \<and> tail_nat r n a = Some (cp, a') \<and> length a' \<le> length a"
proof (induction r n a rule: tail_nat.induct)
  case (2 r n)
  then show ?case by (cases b) (auto simp: continuation_def byte_facts split: if_splits)
qed (auto split: if_splits)

text \<open>A text cut in front of a byte that is no continuation byte leaves a text that passes.\<close>

lemma valid_utf8_cut:
  "valid_utf8 (a @ b) \<Longrightarrow> b = [] \<or> \<not> continuation (hd b) \<Longrightarrow> valid_utf8 a"
proof (induction a rule: length_induct)
  case (1 a)
  show ?case
  proof (cases a)
    case (Cons c t)
    show ?thesis
    proof (cases "unat c < 128")
      case True
      with 1 Cons show ?thesis by (simp add: valid_utf8_ascii)
    next
      case False
      with "1.prems" Cons obtain r n cp rest where l: "lead_num (unat c) = Some (r, n)"
        and t: "tail_nat r n (t @ b) = Some (cp, rest)" and a: "accepts_num r cp" "valid_utf8 rest"
        by (auto simp: valid_utf8_multi split: option.splits)
      from tail_nat_cut [OF t "1.prems"(2)] obtain t' where t': "rest = t' @ b"
        "tail_nat r n t = Some (cp, t')" "length t' \<le> length t" by blast
      with a(2) "1.IH" "1.prems"(2) Cons have "valid_utf8 t'" by auto
      with False Cons l t' a show ?thesis by (simp add: valid_utf8_multi)
    qed
  qed simp
qed

end
