(* ===== verification/FileSys.thy ===== *)
theory FileSys
  imports Prelude
begin

text \<open>
  The part of POSIX that the receiver relies on, as functions on one record: directory entries under
  their path text, file contents shared by hard links, open descriptors with their offset, and
  \<open>errno\<close>, which a failing call sets and a successful call leaves alone.  Everything the environment
  decides is scripted in the same record: each call first consumes one element of a list of faults
  (carry on, fail with an error number, or transfer fewer bytes), the clocks are lists of readings and
  the random source is a list of draws.  What the user has been shown is the list of notices.  A theorem
  about all such records is a theorem about all behaviours of the environment; an empty fault list is a
  faultless one.

  Paths are compared as texts.  A symbolic link is followed in the last component, where the call
  follows it; a path through a linked directory is treated as missing.
\<close>

section \<open>State\<close>

datatype build = Host | PS5

datatype errno =
    E0 | ENOENT | EEXIST | EPERM | EACCES | EXDEV | ENOSYS | EOPNOTSUPP | ENOTSUP | EINVAL | EINTR
  | EIO | ENOSPC | EFBIG | ENOTDIR | EISDIR | ELOOP | EBADF | ENOMEM | ENAMETOOLONG | ECANCELED
  | EOTHER nat

datatype node = Directory | Regular nat | Symlink string | Special

datatype fault = Proceed | Fail errno | Partial nat

record inode =
  inode_bytes :: "byte list"
  inode_mtime :: int

record os =
  os_names :: "string \<rightharpoonup> node"
  os_files :: "nat \<Rightarrow> inode"
  os_fds :: "nat \<rightharpoonup> nat \<times> nat"
  os_next :: nat
  os_errno :: errno
  os_faults :: "fault list"
  os_seconds :: "u64 list"
  os_nanos :: "u64 list"
  os_random :: "byte list option list"
  os_space :: "(u64 \<times> u64) option list"
  os_listings :: "string list option list"
  os_notices :: "string list"

text \<open>
  A call takes its fault from the script; \<open>fails\<close> returns -1 with \<open>errno\<close> set.  The error numbers that
  state a fact about the names, and the number that means success, are never injected: the calls
  report them when they hold.
\<close>

definition injected :: "fault \<Rightarrow> fault" where
  "injected f = (if f \<in> {Fail E0, Fail ENOENT, Fail EEXIST} then Proceed else f)"

definition next_fault :: "os \<Rightarrow> fault \<times> os" where
  "next_fault s =
     (case os_faults s of [] \<Rightarrow> (Proceed, s) | f # fs \<Rightarrow> (injected f, s\<lparr>os_faults := fs\<rparr>))"

definition fails :: "errno \<Rightarrow> os \<Rightarrow> bool \<times> os" where
  "fails e s = (False, s\<lparr>os_errno := e\<rparr>)"

definition parent_exists :: "os \<Rightarrow> string \<Rightarrow> bool" where
  "parent_exists s path =
     (case split_at_last CHR ''/'' path of
        None \<Rightarrow> True
      | Some (directory, _) \<Rightarrow> directory = [] \<or> os_names s directory = Some Directory)"

text \<open>The node a path names once final symbolic links are followed, at most 40 of them.\<close>

fun resolve :: "nat \<Rightarrow> os \<Rightarrow> string \<Rightarrow> errno + string" where
  "resolve 0 s path = Inl ELOOP"
| "resolve (Suc n) s path =
     (case os_names s path of Some (Symlink target) \<Rightarrow> resolve n s target | _ \<Rightarrow> Inr path)"

section \<open>Calls on names\<close>

definition sys_access :: "string \<Rightarrow> os \<Rightarrow> bool \<times> os" where
  "sys_access path s0 =
     (case next_fault s0 of
        (Fail e, s) \<Rightarrow> fails e s
      | (_, s) \<Rightarrow>
          (case resolve 41 s path of
             Inl e \<Rightarrow> fails e s
           | Inr p \<Rightarrow> (case os_names s p of None \<Rightarrow> fails ENOENT s | Some _ \<Rightarrow> (True, s))))"

definition sys_lstat :: "string \<Rightarrow> os \<Rightarrow> node option \<times> os" where
  "sys_lstat path s0 =
     (case next_fault s0 of
        (Fail e, s) \<Rightarrow> (None, s\<lparr>os_errno := e\<rparr>)
      | (_, s) \<Rightarrow> (case os_names s path of None \<Rightarrow> (None, s\<lparr>os_errno := ENOENT\<rparr>) | Some n \<Rightarrow> (Some n, s)))"

definition sys_mkdir :: "string \<Rightarrow> os \<Rightarrow> bool \<times> os" where
  "sys_mkdir path s0 =
     (case next_fault s0 of
        (Fail e, s) \<Rightarrow> fails e s
      | (_, s) \<Rightarrow>
          (if os_names s path \<noteq> None then fails EEXIST s
           else if path = [] \<or> \<not> parent_exists s path then fails ENOENT s
           else (True, s\<lparr>os_names := (os_names s)(path \<mapsto> Directory)\<rparr>)))"

definition sys_unlink :: "string \<Rightarrow> os \<Rightarrow> bool \<times> os" where
  "sys_unlink path s0 =
     (case next_fault s0 of
        (Fail e, s) \<Rightarrow> fails e s
      | (_, s) \<Rightarrow>
          (case os_names s path of
             None \<Rightarrow> fails ENOENT s
           | Some Directory \<Rightarrow> fails EISDIR s
           | Some _ \<Rightarrow> (True, s\<lparr>os_names := (os_names s)(path := None)\<rparr>)))"

definition sys_link :: "string \<Rightarrow> string \<Rightarrow> os \<Rightarrow> bool \<times> os" where
  "sys_link old new s0 =
     (case next_fault s0 of
        (Fail e, s) \<Rightarrow> fails e s
      | (_, s) \<Rightarrow>
          (case os_names s old of
             None \<Rightarrow> fails ENOENT s
           | Some Directory \<Rightarrow> fails EPERM s
           | Some n \<Rightarrow>
               (if os_names s new \<noteq> None then fails EEXIST s
                else if \<not> parent_exists s new then fails ENOENT s
                else (True, s\<lparr>os_names := (os_names s)(new \<mapsto> n)\<rparr>))))"

definition sys_rename :: "string \<Rightarrow> string \<Rightarrow> os \<Rightarrow> bool \<times> os" where
  "sys_rename old new s0 =
     (case next_fault s0 of
        (Fail e, s) \<Rightarrow> fails e s
      | (_, s) \<Rightarrow>
          (case os_names s old of
             None \<Rightarrow> fails ENOENT s
           | Some n \<Rightarrow>
               (if \<not> parent_exists s new then fails ENOENT s
                else if os_names s new = Some n then (True, s)
                else if os_names s new = Some Directory then fails EISDIR s
                else (True, s\<lparr>os_names := (os_names s)(old := None, new \<mapsto> n)\<rparr>))))"

section \<open>Calls on descriptors\<close>

definition new_file :: "string \<Rightarrow> os \<Rightarrow> nat option \<times> os" where
  "new_file path s =
     (let n = os_next s in
      (Some n, s\<lparr>os_names := (os_names s)(path \<mapsto> Regular n), os_files := (os_files s)(n := \<lparr>inode_bytes = [], inode_mtime = 0\<rparr>),
                os_fds := (os_fds s)(n \<mapsto> (n, 0)), os_next := Suc n\<rparr>))"

definition no_fd :: "errno \<Rightarrow> os \<Rightarrow> nat option \<times> os" where
  "no_fd e s = (None, s\<lparr>os_errno := e\<rparr>)"

text \<open>\<open>open\<close> with \<open>O_WRONLY | O_CREAT | O_EXCL\<close>: an existing entry, a link included, is an error.\<close>

definition sys_open_excl :: "string \<Rightarrow> os \<Rightarrow> nat option \<times> os" where
  "sys_open_excl path s0 =
     (case next_fault s0 of
        (Fail e, s) \<Rightarrow> no_fd e s
      | (_, s) \<Rightarrow>
          (if os_names s path \<noteq> None then no_fd EEXIST s
           else if \<not> parent_exists s path then no_fd ENOENT s
           else new_file path s))"

text \<open>\<open>open\<close> with \<open>O_WRONLY | O_CREAT | O_TRUNC\<close>.\<close>

definition sys_open_trunc :: "string \<Rightarrow> os \<Rightarrow> nat option \<times> os" where
  "sys_open_trunc path s0 =
     (case next_fault s0 of
        (Fail e, s) \<Rightarrow> no_fd e s
      | (_, s) \<Rightarrow>
          (case resolve 41 s path of
             Inl e \<Rightarrow> no_fd e s
           | Inr p \<Rightarrow>
               (case os_names s p of
                  None \<Rightarrow> (if parent_exists s p then new_file p s else no_fd ENOENT s)
                | Some (Regular n) \<Rightarrow>
                    (Some (os_next s),
                     s\<lparr>os_files := (os_files s)(n := (os_files s n)\<lparr>inode_bytes := []\<rparr>),
                       os_fds := (os_fds s)(os_next s \<mapsto> (n, 0)), os_next := Suc (os_next s)\<rparr>)
                | Some Directory \<Rightarrow> no_fd EISDIR s
                | Some _ \<Rightarrow> no_fd EACCES s)))"

definition sys_open_read :: "string \<Rightarrow> os \<Rightarrow> nat option \<times> os" where
  "sys_open_read path s0 =
     (case next_fault s0 of
        (Fail e, s) \<Rightarrow> no_fd e s
      | (_, s) \<Rightarrow>
          (case resolve 41 s path of
             Inl e \<Rightarrow> no_fd e s
           | Inr p \<Rightarrow>
               (case os_names s p of
                  Some (Regular n) \<Rightarrow>
                    (Some (os_next s), s\<lparr>os_fds := (os_fds s)(os_next s \<mapsto> (n, 0)), os_next := Suc (os_next s)\<rparr>)
                | Some Directory \<Rightarrow> no_fd EISDIR s
                | Some _ \<Rightarrow> no_fd EACCES s
                | None \<Rightarrow> no_fd ENOENT s)))"

text \<open>Bytes written at an offset; a gap before it reads as zeros.\<close>

definition overwrite :: "byte list \<Rightarrow> nat \<Rightarrow> byte list \<Rightarrow> byte list" where
  "overwrite old offset data =
     take offset (old @ replicate (offset - length old) 0) @ data @ drop (offset + length data) old"

definition sys_write :: "nat \<Rightarrow> byte list \<Rightarrow> os \<Rightarrow> nat option \<times> os" where
  "sys_write fd data s0 =
     (case next_fault s0 of
        (Fail e, s) \<Rightarrow> no_fd e s
      | (f, s) \<Rightarrow>
          (case os_fds s fd of
             None \<Rightarrow> no_fd EBADF s
           | Some (n, offset) \<Rightarrow>
               (let count = (case f of Partial k \<Rightarrow> min k (length data) | _ \<Rightarrow> length data);
                    old = os_files s n
                in (Some count,
                    s\<lparr>os_files := (os_files s)(n := old\<lparr>inode_bytes := overwrite (inode_bytes old) offset (take count data)\<rparr>),
                      os_fds := (os_fds s)(fd \<mapsto> (n, offset + count))\<rparr>))))"

text \<open>\<open>read\<close>: zero bytes only at the end of the file.\<close>

definition sys_read :: "nat \<Rightarrow> nat \<Rightarrow> os \<Rightarrow> byte list option \<times> os" where
  "sys_read fd amount s0 =
     (case next_fault s0 of
        (Fail e, s) \<Rightarrow> (None, s\<lparr>os_errno := e\<rparr>)
      | (f, s) \<Rightarrow>
          (case os_fds s fd of
             None \<Rightarrow> (None, s\<lparr>os_errno := EBADF\<rparr>)
           | Some (n, offset) \<Rightarrow>
               (let count = (case f of Partial k \<Rightarrow> min (max 1 k) amount | _ \<Rightarrow> amount);
                    data = take count (drop offset (inode_bytes (os_files s n)))
                in (Some data, s\<lparr>os_fds := (os_fds s)(fd \<mapsto> (n, offset + length data))\<rparr>))))"

text \<open>\<open>close\<close> releases the descriptor even when it reports an error.\<close>

definition sys_close :: "nat \<Rightarrow> os \<Rightarrow> bool \<times> os" where
  "sys_close fd s0 =
     (case next_fault s0 of
        (Fail e, s) \<Rightarrow> fails e (s\<lparr>os_fds := (os_fds s)(fd := None)\<rparr>)
      | (_, s) \<Rightarrow>
          (if os_fds s fd = None then fails EBADF s
           else (True, s\<lparr>os_fds := (os_fds s)(fd := None)\<rparr>)))"

definition sys_fsync :: "nat \<Rightarrow> os \<Rightarrow> bool \<times> os" where
  "sys_fsync fd s0 =
     (case next_fault s0 of
        (Fail e, s) \<Rightarrow> fails e s
      | (_, s) \<Rightarrow> (if os_fds s fd = None then fails EBADF s else (True, s)))"

text \<open>\<open>posix_fallocate(fd, 0, amount)\<close> returns its error number and leaves \<open>errno\<close> alone.\<close>

definition sys_fallocate :: "nat \<Rightarrow> nat \<Rightarrow> os \<Rightarrow> errno \<times> os" where
  "sys_fallocate fd amount s0 =
     (case next_fault s0 of
        (Fail e, s) \<Rightarrow> (e, s)
      | (_, s) \<Rightarrow>
          (case os_fds s fd of
             None \<Rightarrow> (EBADF, s)
           | Some (n, _) \<Rightarrow>
               (let old = os_files s n
                in (E0, s\<lparr>os_files := (os_files s)(n := old\<lparr>inode_bytes :=
                      inode_bytes old @ replicate (amount - length (inode_bytes old)) 0\<rparr>)\<rparr>))))"

section \<open>Clocks and random bytes\<close>

text \<open>A clock shows the next reading of its script; the last one stays.  No reading is a failing clock.\<close>

definition read_seconds :: "os \<Rightarrow> u64 \<times> os" where
  "read_seconds s =
     (case os_seconds s of [] \<Rightarrow> (0, s) | [t] \<Rightarrow> (t, s) | t # ts \<Rightarrow> (t, s\<lparr>os_seconds := ts\<rparr>))"

definition read_nanos :: "os \<Rightarrow> u64 \<times> os" where
  "read_nanos s =
     (case os_nanos s of [] \<Rightarrow> (0, s) | [t] \<Rightarrow> (t, s) | t # ts \<Rightarrow> (t, s\<lparr>os_nanos := ts\<rparr>))"

text \<open>\<open>platform_secure_random\<close>: exactly \<open>amount\<close> bytes, or a failure.\<close>

definition secure_random :: "nat \<Rightarrow> os \<Rightarrow> byte list option \<times> os" where
  "secure_random amount s =
     (case os_random s of
        [] \<Rightarrow> (None, s)
      | d # ds \<Rightarrow> (case d of Some bs \<Rightarrow> if length bs = amount then Some bs else None | None \<Rightarrow> None,
                   s\<lparr>os_random := ds\<rparr>))"

section \<open>Memory, free space and directories\<close>

text \<open>\<open>malloc\<close> and \<open>calloc\<close>: any fault is a null pointer.\<close>

definition allocate :: "os \<Rightarrow> bool \<times> os" where
  "allocate s0 = (case next_fault s0 of (f, s) \<Rightarrow> (f = Proceed, s))"

text \<open>\<open>statvfs\<close>: the fragment size and the free fragments of the next answer; no answer is a failure.\<close>

definition sys_statvfs :: "os \<Rightarrow> (u64 \<times> u64) option \<times> os" where
  "sys_statvfs s = (case os_space s of [] \<Rightarrow> (None, s) | x # xs \<Rightarrow> (x, s\<lparr>os_space := xs\<rparr>))"

text \<open>\<open>opendir\<close> and the names that \<open>readdir\<close> then returns, in an order the system chooses.\<close>

definition sys_listing :: "os \<Rightarrow> string list option \<times> os" where
  "sys_listing s = (case os_listings s of [] \<Rightarrow> (None, s) | x # xs \<Rightarrow> (x, s\<lparr>os_listings := xs\<rparr>))"

section \<open>Concrete systems\<close>

text \<open>A faultless system in which only the given directories exist.\<close>

definition mounted :: "string list \<Rightarrow> os" where
  "mounted ds =
     \<lparr>os_names = (\<lambda>p. if p \<in> set ds then Some Directory else None), os_files = (\<lambda>_. \<lparr>inode_bytes = [], inode_mtime = 0\<rparr>),
      os_fds = Map.empty, os_next = 3, os_errno = E0, os_faults = [], os_seconds = [], os_nanos = [], os_random = [],
      os_space = [], os_listings = [], os_notices = []\<rparr>"

section \<open>What the calls change\<close>

text \<open>
  Two states agree on the names, on the names and the files, or on everything but \<open>errno\<close> and the
  script: the frame of the calls above.
\<close>

definition same_store :: "os \<Rightarrow> os \<Rightarrow> bool" where
  "same_store s t \<longleftrightarrow> os_names t = os_names s \<and> os_files t = os_files s \<and> os_fds t = os_fds s \<and> os_next t = os_next s"

lemma same_store_refl [simp]: "same_store s s"
  by (simp add: same_store_def)

lemma same_store_trans: "same_store s t \<Longrightarrow> same_store t u \<Longrightarrow> same_store s u"
  by (simp add: same_store_def)

lemma next_fault_store: "next_fault s = (f, t) \<Longrightarrow> same_store s t"
  by (auto simp: next_fault_def same_store_def split: list.splits)

lemma next_fault_honest: "next_fault s = (f, t) \<Longrightarrow> f \<notin> {Fail E0, Fail ENOENT, Fail EEXIST}"
  by (auto simp: next_fault_def injected_def split: list.splits if_splits)

lemma next_fault_none [simp]: "os_faults s = [] \<Longrightarrow> next_fault s = (Proceed, s)"
  by (simp add: next_fault_def)

lemma resolve_cong: "os_names t = os_names s \<Longrightarrow> resolve n t path = resolve n s path"
  by (induction n arbitrary: path) (auto split: option.splits node.splits)

lemma parent_exists_cong: "os_names t = os_names s \<Longrightarrow> parent_exists t path = parent_exists s path"
  by (simp add: parent_exists_def split: option.splits)

lemma resolve_errno: "resolve n s path = Inl e \<Longrightarrow> e = ELOOP"
  by (induction n arbitrary: path) (auto split: option.splits node.splits)

lemma resolve_absent: "0 < n \<Longrightarrow> os_names s path = None \<Longrightarrow> resolve n s path = Inr path"
  by (cases n) auto

text \<open>A name at which nothing is stored: absent, or a symbolic link that leads, over at most 40 links, to an absent name.\<close>

definition missing :: "os \<Rightarrow> string \<Rightarrow> bool" where
  "missing s path \<longleftrightarrow> (case resolve 41 s path of Inl _ \<Rightarrow> False | Inr p \<Rightarrow> os_names s p = None)"

lemma missing_absent: "os_names s path = None \<Longrightarrow> missing s path"
  by (simp add: missing_def resolve_absent)

lemma missing_present: "\<not> missing s path \<Longrightarrow> path \<in> dom (os_names s)"
  using missing_absent [of s path] by auto

lemma missing_cong: "same_store s t \<Longrightarrow> missing t path = missing s path"
  using resolve_cong [of t s 41 path] by (simp add: missing_def same_store_def cong: sum.case_cong)

lemma sys_access_store: "sys_access path s = (ok, t) \<Longrightarrow> same_store s t"
  by (auto simp: sys_access_def fails_def same_store_def dest!: next_fault_store
      split: prod.splits fault.splits sum.splits option.splits)

lemma sys_access_missing:
  assumes "sys_access path s = (False, t)" and "os_errno t = ENOENT"
  shows "missing s path"
proof -
  obtain f u where u: "next_fault s = (f, u)" by force
  from next_fault_store [OF u] have store: "same_store s u" .
  have "\<exists>p. resolve 41 u path = Inr p \<and> os_names u p = None"
    using assms next_fault_honest [OF u] resolve_errno [of 41 u path]
    by (auto simp: sys_access_def u fails_def split: fault.splits sum.splits option.splits)
  then have "missing u path" by (auto simp: missing_def)
  then show ?thesis using missing_cong [OF store] by simp
qed

lemma sys_access_faultless:
  assumes "os_faults s = []"
  shows "os_names s path = None \<Longrightarrow> sys_access path s = (False, s\<lparr>os_errno := ENOENT\<rparr>)"
    and "os_faults (snd (sys_access path s)) = []"
  using assms by (auto simp: sys_access_def fails_def resolve_absent split: sum.splits option.splits)

text \<open>The bytes that a descriptor has still to read.\<close>

definition unread :: "nat \<Rightarrow> os \<Rightarrow> nat" where
  "unread fd s = (case os_fds s fd of None \<Rightarrow> 0 | Some (n, offset) \<Rightarrow> length (inode_bytes (os_files s n)) - offset)"

lemma sys_read_unread:
  "sys_read fd n s = (Some data, t) \<Longrightarrow> data \<noteq> [] \<Longrightarrow> unread fd t < unread fd s"
  by (auto simp: sys_read_def unread_def Let_def next_fault_def split: list.splits fault.splits option.splits if_splits)

lemma sys_read_end: "sys_read fd n s = (Some data, t) \<Longrightarrow> length (os_faults t) \<le> length (os_faults s)"
  by (auto simp: sys_read_def Let_def next_fault_def split: list.splits fault.splits option.splits)

section \<open>Reading and writing files\<close>

text \<open>Two systems with the same names, in which every file but \<open>n\<close> is the same.\<close>

definition only_file :: "nat \<Rightarrow> os \<Rightarrow> os \<Rightarrow> bool" where
  "only_file n s t \<longleftrightarrow> os_names t = os_names s \<and> (\<forall>m. m \<noteq> n \<longrightarrow> os_files t m = os_files s m)"

lemma only_file_trans: "only_file n s t \<Longrightarrow> only_file n t u \<Longrightarrow> only_file n s u"
  by (simp add: only_file_def)

lemma overwrite_append: "overwrite old (length old) data = old @ data"
  by (simp add: overwrite_def)

lemma sys_write_append:
  assumes "sys_write fd data s = (r, t)" "os_fds s fd = Some (n, length (inode_bytes (os_files s n)))"
  shows "only_file n s t"
    and "r = Some count \<Longrightarrow> inode_bytes (os_files t n) = inode_bytes (os_files s n) @ take count data \<and>
      os_fds t fd = Some (n, length (inode_bytes (os_files t n))) \<and> count \<le> length data"
proof -
  obtain f u where u: "next_fault s = (f, u)" by force
  from next_fault_store [OF u] have "same_store s u" .
  with assms u show "only_file n s t"
    and "r = Some count \<Longrightarrow> inode_bytes (os_files t n) = inode_bytes (os_files s n) @ take count data \<and>
      os_fds t fd = Some (n, length (inode_bytes (os_files t n))) \<and> count \<le> length data"
    by (auto simp: sys_write_def Let_def no_fd_def same_store_def only_file_def overwrite_append split: fault.splits)
qed

text \<open>A script in which no call fails.\<close>

definition benign :: "fault list \<Rightarrow> bool" where
  "benign fs \<longleftrightarrow> (\<forall>e. Fail e \<notin> set fs)"

lemma sys_read_benign:
  assumes "benign (os_faults s)" "os_fds s fd = Some (n, offset)" "0 < amount"
  obtains data t where "sys_read fd amount s = (Some data, t)" "benign (os_faults t)" "os_files t = os_files s"
    "os_fds t fd = Some (n, offset + length data)" "data @ drop (offset + length data) (inode_bytes (os_files s n)) =
      drop offset (inode_bytes (os_files s n))" "data = [] \<longleftrightarrow> drop offset (inode_bytes (os_files s n)) = []"
proof -
  obtain f u where u: "next_fault s = (f, u)" by force
  have store: "same_store s u" and b: "benign (os_faults u)" and f: "f \<noteq> Fail e" for e
    using u assms(1) by (auto simp: next_fault_def same_store_def benign_def injected_def split: list.splits if_splits)
  define count where "count = (case f of Partial k \<Rightarrow> min (max 1 k) amount | _ \<Rightarrow> amount)"
  have count: "0 < count" using assms(3) by (simp add: count_def less_max_iff_disj split: fault.splits)
  define data where "data = take count (drop offset (inode_bytes (os_files s n)))"
  have "sys_read fd amount s = (Some data, u\<lparr>os_fds := (os_fds u)(fd \<mapsto> (n, offset + length data))\<rparr>)"
    using assms u store f by (auto simp: sys_read_def same_store_def data_def count_def Let_def split: fault.splits)
  moreover have "data @ drop (offset + length data) (inode_bytes (os_files s n)) = drop offset (inode_bytes (os_files s n))"
  proof -
    have "take k xs @ drop (length (take k xs)) xs = xs" for k and xs :: "byte list" by (cases "k \<le> length xs") simp_all
    then show ?thesis unfolding data_def by (metis add.commute drop_drop)
  qed
  moreover have "data = [] \<longleftrightarrow> drop offset (inode_bytes (os_files s n)) = []"
    using count by (simp add: data_def)
  ultimately show ?thesis
    using store b by (intro that [of data "u\<lparr>os_fds := (os_fds u)(fd \<mapsto> (n, offset + length data))\<rparr>"])
      (simp_all add: same_store_def)
qed

definition no_link :: "string \<Rightarrow> os \<Rightarrow> bool" where
  "no_link p s \<longleftrightarrow> (\<forall>target. os_names s p \<noteq> Some (Symlink target))"

lemma resolve_no_link: "no_link p s \<Longrightarrow> resolve (Suc n) s p = Inr p"
  by (auto simp: no_link_def split: option.splits node.splits)

lemma sys_write_fails:
  "sys_write d data s = (None, t) \<Longrightarrow> same_store s t \<and> os_errno t \<noteq> E0"
proof -
  assume w: "sys_write d data s = (None, t)"
  obtain f u where u: "next_fault s = (f, u)" by force
  show ?thesis
    using w next_fault_store [OF u] next_fault_honest [OF u] unfolding sys_write_def u
    by (cases f) (auto simp: no_fd_def same_store_def Let_def split: option.splits)
qed

lemma sys_read_outcome:
  assumes "sys_read fd amount s = (r, t)" "os_fds s fd = Some (n, offset)" "0 < amount"
  shows "r = None \<Longrightarrow> same_store s t"
    and "r = Some data \<Longrightarrow> os_names t = os_names s \<and> os_files t = os_files s \<and> os_fds t fd = Some (n, offset + length data) \<and>
      data @ drop (offset + length data) (inode_bytes (os_files s n)) = drop offset (inode_bytes (os_files s n)) \<and>
      (data = [] \<longleftrightarrow> drop offset (inode_bytes (os_files s n)) = [])"
proof -
  obtain f u where u: "next_fault s = (f, u)" by force
  from next_fault_store [OF u] have store: "same_store s u" .
  define count where "count = (case f of Partial k \<Rightarrow> min (max 1 k) amount | _ \<Rightarrow> amount)"
  define d where "d = take count (drop offset (inode_bytes (os_files s n)))"
  have count: "0 < count" using assms(3) by (simp add: count_def less_max_iff_disj split: fault.splits)
  have r: "(\<exists>e. f = Fail e) \<and> r = None \<and> same_store s t \<or>
      r = Some d \<and> t = u\<lparr>os_fds := (os_fds u)(fd \<mapsto> (n, offset + length d))\<rparr>"
    using assms(1,2) store unfolding sys_read_def u
    by (cases f) (auto simp: Let_def same_store_def d_def count_def)
  then show "r = None \<Longrightarrow> same_store s t" by blast
  have "take k xs @ drop (length (take k xs)) xs = xs" for k and xs :: "byte list" by (cases "k \<le> length xs") simp_all
  then have "d @ drop (offset + length d) (inode_bytes (os_files s n)) = drop offset (inode_bytes (os_files s n))"
    unfolding d_def by (metis add.commute drop_drop)
  moreover have "d = [] \<longleftrightarrow> drop offset (inode_bytes (os_files s n)) = []" using count by (simp add: d_def)
  ultimately show "r = Some data \<Longrightarrow> os_names t = os_names s \<and> os_files t = os_files s \<and>
      os_fds t fd = Some (n, offset + length data) \<and>
      data @ drop (offset + length data) (inode_bytes (os_files s n)) = drop offset (inode_bytes (os_files s n)) \<and>
      (data = [] \<longleftrightarrow> drop offset (inode_bytes (os_files s n)) = [])"
    using r store by (auto simp: same_store_def)
qed

lemma sys_close_store: "sys_close fd s = (r, t) \<Longrightarrow> os_names t = os_names s \<and> os_files t = os_files s"
  using next_fault_store [of s]
  by (auto simp: sys_close_def fails_def same_store_def split: prod.splits fault.splits if_splits)

lemma sys_rename_outcome:
  assumes "sys_rename p q s = (ok, t)" "p \<noteq> q" "os_names s p = Some (Regular n)" "os_names s q \<noteq> Some (Regular n)"
  shows "os_files t = os_files s" and "\<not> ok \<Longrightarrow> os_names t = os_names s" and "ok \<Longrightarrow> os_names t = (os_names s)(p := None, q \<mapsto> Regular n)"
proof -
  obtain f u where u: "next_fault s = (f, u)" by force
  from next_fault_store [OF u] have store: "os_names u = os_names s" "os_files u = os_files s" by (simp_all add: same_store_def)
  have "os_files t = os_files s \<and> os_names t = (if ok then (os_names s)(p := None, q \<mapsto> Regular n) else os_names s)"
    using assms store unfolding sys_rename_def u
    by (cases f) (auto simp: fails_def split: if_splits)
  then show "os_files t = os_files s" and "\<not> ok \<Longrightarrow> os_names t = os_names s"
    and "ok \<Longrightarrow> os_names t = (os_names s)(p := None, q \<mapsto> Regular n)" by simp_all
qed

lemma sys_lstat_outcome:
  assumes "sys_lstat path s = (r, t)"
  shows "same_store s t" and "r = None \<Longrightarrow> os_errno t = ENOENT \<Longrightarrow> os_names s path = None"
    and "r = Some n \<Longrightarrow> os_names s path = Some n"
proof -
  obtain f u where u: "next_fault s = (f, u)" by force
  note store = next_fault_store [OF u] and honest = next_fault_honest [OF u]
  have "same_store s t \<and> (r = None \<longrightarrow> os_errno t = ENOENT \<longrightarrow> os_names s path = None) \<and>
      (\<forall>n. r = Some n \<longrightarrow> os_names s path = Some n)"
    using assms store honest unfolding sys_lstat_def u
    by (cases f) (auto simp: same_store_def split: option.splits)
  then show "same_store s t" and "r = None \<Longrightarrow> os_errno t = ENOENT \<Longrightarrow> os_names s path = None"
    and "r = Some n \<Longrightarrow> os_names s path = Some n" by blast+
qed

text \<open>Nothing but the temporary name and the inode \<open>n\<close> differs.\<close>

definition only_temporary :: "string \<Rightarrow> nat \<Rightarrow> os \<Rightarrow> os \<Rightarrow> bool" where
  "only_temporary p n s t \<longleftrightarrow> (\<forall>q. q \<noteq> p \<longrightarrow> os_names t q = os_names s q) \<and> (\<forall>m. m \<noteq> n \<longrightarrow> os_files t m = os_files s m)"

lemma only_temporary_trans: "only_temporary p n s t \<Longrightarrow> only_temporary p n t u \<Longrightarrow> only_temporary p n s u"
  by (simp add: only_temporary_def)

lemma only_temporary_errno [simp]: "only_temporary p n s (t\<lparr>os_errno := e\<rparr>) = only_temporary p n s t"
  by (simp add: only_temporary_def)

lemma only_file_temporary: "only_file n s t \<Longrightarrow> only_temporary p n s t"
  by (simp add: only_file_def only_temporary_def)

text \<open>The inode that the temporary name gets: the one it has, or the next new one.\<close>

definition temporary_inode :: "string \<Rightarrow> os \<Rightarrow> nat" where
  "temporary_inode p s = (case os_names s p of Some (Regular n) \<Rightarrow> n | _ \<Rightarrow> os_next s)"

lemma sys_open_trunc_temporary:
  assumes "sys_open_trunc p s = (r, t)" "no_link p s"
  shows "only_temporary p (temporary_inode p s) s t"
    and "r = Some fd \<Longrightarrow> os_names t p = Some (Regular (temporary_inode p s)) \<and>
      inode_bytes (os_files t (temporary_inode p s)) = [] \<and> os_fds t fd = Some (temporary_inode p s, 0)"
proof -
  obtain f u where u: "next_fault s = (f, u)" by force
  from next_fault_store [OF u] have store: "same_store s u" .
  then have "no_link p u" using assms(2) by (simp add: no_link_def same_store_def)
  then have p: "resolve 41 u p = Inr p" using resolve_no_link [of p u 40] by simp
  show "only_temporary p (temporary_inode p s) s t"
    and "r = Some fd \<Longrightarrow> os_names t p = Some (Regular (temporary_inode p s)) \<and>
      inode_bytes (os_files t (temporary_inode p s)) = [] \<and> os_fds t fd = Some (temporary_inode p s, 0)"
    using assms(1) store unfolding sys_open_trunc_def u
    by (auto simp: p no_fd_def new_file_def Let_def same_store_def only_temporary_def temporary_inode_def
        split: fault.splits option.splits node.splits if_splits)
qed

lemma sys_unlink_temporary: "sys_unlink p s = (r, t) \<Longrightarrow> only_temporary p n s t"
  using next_fault_store [of s]
  by (auto simp: sys_unlink_def fails_def only_temporary_def same_store_def
      split: prod.splits fault.splits option.splits node.splits)

end
