(* ===== verification/SafePath.thy ===== *)
theory SafePath
  imports Utf8 FileSys
begin

text \<open>
  \<^verbatim>\<open>src/src/safe_path.c\<close>: which file names are accepted, how a name is joined to a directory, how a free
  name is chosen when the requested one is taken, and how a directory is created.  A C string is a
  list of characters without NUL; the bounded output buffers are bounds on lengths.
\<close>

section \<open>The code\<close>

definition SAFE_PATH_NAME_BYTES :: nat where
  "SAFE_PATH_NAME_BYTES = 255"

definition SAFE_PATH_FULL_BYTES :: nat where
  "SAFE_PATH_FULL_BYTES = 1400"

definition name_char :: "char \<Rightarrow> bool" where
  "name_char c \<longleftrightarrow> \<not> (code c < 0x20 \<or> code c = 0x7f \<or> c = CHR ''/'' \<or> code c = 92 \<or> c = CHR ''%'')"

definition validate_filename :: "string \<Rightarrow> bool" where
  "validate_filename name \<longleftrightarrow>
     (if length name = 0 \<or> SAFE_PATH_NAME_BYTES < length name \<or> name = ''.'' \<or> name = ''..'' \<or>
         \<not> valid_utf8 (map uchar name)
      then False else list_all name_char name)"

text \<open>\<open>snprintf\<close> of \<open>%s/%s\<close> into a buffer of the given size; truncation is an error.\<close>

definition safe_path_join :: "string \<Rightarrow> string \<Rightarrow> nat \<Rightarrow> string option" where
  "safe_path_join directory name output_size =
     (if \<not> validate_filename name then None
      else let output = directory @ ''/'' @ name
           in if length output < output_size then Some output else None)"

definition is_continuation :: "char \<Rightarrow> bool" where
  "is_continuation c \<longleftrightarrow> uchar c AND 0xc0 = 0x80"

text \<open>The loop that moves the cut to the first byte of a character.\<close>

fun shrink :: "string \<Rightarrow> nat \<Rightarrow> nat \<Rightarrow> nat" where
  "shrink requested stem_size 0 = 0"
| "shrink requested stem_size (Suc k) =
     (if Suc k < stem_size \<and> is_continuation (requested ! Suc k) then shrink requested stem_size k else Suc k)"

definition stem_size :: "string \<Rightarrow> nat" where
  "stem_size requested =
     (case split_at_last CHR ''.'' requested of
        None \<Rightarrow> length requested
      | Some (stem, _) \<Rightarrow> (if stem = [] then length requested else length stem))"

definition suffix_text :: "nat \<Rightarrow> string" where
  "suffix_text number = '' ('' @ dec_string number @ '')''"

text \<open>One candidate: the stem cut to fit, the number in parentheses, the extension.\<close>

definition numbered_name :: "string \<Rightarrow> nat \<Rightarrow> string option" where
  "numbered_name requested number =
     (let stem = stem_size requested;
          extension = drop stem requested;
          count = length (suffix_text number)
      in if SAFE_PATH_NAME_BYTES \<le> count + length extension then None
         else let keep = min (SAFE_PATH_NAME_BYTES - count - length extension) stem
              in Some (take (shrink requested stem keep) requested @ suffix_text number @ extension))"

text \<open>The loop over the numbers from \<open>number\<close>, with \<open>left\<close> iterations to go.\<close>

fun try_suffix :: "string \<Rightarrow> string \<Rightarrow> nat \<Rightarrow> nat \<Rightarrow> os \<Rightarrow> string option \<times> os" where
  "try_suffix directory requested number 0 s = (None, s)"
| "try_suffix directory requested number (Suc left) s =
     (case numbered_name requested number of
        None \<Rightarrow> (None, s)
      | Some output \<Rightarrow>
          (if \<not> validate_filename output then (None, s)
           else case safe_path_join directory output SAFE_PATH_FULL_BYTES of
               None \<Rightarrow> (None, s)
             | Some path \<Rightarrow>
                 (case sys_access path s of
                    (ok, s) \<Rightarrow> (if \<not> ok \<and> os_errno s = ENOENT then (Some output, s)
                               else try_suffix directory requested (number + 1) left s))))"

definition safe_path_unique_name :: "string \<Rightarrow> string \<Rightarrow> os \<Rightarrow> string option \<times> os" where
  "safe_path_unique_name directory requested s =
     (if \<not> validate_filename requested then (None, s)
      else case safe_path_join directory requested SAFE_PATH_FULL_BYTES of
          None \<Rightarrow> (None, s)
        | Some path \<Rightarrow>
            (case sys_access path s of
               (ok, s) \<Rightarrow> (if \<not> ok \<and> os_errno s = ENOENT then (Some requested, s)
                          else try_suffix directory requested 1 9999 s)))"

text \<open>
  The walk over the path: at every \<open>/\<close> and at the end the text so far is made a directory.  \<open>done_part\<close>
  is the text before the cursor.
\<close>

definition make_directory :: "string \<Rightarrow> os \<Rightarrow> bool \<times> os" where
  "make_directory path s =
     (case sys_mkdir path s of
        (made, s) \<Rightarrow>
          (if \<not> made \<and> os_errno s \<noteq> EEXIST then (False, s)
           else case sys_lstat path s of (status, s) \<Rightarrow> (status = Some Directory, s)))"

fun walk_directories :: "string \<Rightarrow> string \<Rightarrow> os \<Rightarrow> bool \<times> os" where
  "walk_directories done_part [] s = make_directory done_part s"
| "walk_directories done_part (c # cs) s =
     (if c = CHR ''/''
      then (case make_directory done_part s of
              (ok, s) \<Rightarrow> (if ok then walk_directories (done_part @ [c]) cs s else (False, s)))
      else walk_directories (done_part @ [c]) cs s)"

definition safe_path_ensure_directory :: "string \<Rightarrow> os \<Rightarrow> bool \<times> os" where
  "safe_path_ensure_directory directory s =
     (if directory = [] \<or> SAFE_PATH_FULL_BYTES \<le> length directory then (False, s)
      else if hd directory = CHR ''/'' then walk_directories (take 1 directory) (drop 1 directory) s
      else walk_directories [] directory s)"

section \<open>Accepted names\<close>

lemma validate_filename_iff:
  "validate_filename name \<longleftrightarrow> name \<noteq> [] \<and> length name \<le> 255 \<and> name \<noteq> ''.'' \<and> name \<noteq> ''..'' \<and>
     valid_utf8 (map uchar name) \<and> list_all name_char name"
  unfolding validate_filename_def SAFE_PATH_NAME_BYTES_def by (metis length_0_conv not_le)

lemma name_char_slash [simp]: "\<not> name_char CHR ''/''" "\<not> name_char NUL"
  by (simp_all add: name_char_def)

lemma name_chars_absent: "list_all name_char name \<Longrightarrow> CHR ''/'' \<notin> set name \<and> NUL \<notin> set name"
  using name_char_slash unfolding list_all_iff by blast

lemma validate_filenameD:
  assumes "validate_filename name"
  shows "name \<noteq> []" "length name \<le> 255" "name \<noteq> ''.''" "name \<noteq> ''..''" "valid_utf8 (map uchar name)"
    "list_all name_char name" "CHR ''/'' \<notin> set name" "NUL \<notin> set name"
  using assms name_chars_absent [of name]
  unfolding validate_filename_iff by blast+

lemma safe_path_join_Some:
  "safe_path_join directory name n = Some path \<longleftrightarrow>
   validate_filename name \<and> path = directory @ ''/'' @ name \<and> length directory + length name + 1 < n"
  by (auto simp: safe_path_join_def Let_def)

text \<open>A joined path names an entry of the directory itself: its last component is the whole file
  name, which is neither empty nor a dot segment, and the path fits the buffer.\<close>
theorem safe_path_join_contained:
  "safe_path_join directory name n = Some path \<Longrightarrow>
   split_at_last CHR ''/'' path = Some (directory, name) \<and> name \<notin> {[], ''.'', ''..''} \<and> length path < n"
  using validate_filenameD [of name] by (simp add: safe_path_join_Some split_at_last_append)

theorem safe_path_join_contained_witness:
  "split_at_last CHR ''/'' ''/data/a.txt'' = Some (''/data'', ''a.txt'') \<and>
   ''a.txt'' \<notin> {[], ''.'', ''..''} \<and> length ''/data/a.txt'' < 1400"
  by (rule safe_path_join_contained)
    (simp add: safe_path_join_Some validate_filename_def SAFE_PATH_NAME_BYTES_def name_char_def word_nat valid_utf8_ascii uchar_code)

section \<open>Numbered names\<close>

lemma shrink_le: "shrink r st k \<le> k"
  by (induction r st k rule: shrink.induct) auto

lemma shrink_stops: "shrink r st k = 0 \<or> st \<le> shrink r st k \<or> \<not> is_continuation (r ! shrink r st k)"
  by (induction r st k rule: shrink.induct) auto

lemma stem_split:
  "stem_size r \<le> length r" "r \<noteq> [] \<Longrightarrow> 0 < stem_size r"
  "stem_size r = length r \<or> r ! stem_size r = CHR ''.''"
  by (auto simp: stem_size_def split: option.splits dest!: split_at_last_Some)

lemma dot_not_continuation [simp]: "\<not> is_continuation CHR ''.''"
  by (simp add: is_continuation_def)

lemma continuation_uchar: "continuation (uchar c) = is_continuation c"
  by (simp add: continuation_def is_continuation_def)

lemma valid_take:
  assumes "valid_utf8 (map uchar r)" and "n = 0 \<or> length r \<le> n \<or> \<not> is_continuation (r ! n)"
  shows "valid_utf8 (map uchar (take n r))"
proof (cases "n = 0")
  case False
  show ?thesis
  proof (rule valid_utf8_cut [where b = "map uchar (drop n r)"])
    show "valid_utf8 (map uchar (take n r) @ map uchar (drop n r))"
      using assms(1) by (metis append_take_drop_id map_append)
    show "map uchar (drop n r) = [] \<or> \<not> continuation (hd (map uchar (drop n r)))"
      using assms(2) False by (auto simp: hd_map hd_drop_conv_nth continuation_uchar)
  qed
qed simp

lemma suffix_text_facts:
  "suffix_text n \<noteq> []" "list_all name_char (suffix_text n)" "valid_utf8 (map uchar (suffix_text n @ s)) = valid_utf8 (map uchar s)"
  "\<not> is_continuation (hd (suffix_text n))"
proof -
  have d: "\<And>c. c \<in> set (dec_string n) \<Longrightarrow> 48 \<le> code c \<and> code c \<le> 57"
    using dec_string_digits [of _ n] by (auto simp: isdigit_def)
  have digits: "valid_utf8 (map uchar (ds @ t)) = valid_utf8 (map uchar t)"
    if "\<And>c. c \<in> set ds \<Longrightarrow> code c < 128" for ds t :: string
    using that by (induction ds) (auto simp: valid_utf8_ascii uchar_code)
  show "suffix_text n \<noteq> []" and "\<not> is_continuation (hd (suffix_text n))"
    by (simp_all add: suffix_text_def is_continuation_def)
  show "list_all name_char (suffix_text n)"
    using d by (fastforce simp: suffix_text_def name_char_def list_all_iff)
  show "valid_utf8 (map uchar (suffix_text n @ s)) = valid_utf8 (map uchar s)"
  proof (rule digits)
    fix c assume "c \<in> set (suffix_text n)"
    then show "code c < 128" using d [of c] by (auto simp: suffix_text_def)
  qed
qed

text \<open>Every candidate is an accepted name: the check inside the loop never fires.\<close>

lemma numbered_name_valid:
  assumes "validate_filename r" and "numbered_name r n = Some cand"
  shows "validate_filename cand"
proof -
  define st ext where "st = stem_size r" and "ext = drop st r"
  define sfx where "sfx = suffix_text n"
  define k where "k = shrink r st (min (SAFE_PATH_NAME_BYTES - length sfx - length ext) st)"
  note r = validate_filenameD [OF assms(1)]
  from assms(2) have out: "cand = take k r @ sfx @ ext" and fits: "length sfx + length ext < 255"
    by (auto simp: numbered_name_def Let_def st_def ext_def sfx_def k_def SAFE_PATH_NAME_BYTES_def split: if_splits)
  have k: "k \<le> 255 - length sfx - length ext" "k \<le> st"
    using shrink_le [of r st "min (SAFE_PATH_NAME_BYTES - length sfx - length ext) st"]
    by (auto simp: k_def SAFE_PATH_NAME_BYTES_def)
  have cut: "i = 0 \<or> length r \<le> i \<or> \<not> is_continuation (r ! i)" if "i = k \<or> i = st" for i
    using that shrink_stops [of r st] stem_split(3) [of r] k(2) unfolding k_def st_def
    by (metis dot_not_continuation le_antisym order_refl)
  have "valid_utf8 (map uchar (take k r))" "valid_utf8 (map uchar (take st r))"
    using r(5) cut by (auto intro: valid_take)
  moreover have "valid_utf8 (map uchar (take st r) @ map uchar ext)"
    using r(5) by (metis append_take_drop_id ext_def map_append)
  ultimately have "valid_utf8 (map uchar cand)"
    unfolding out using suffix_text_facts(3) [of n ext] by (simp add: valid_utf8_append sfx_def)
  moreover have "list_all name_char cand"
    using r(6) suffix_text_facts(2) [of n]
    by (auto simp: out sfx_def ext_def list_all_iff dest: in_set_takeD in_set_dropD)
  moreover have "CHR ''('' \<in> set cand" by (simp add: out sfx_def suffix_text_def)
  moreover have "length cand \<le> 255" using k fits by (simp add: out)
  ultimately show ?thesis unfolding validate_filename_iff by auto
qed

section \<open>Choosing a free name\<close>

lemma numbered_name_shape:
  assumes "numbered_name r n = Some cand"
  obtains kept where "cand = kept @ suffix_text n @ drop (stem_size r) r"
  using assms by (auto simp: numbered_name_def Let_def split: if_splits)

lemma suffix_text_inject: "a @ suffix_text m = b @ suffix_text n \<Longrightarrow> m = n"
proof -
  have digits: "takeWhile isdigit (tl (rev (c @ suffix_text k))) = rev (dec_string k)" for c k
  proof -
    have "tl (rev (c @ suffix_text k)) = rev (dec_string k) @ CHR ''('' # CHR '' '' # rev c"
      by (simp add: suffix_text_def)
    moreover have "takeWhile isdigit (rev (dec_string k) @ CHR ''('' # CHR '' '' # rev c) =
        rev (dec_string k) @ takeWhile isdigit (CHR ''('' # CHR '' '' # rev c)"
      by (rule takeWhile_append2) (auto dest: dec_string_digits)
    ultimately show ?thesis by (simp add: isdigit_def)
  qed
  assume "a @ suffix_text m = b @ suffix_text n"
  then have "rev (dec_string m) = rev (dec_string n)" using digits by metis
  then show "m = n" by (simp add: dec_string_inject)
qed

lemma numbered_name_inject:
  assumes "numbered_name r m = Some cand" and "numbered_name r n = Some cand"
  shows "m = n"
proof -
  obtain a b where "cand = a @ suffix_text m @ drop (stem_size r) r" "cand = b @ suffix_text n @ drop (stem_size r) r"
    using assms numbered_name_shape by metis
  then have "(a @ suffix_text m) @ drop (stem_size r) r = (b @ suffix_text n) @ drop (stem_size r) r" by simp
  then show ?thesis using suffix_text_inject [of a m b n] by simp
qed

lemma try_suffix_store: "try_suffix d r n left s = (found, t) \<Longrightarrow> same_store s t"
proof (induction d r n left s rule: try_suffix.induct)
  case (2 d r n left s)
  show ?case
  proof (cases "numbered_name r n")
    case (Some cand)
    obtain ok u where u: "sys_access (d @ ''/'' @ cand) s = (ok, u)" by force
    from sys_access_store [OF u] 2 Some u show ?thesis
      by (auto simp: safe_path_join_Some split: if_splits option.splits intro: same_store_trans)
  qed (use 2 in simp)
qed simp

lemma try_suffix_step:
  assumes "numbered_name r n = Some cand" and "validate_filename cand" and "length d + length cand + 1 < SAFE_PATH_FULL_BYTES"
  shows "try_suffix d r n (Suc left) s =
    (case sys_access (d @ ''/'' @ cand) s of
       (ok, s) \<Rightarrow> (if \<not> ok \<and> os_errno s = ENOENT then (Some cand, s) else try_suffix d r (n + 1) left s))"
proof -
  have "safe_path_join d cand SAFE_PATH_FULL_BYTES = Some (d @ ''/'' @ cand)"
    using assms(2,3) by (simp add: safe_path_join_Some)
  with assms show ?thesis by simp
qed

lemma try_suffix_found:
  assumes "try_suffix d r n left s = (Some name, t)"
  shows "\<exists>m. numbered_name r m = Some name \<and> validate_filename name \<and>
    length d + length name + 1 < SAFE_PATH_FULL_BYTES \<and> missing t (d @ ''/'' @ name)"
  using assms
proof (induction d r n left s rule: try_suffix.induct)
  case (2 d r n left s)
  then obtain cand where o: "numbered_name r n = Some cand" "validate_filename cand"
    "length d + length cand + 1 < SAFE_PATH_FULL_BYTES"
    by (auto simp: safe_path_join_def Let_def split: option.splits if_splits)
  obtain ok u where u: "sys_access (d @ ''/'' @ cand) s = (ok, u)" by force
  note step = try_suffix_step [OF o, of left s, unfolded u prod.case]
  show ?case
  proof (cases "\<not> ok \<and> os_errno u = ENOENT")
    case True
    with "2.prems" step have "cand = name" "t = u" by simp_all
    moreover have "missing s (d @ ''/'' @ cand)" using sys_access_missing [of "d @ ''/'' @ cand" s u] u True by simp
    ultimately show ?thesis using o missing_cong [OF sys_access_store [OF u]] by blast
  next
    case False
    with "2.prems" step have "try_suffix d r (n + 1) left u = (Some name, t)" by (simp del: try_suffix.simps)
    with "2.IH" [OF o(1) _ _ u [symmetric] False] o show ?thesis by (simp add: safe_path_join_Some)
  qed
qed simp

lemma unique_name_step:
  assumes "validate_filename r" and "length d + length r + 1 < SAFE_PATH_FULL_BYTES"
  shows "safe_path_unique_name d r s =
    (case sys_access (d @ ''/'' @ r) s of
       (ok, s) \<Rightarrow> (if \<not> ok \<and> os_errno s = ENOENT then (Some r, s) else try_suffix d r 1 9999 s))"
proof -
  have "safe_path_join d r SAFE_PATH_FULL_BYTES = Some (d @ ''/'' @ r)"
    using assms by (simp add: safe_path_join_Some)
  with assms show ?thesis by (simp only: safe_path_unique_name_def option.case not_True_eq_False if_False)
qed

lemma unique_name_requires:
  "safe_path_unique_name d r s = (Some name, t) \<Longrightarrow>
   validate_filename r \<and> length d + length r + 1 < SAFE_PATH_FULL_BYTES"
  by (auto simp: safe_path_unique_name_def safe_path_join_def Let_def split: if_splits)

lemma unique_name_free:
  assumes "safe_path_unique_name d r s = (Some name, t)"
  shows "validate_filename name \<and> length (d @ ''/'' @ name) < 1400 \<and> missing t (d @ ''/'' @ name) \<and> same_store s t"
proof -
  note r = unique_name_requires [OF assms]
  obtain ok u where u: "sys_access (d @ ''/'' @ r) s = (ok, u)" by force
  note store = sys_access_store [OF u]
  note step = assms [unfolded unique_name_step [OF conjunct1 [OF r] conjunct2 [OF r]] u prod.case]
  show ?thesis
  proof (cases "\<not> ok \<and> os_errno u = ENOENT")
    case True
    with step have "name = r" "t = u" by simp_all
    moreover have "missing s (d @ ''/'' @ r)" using sys_access_missing [of "d @ ''/'' @ r" s u] u True by simp
    ultimately show ?thesis using r store missing_cong [OF store] by (simp add: SAFE_PATH_FULL_BYTES_def)
  next
    case False
    with step have w: "try_suffix d r 1 9999 u = (Some name, t)" by (simp only: if_False)
    from try_suffix_found [OF w] try_suffix_store [OF w] store show ?thesis
      by (auto simp: SAFE_PATH_FULL_BYTES_def intro: same_store_trans)
  qed
qed

text \<open>C32: A name chosen for an upload is an accepted file name whose path fits the buffer and at which
  nothing is stored (the name is absent, or a symbolic link that leads to an absent name), and the search leaves the file
  system as it was.\<close>
theorem safe_path_unique_name_free:
  assumes "safe_path_unique_name d r s = (Some name, t)"
  shows "validate_filename name \<and> length (d @ ''/'' @ name) < 1400 \<and> missing t (d @ ''/'' @ name) \<and> same_store s t"
  by (rule unique_name_free [OF assms])

text \<open>With a faultless system the result is the requested name or the first free candidate.\<close>

definition candidates :: "string \<Rightarrow> nat \<Rightarrow> nat \<Rightarrow> string list" where
  "candidates r n left = map (\<lambda>n. the (numbered_name r n)) [n..<n + left]"

lemma sys_access_missing_iff:
  assumes "os_faults s = []" and "sys_access path s = (ok, t)"
  shows "(\<not> ok \<and> os_errno t = ENOENT) = missing s path" and "os_faults t = []"
proof -
  have "(\<not> ok \<and> os_errno t = ENOENT) = missing s path \<and> os_faults t = []"
  proof (cases "resolve 41 s path")
    case (Inl e)
    with resolve_errno [OF Inl] assms show ?thesis by (auto simp: sys_access_def missing_def fails_def)
  next
    case (Inr p)
    with assms show ?thesis by (cases "os_names s p") (auto simp: sys_access_def missing_def fails_def)
  qed
  then show "(\<not> ok \<and> os_errno t = ENOENT) = missing s path" and "os_faults t = []" by simp_all
qed

lemma length_suffix_text: "n < 10000 \<Longrightarrow> length (suffix_text n) \<le> 7"
proof -
  have "length (dec_string m) \<le> 1" if "m < 10" for m using that by (simp add: dec_string.simps)
  moreover have "length (dec_string m) = length (dec_string (m div 10)) + 1" if "10 \<le> m" for m
    using that by (subst dec_string.simps) simp
  ultimately have step: "length (dec_string m) \<le> Suc k" if "m < 10 * b" "\<And>i. i < b \<Longrightarrow> length (dec_string i) \<le> k" "1 \<le> k" for m b k
    using that by (cases "m < 10") (fastforce simp: less_mult_imp_div_less)+
  have 1: "length (dec_string i) \<le> 1" if "i < 10" for i using that by (simp add: dec_string.simps)
  have 2: "length (dec_string i) \<le> 2" if "i < 100" for i using step [of i 10 1] 1 that by simp
  have 3: "length (dec_string i) \<le> 3" if "i < 1000" for i using step [of i 100 2] 2 that by simp
  assume "n < 10000"
  then have "length (dec_string n) \<le> 4" using step [of n 1000 3] 3 by simp
  then show ?thesis by (simp add: suffix_text_def)
qed

lemma numbered_name_total:
  assumes "length r \<le> stem_size r + 247" and "n < 10000"
  shows "numbered_name r n = Some (the (numbered_name r n))"
  using assms length_suffix_text [of n] by (simp add: numbered_name_def Let_def SAFE_PATH_NAME_BYTES_def)

lemma try_suffix_find:
  assumes "os_faults s = []" and "validate_filename r" and "length r \<le> stem_size r + 247"
    and "length d \<le> 1143" and "n + left \<le> 10000"
  shows "fst (try_suffix d r n left s) = find (\<lambda>c. missing s (d @ ''/'' @ c)) (candidates r n left)"
  using assms
proof (induction left arbitrary: n s)
  case 0
  then show ?case by (simp add: candidates_def)
next
  case (Suc left)
  define c where "c = the (numbered_name r n)"
  have c: "numbered_name r n = Some c"
    unfolding c_def by (rule numbered_name_total) (use Suc.prems in simp_all)
  note v = numbered_name_valid [OF Suc.prems(2) c]
  from v have "length d + length c + 1 < SAFE_PATH_FULL_BYTES"
    using Suc.prems validate_filenameD(2) [OF v] by (simp add: SAFE_PATH_FULL_BYTES_def)
  note step = try_suffix_step [OF c v this, of left s]
  obtain ok u where u: "sys_access (d @ ''/'' @ c) s = (ok, u)" by force
  note m = sys_access_missing_iff [OF Suc.prems(1) u]
  have cs: "candidates r n (Suc left) = c # candidates r (n + 1) left"
    by (simp add: candidates_def c_def upt_conv_Cons del: upt_Suc)
  show ?case
  proof (cases "missing s (d @ ''/'' @ c)")
    case True
    then show ?thesis unfolding step u cs using m by simp
  next
    case False
    have "missing u p = missing s p" for p by (rule missing_cong [OF sys_access_store [OF u]])
    with False Suc.IH [of u "n + 1"] Suc.prems m(2) show ?thesis
      unfolding step u cs using m(1) by auto
  qed
qed

text \<open>With a faultless system, a directory of at most 1143 bytes and an extension of at most 247, the
  name chosen is the requested one if nothing is stored there, and otherwise the first of the 9999
  numbered candidates at which nothing is stored.\<close>
theorem safe_path_unique_name_first:
  assumes "os_faults s = []" and "validate_filename r" and "length r \<le> stem_size r + 247" and "length d \<le> 1143"
  shows "fst (safe_path_unique_name d r s) =
    find (\<lambda>name. missing s (d @ ''/'' @ name)) (r # candidates r 1 9999)"
proof -
  have "length d + length r + 1 < SAFE_PATH_FULL_BYTES"
    using assms validate_filenameD(2) [OF assms(2)] by (simp add: SAFE_PATH_FULL_BYTES_def)
  note step = unique_name_step [OF assms(2) this]
  obtain ok u where u: "sys_access (d @ ''/'' @ r) s = (ok, u)" by force
  note m = sys_access_missing_iff [OF assms(1) u]
  have eq: "missing u p = missing s p" for p by (rule missing_cong [OF sys_access_store [OF u]])
  have "fst (try_suffix d r 1 9999 u) = find (\<lambda>c. missing s (d @ ''/'' @ c)) (candidates r 1 9999)"
    using try_suffix_find [OF m(2) assms(2-4), of 1 9999] by (simp add: eq)
  then show ?thesis unfolding step u using m(1) by auto
qed

text \<open>The search ends with a name unless at least 9999 entries lie in the directory.\<close>
theorem safe_path_unique_name_total:
  assumes "os_faults s = []" and "validate_filename r" and "length r \<le> stem_size r + 247" and "length d \<le> 1143"
    and "finite (dom (os_names s))" and "card {path \<in> dom (os_names s). prefix (d @ ''/'') path} < 9999"
  shows "\<exists>name. fst (safe_path_unique_name d r s) = Some name"
proof (rule ccontr)
  let ?path = "\<lambda>c. d @ ''/'' @ c"
  define X where "X = (\<lambda>n. ?path (the (numbered_name r n))) ` {1..<10000}"
  assume "\<nexists>name. fst (safe_path_unique_name d r s) = Some name"
  then have "find (\<lambda>name. missing s (?path name)) (r # candidates r 1 9999) = None"
    using safe_path_unique_name_first [OF assms(1-4)] by auto
  then have "\<forall>n \<in> {1..<10000}. \<not> missing s (?path (the (numbered_name r n)))"
    by (auto simp: find_None_iff candidates_def split: if_splits)
  then have "X \<subseteq> {path \<in> dom (os_names s). prefix (d @ ''/'') path}"
    using missing_present [of s] by (auto simp: X_def simp del: append.simps)
  with assms(5) have "card X \<le> card {path \<in> dom (os_names s). prefix (d @ ''/'') path}"
    by (intro card_mono) auto
  moreover have "inj_on (\<lambda>n. ?path (the (numbered_name r n))) {1..<10000}"
  proof (rule inj_onI)
    fix m n :: nat
    assume mn: "m \<in> {1..<10000}" "n \<in> {1..<10000}" and eq: "?path (the (numbered_name r m)) = ?path (the (numbered_name r n))"
    then have "numbered_name r m = numbered_name r n"
      using numbered_name_total [OF assms(3)] by (metis append_same_eq atLeastLessThan_iff same_append_eq)
    then show "m = n" using numbered_name_inject numbered_name_total [OF assms(3)] mn(2)
      by (metis atLeastLessThan_iff)
  qed
  then have "card X = 9999" by (simp add: X_def card_image)
  ultimately show False using assms(6) by simp
qed

section \<open>Creating a directory\<close>

definition slash_prefix :: "string \<Rightarrow> string \<Rightarrow> bool" where
  "slash_prefix p path \<longleftrightarrow> p = path \<or> (\<exists>rest. path = p @ CHR ''/'' # rest)"

text \<open>What a directory-creating call may change: names that were absent become directories.\<close>

definition only_directories_added :: "os \<Rightarrow> os \<Rightarrow> bool" where
  "only_directories_added s t \<longleftrightarrow>
     os_files t = os_files s \<and> os_fds t = os_fds s \<and> os_next t = os_next s \<and>
     (\<forall>p. os_names t p = os_names s p \<or> (os_names s p = None \<and> os_names t p = Some Directory))"

lemma only_directories_added_refl [simp]: "only_directories_added s s"
  by (simp add: only_directories_added_def)

lemma only_directories_added_trans:
  "only_directories_added s t \<Longrightarrow> only_directories_added t u \<Longrightarrow> only_directories_added s u"
  unfolding only_directories_added_def by metis

lemma only_directories_added_keeps:
  "only_directories_added s t \<Longrightarrow> os_names s p = Some n \<Longrightarrow> os_names t p = Some n"
  unfolding only_directories_added_def by (metis option.discI)

lemma sys_lstat_store: "sys_lstat p s = (n, t) \<Longrightarrow> same_store s t \<and> (n \<noteq> None \<longrightarrow> os_names t p = n)"
  by (auto simp: sys_lstat_def same_store_def dest!: next_fault_store
      split: prod.splits fault.splits option.splits)

lemma sys_mkdir_effect: "sys_mkdir p s = (ok, t) \<Longrightarrow> only_directories_added s t"
  by (auto simp: sys_mkdir_def fails_def only_directories_added_def same_store_def dest!: next_fault_store
      split: prod.splits fault.splits if_splits)

lemma make_directory_effect:
  assumes "make_directory p s = (ok, t)"
  shows "only_directories_added s t" and "ok \<Longrightarrow> os_names t p = Some Directory"
proof -
  obtain made u where u: "sys_mkdir p s = (made, u)" by force
  obtain n v where v: "sys_lstat p u = (n, v)" by force
  from sys_mkdir_effect [OF u] sys_lstat_store [OF v]
  have "only_directories_added s u" "only_directories_added s v"
    by (auto simp: same_store_def only_directories_added_def)
  with assms u v show "only_directories_added s t"
    by (auto simp: make_directory_def split: if_splits)
  show "ok \<Longrightarrow> os_names t p = Some Directory"
    using assms u v sys_lstat_store [OF v] by (auto simp: make_directory_def split: if_splits)
qed

lemma walk_directories_effect:
  assumes "walk_directories before rest s = (ok, t)"
  shows "only_directories_added s t"
    and "ok \<Longrightarrow> slash_prefix p (before @ rest) \<Longrightarrow> length before \<le> length p \<Longrightarrow> os_names t p = Some Directory"
  using assms
proof (induction before rest s rule: walk_directories.induct)
  case (1 before s)
  { case 1 then show ?case by (auto dest: make_directory_effect) next
    case 2 then show ?case by (auto simp: slash_prefix_def dest: make_directory_effect) }
next
  case (2 before c cs s)
  obtain ok' u where u: "make_directory before s = (ok', u)" by force
  { case 1
    with 2 u make_directory_effect [OF u] show ?case
      by (auto split: if_splits intro: only_directories_added_trans) }
  { case prems: 2
    show ?case
    proof (cases "c = CHR ''/''")
      case True
      with prems u have ok': "ok'" and w: "walk_directories (before @ [c]) cs u = (ok, t)"
        by (auto split: if_splits)
      show ?thesis
      proof (cases "length before < length p")
        case True
        with "2.IH"(2) [OF \<open>c = _\<close> u [symmetric] ok'] prems w show ?thesis by simp
      next
        case False
        with prems(2,3) have "p = before" by (auto simp: slash_prefix_def append_eq_append_conv2)
        then have "os_names u p = Some Directory" using make_directory_effect(2) [OF u ok'] by simp
        then show ?thesis using "2.IH"(1) [OF \<open>c = _\<close> u [symmetric] ok' w] only_directories_added_keeps by blast
      qed
    next
      case False
      with prems have w: "walk_directories (before @ [c]) cs s = (ok, t)" by simp
      have "p \<noteq> before" using False prems(2) by (auto simp: slash_prefix_def)
      then have "length before < length p"
        using prems(2,3) by (auto simp: slash_prefix_def append_eq_append_conv2)
      with "2.IH"(4) [OF False _ _ _ w] prems show ?thesis by simp
    qed }
qed

text \<open>Creating a destination directory only ever adds directories, and when it reports success every
  component of the path is a directory, not a symbolic link to one.\<close>
theorem safe_path_ensure_directory_sound:
  assumes "safe_path_ensure_directory path s = (ok, t)"
  shows "only_directories_added s t \<and>
    (ok \<longrightarrow> (\<forall>p. p \<noteq> [] \<longrightarrow> slash_prefix p path \<longrightarrow> os_names t p = Some Directory))"
proof (cases "path = [] \<or> SAFE_PATH_FULL_BYTES \<le> length path")
  case True
  with assms show ?thesis by (auto simp: safe_path_ensure_directory_def)
next
  case False
  define before rest where "before = (if hd path = CHR ''/'' then take 1 path else [])"
    and "rest = (if hd path = CHR ''/'' then drop 1 path else path)"
  have w: "walk_directories before rest s = (ok, t)" and p: "before @ rest = path" and l: "length before \<le> 1"
    using assms False by (auto simp: safe_path_ensure_directory_def before_def rest_def)
  have "os_names t q = Some Directory" if "ok" "q \<noteq> []" "slash_prefix q path" for q
    using walk_directories_effect(2) [OF w that(1)] that l p by (cases q) auto
  with walk_directories_effect(1) [OF w] show ?thesis by blast
qed

definition creatable :: "os \<Rightarrow> string \<Rightarrow> bool" where
  "creatable s path \<longleftrightarrow> (\<forall>p. slash_prefix p path \<longrightarrow> os_names s p \<in> {None, Some Directory})"

lemma make_directory_faultless:
  assumes "os_faults s = []" and "p \<noteq> []" and "parent_exists s p" and "os_names s p \<in> {None, Some Directory}"
  shows "\<exists>t. make_directory p s = (True, t) \<and> os_faults t = []"
  using assms by (auto simp: make_directory_def sys_mkdir_def sys_lstat_def fails_def)

lemma slash_prefix_append: "slash_prefix p a \<Longrightarrow> slash_prefix p (a @ CHR ''/'' # b)"
  by (auto simp: slash_prefix_def)

lemma slash_prefix_snoc: "slash_prefix p (a @ [c]) \<longleftrightarrow> p = a @ [c] \<or> (p = a \<and> c = CHR ''/'') \<or> (p \<noteq> a \<and> slash_prefix p a)"
  by (auto simp: slash_prefix_def append_eq_append_conv2 Cons_eq_append_conv append_eq_Cons_conv)

lemma walk_directories_faultless:
  assumes "os_faults s = []" and "creatable s (before @ rest)" and "before \<noteq> [] \<or> (rest \<noteq> [] \<and> hd rest \<noteq> CHR ''/'')"
    and "\<forall>p. p \<noteq> [] \<longrightarrow> p \<noteq> before \<longrightarrow> slash_prefix p before \<longrightarrow> os_names s p = Some Directory"
  shows "\<exists>t. walk_directories before rest s = (True, t)"
  using assms
proof (induction before rest s rule: walk_directories.induct)
  case (1 before s)
  have "parent_exists s before"
    using 1(4) by (auto simp: parent_exists_def slash_prefix_def split: option.splits dest!: split_at_last_Some)
  moreover have "os_names s before \<in> {None, Some Directory}" using 1(2) by (simp add: creatable_def slash_prefix_def)
  ultimately show ?case using make_directory_faultless 1 by fastforce
next
  case (2 before c cs s)
  show ?case
  proof (cases "c = CHR ''/''")
    case True
    with "2.prems"(3) have "before \<noteq> []" by auto
    moreover have "parent_exists s before"
      using "2.prems"(4) by (auto simp: parent_exists_def slash_prefix_def split: option.splits dest!: split_at_last_Some)
    moreover have "os_names s before \<in> {None, Some Directory}"
      using "2.prems"(2) True by (simp add: creatable_def slash_prefix_def)
    ultimately obtain t where t: "make_directory before s = (True, t)" "os_faults t = []"
      using make_directory_faultless "2.prems"(1) by blast
    note e = make_directory_effect [OF t(1)]
    have "creatable t ((before @ [c]) @ cs)"
      using e(1) "2.prems"(2) by (auto simp: creatable_def only_directories_added_def) metis
    moreover have "\<forall>p. p \<noteq> [] \<longrightarrow> p \<noteq> before @ [c] \<longrightarrow> slash_prefix p (before @ [c]) \<longrightarrow> os_names t p = Some Directory"
      using e "2.prems"(4) only_directories_added_keeps by (auto simp: slash_prefix_snoc)
    ultimately show ?thesis using "2.IH"(1) [OF True t(1) [symmetric]] t True by simp
  next
    case False
    have "\<forall>p. p \<noteq> [] \<longrightarrow> p \<noteq> before @ [c] \<longrightarrow> slash_prefix p (before @ [c]) \<longrightarrow> os_names s p = Some Directory"
      using "2.prems"(4) False by (auto simp: slash_prefix_snoc)
    with "2.IH"(2) [OF False] "2.prems" False show ?thesis by simp
  qed
qed

text \<open>With a faultless system the destination directory is created whenever nothing but directories
  stands in its way.\<close>
theorem safe_path_ensure_directory_total:
  assumes "os_faults s = []" and "path \<noteq> []" and "length path < 1400" and "creatable s path"
  shows "fst (safe_path_ensure_directory path s)"
proof -
  have "\<exists>t. walk_directories (take 1 path) (drop 1 path) s = (True, t)"
    using assms by (cases path; intro walk_directories_faultless) (auto simp: slash_prefix_def Cons_eq_append_conv)
  moreover have "\<exists>t. walk_directories [] path s = (True, t)" if "hd path \<noteq> CHR ''/''"
    using assms that by (intro walk_directories_faultless) (auto simp: slash_prefix_def)
  ultimately show ?thesis using assms by (auto simp: safe_path_ensure_directory_def SAFE_PATH_FULL_BYTES_def)
qed

definition example_os :: os where
  "example_os = mounted [''/data'', ''/data/a.txt'']"

lemma example_os_simps [simp]:
  "os_faults example_os = []"
  "os_names example_os p = (if p = ''/data'' \<or> p = ''/data/a.txt'' then Some Directory else None)"
  by (simp_all add: example_os_def mounted_def)

lemma example_name [simp]: "validate_filename ''a.txt''" "validate_filename ''a (1).txt''"
  by (simp_all add: validate_filename_iff name_char_def valid_utf8_ascii uchar_code)

lemma char_of_49: "char_of (49 :: nat) = CHR ''1''"
  using char_of_char [of "CHR ''1''", where ?'a = nat] by simp

lemma example_candidate: "stem_size ''a.txt'' = 1" "numbered_name ''a.txt'' 1 = Some ''a (1).txt''"
  by (simp_all add: numbered_name_def stem_size_def split_at_last_def suffix_text_def dec_string.simps char_of_49
    SAFE_PATH_NAME_BYTES_def Let_def shrink.simps(2) [of _ _ 0, folded One_nat_def])

lemma resolve_present: "0 < n \<Longrightarrow> os_names s path = Some Directory \<Longrightarrow> resolve n s path = Inr path"
  by (cases n) auto

lemma example_access:
  "sys_access ''/data/a.txt'' example_os = (True, example_os)"
  "sys_access ''/data/a (1).txt'' example_os = (False, example_os\<lparr>os_errno := ENOENT\<rparr>)"
  by (simp_all add: sys_access_def fails_def resolve_absent resolve_present)

theorem safe_path_unique_name_free_witness: "\<exists>t.
  safe_path_unique_name ''/data'' ''a.txt'' example_os = (Some ''a (1).txt'', t) \<and>
  missing t (''/data'' @ ''/'' @ ''a (1).txt'')"
proof -
  have n: "9999 = Suc 9998" by simp
  have "safe_path_unique_name ''/data'' ''a.txt'' example_os = (Some ''a (1).txt'', example_os\<lparr>os_errno := ENOENT\<rparr>)"
    by (subst unique_name_step)
      (simp_all only: n try_suffix_step [OF example_candidate(2)] example_name SAFE_PATH_FULL_BYTES_def example_access
        append.simps prod.case list.size simp_thms if_True if_False, simp_all)
  from safe_path_unique_name_free [OF this] this show ?thesis by blast
qed

theorem safe_path_unique_name_first_witness:
  "fst (safe_path_unique_name ''/data'' ''a.txt'' example_os) =
    find (\<lambda>name. missing example_os (''/data'' @ ''/'' @ name)) (''a.txt'' # candidates ''a.txt'' 1 9999)"
  by (rule safe_path_unique_name_first) (simp_all add: example_candidate)

theorem safe_path_unique_name_total_witness:
  "\<exists>name. fst (safe_path_unique_name ''/data'' ''a.txt'' example_os) = Some name"
proof (rule safe_path_unique_name_total)
  have d: "dom (os_names example_os) = {''/data'', ''/data/a.txt''}" by (auto split: if_splits)
  then show "finite (dom (os_names example_os))" by simp
  have "card {path \<in> dom (os_names example_os). prefix (''/data'' @ ''/'') path} \<le> card (dom (os_names example_os))"
    unfolding d by (intro card_mono) auto
  also have "\<dots> \<le> 2" unfolding d by (simp add: card_insert_if)
  finally show "card {path \<in> dom (os_names example_os). prefix (''/data'' @ ''/'') path} < 9999" by simp
qed (simp_all add: example_candidate)

definition example_walk :: os where
  "example_walk = mounted [''/data'']"

lemma example_creatable: "creatable example_walk ''/data/in''"
  by (simp add: creatable_def example_walk_def mounted_def)

theorem safe_path_ensure_directory_total_witness: "fst (safe_path_ensure_directory ''/data/in'' example_walk)"
  by (rule safe_path_ensure_directory_total [OF _ _ _ example_creatable]) (simp_all add: example_walk_def mounted_def)

theorem safe_path_ensure_directory_sound_witness:
  "\<exists>t. safe_path_ensure_directory ''/data'' example_walk = (True, t) \<and> os_names t ''/data'' = Some Directory"
proof -
  have "safe_path_ensure_directory ''/data'' example_walk = (True, example_walk\<lparr>os_errno := EEXIST\<rparr>)"
    by (simp add: safe_path_ensure_directory_def SAFE_PATH_FULL_BYTES_def make_directory_def sys_mkdir_def sys_lstat_def
      fails_def example_walk_def mounted_def)
  from safe_path_ensure_directory_sound [OF this] this show ?thesis by (auto simp: slash_prefix_def)
qed

end
