(* ===== verification/Auth.thy ===== *)
theory Auth
  imports Prelude FileSys
begin

text \<open>
  \<^verbatim>\<open>src/src/auth.c\<close>: PIN challenges and bearer sessions.  The manager is a record with its two fixed
  arrays as lists; a character array is the C string it holds, the empty string when it was cleared.
  The mutex makes every entry point one atomic step, so an entry point is a function from the manager
  and the system (for the random source) to its result and both again.  A pointer argument that the
  code tests against NULL is an option; the manager and the result structures are not NULL.
\<close>

section \<open>Constants and data\<close>

definition AUTH_CHALLENGE_ID_HEX_BYTES :: nat where "AUTH_CHALLENGE_ID_HEX_BYTES = 32"
definition AUTH_PIN_DIGITS :: nat where "AUTH_PIN_DIGITS = 6"
definition AUTH_TOKEN_HEX_BYTES :: nat where "AUTH_TOKEN_HEX_BYTES = 64"
definition AUTH_CLIENT_ADDRESS_BYTES :: nat where "AUTH_CLIENT_ADDRESS_BYTES = 64"
definition AUTH_MAX_ATTEMPTS :: nat where "AUTH_MAX_ATTEMPTS = 5"
definition AUTH_MAX_CHALLENGES :: nat where "AUTH_MAX_CHALLENGES = 8"
definition AUTH_MAX_SESSIONS :: nat where "AUTH_MAX_SESSIONS = 4"
definition AUTH_RATE_LIMIT_SECONDS :: u64 where "AUTH_RATE_LIMIT_SECONDS = 30"

lemmas auth_constants =
  AUTH_CHALLENGE_ID_HEX_BYTES_def AUTH_PIN_DIGITS_def AUTH_TOKEN_HEX_BYTES_def AUTH_CLIENT_ADDRESS_BYTES_def
  AUTH_MAX_ATTEMPTS_def AUTH_MAX_CHALLENGES_def AUTH_MAX_SESSIONS_def AUTH_RATE_LIMIT_SECONDS_def

datatype auth_result =
    AUTH_OK | AUTH_INVALID | AUTH_EXPIRED | AUTH_USED | AUTH_RATE_LIMITED | AUTH_CAPACITY | AUTH_RANDOM_FAILURE

record auth_challenge =
  ch_occupied :: bool
  ch_used :: bool
  ch_attempts :: nat
  ch_expires_at :: u64
  ch_rate_limited_until :: u64
  ch_client_address :: string
  ch_challenge_id :: string
  ch_pin :: string

record auth_session =
  se_occupied :: bool
  se_expires_at :: u64
  se_client_address :: string
  se_token :: string

record auth_manager =
  pin_ttl_seconds :: u32
  session_ttl_seconds :: u32
  challenges :: "auth_challenge list"
  sessions :: "auth_session list"

record auth_challenge_result =
  cr_challenge_id :: string
  cr_pin :: string
  cr_expires_in_seconds :: u32

record auth_session_result =
  sr_token :: string
  sr_expires_in_seconds :: u32

definition clear_challenge :: auth_challenge where
  "clear_challenge =
     \<lparr>ch_occupied = False, ch_used = False, ch_attempts = 0, ch_expires_at = 0, ch_rate_limited_until = 0,
      ch_client_address = [], ch_challenge_id = [], ch_pin = []\<rparr>"

definition clear_session :: auth_session where
  "clear_session = \<lparr>se_occupied = False, se_expires_at = 0, se_client_address = [], se_token = []\<rparr>"

section \<open>Comparison and random values\<close>

definition constant_time_equal :: "string \<Rightarrow> string \<Rightarrow> nat \<Rightarrow> bool" where
  "constant_time_equal left right amount \<longleftrightarrow>
     foldl (\<lambda>difference i. difference OR (uchar (char_at left i) XOR uchar (char_at right i))) (0 :: byte) [0..<amount] = 0"

definition valid_client_address :: "string option \<Rightarrow> bool" where
  "valid_client_address address =
     (case address of None \<Rightarrow> False | Some a \<Rightarrow> 0 < length a \<and> length a < AUTH_CLIENT_ADDRESS_BYTES)"

definition generate_hex :: "nat \<Rightarrow> os \<Rightarrow> string option \<times> os" where
  "generate_hex random_bytes s =
     (if AUTH_TOKEN_HEX_BYTES div 2 < random_bytes then (None, s)
      else case secure_random random_bytes s of (bytes, s) \<Rightarrow> (map_option hex_encode bytes, s))"

text \<open>Four random bytes read as a little-endian \<open>uint32_t\<close>.\<close>

definition random_u32 :: "byte list \<Rightarrow> u32" where
  "random_u32 bytes = foldr (\<lambda>b v. ucast b OR push_bit 8 v) bytes 0"

definition pin_limit :: u32 where
  "pin_limit = 0xffffffff - (0xffffffff mod 1000000)"

definition pin_text :: "u32 \<Rightarrow> string" where
  "pin_text value =
     map (\<lambda>p. char_of (48 + unat ((value div p) mod 10))) [100000, 10000, 1000, 100, 10, 1]"

text \<open>
  The rejection loop.  It ends with the first draw below the limit or with a failing source; the
  script of draws is finite, so the model's loop always ends.
\<close>

function generate_pin :: "os \<Rightarrow> string option \<times> os" where
  "generate_pin s =
     (case secure_random 4 s of
        (None, s) \<Rightarrow> (None, s)
      | (Some bytes, s) \<Rightarrow>
          (let value = random_u32 bytes
           in if pin_limit \<le> value then generate_pin s else (Some (pin_text (value mod 1000000)), s)))"
  by pat_completeness auto
termination
  by (relation "measure (\<lambda>s. length (os_random s))") (auto simp: secure_random_def split: list.splits option.splits if_splits)

declare generate_pin.simps [simp del]

section \<open>Challenges\<close>

definition cleanup_expired :: "u64 \<Rightarrow> auth_manager \<Rightarrow> auth_manager" where
  "cleanup_expired now m =
     m\<lparr>challenges := map (\<lambda>c. if ch_occupied c \<and> ch_expires_at c \<le> now \<and> ch_rate_limited_until c \<le> now
                              then clear_challenge else c) (challenges m),
       sessions := map (\<lambda>x. if se_occupied x \<and> se_expires_at x \<le> now then clear_session else x) (sessions m)\<rparr>"

definition auth_manager_create :: "u32 \<Rightarrow> u32 \<Rightarrow> auth_manager option" where
  "auth_manager_create pin_ttl session_ttl =
     (if pin_ttl = 0 \<or> session_ttl = 0 then None
      else Some \<lparr>pin_ttl_seconds = pin_ttl, session_ttl_seconds = session_ttl,
                 challenges = replicate AUTH_MAX_CHALLENGES clear_challenge,
                 sessions = replicate AUTH_MAX_SESSIONS clear_session\<rparr>)"

text \<open>
  The loop over the slots when a challenge is created: stop at a rate limit of the same client, clear
  the client's other challenge, remember the first free slot.
\<close>

fun scan_challenges ::
  "string \<Rightarrow> u64 \<Rightarrow> nat \<Rightarrow> nat option \<Rightarrow> auth_challenge list \<Rightarrow> bool \<times> nat option \<times> auth_challenge list" where
  "scan_challenges client now index slot [] = (False, slot, [])"
| "scan_challenges client now index slot (c # cs) =
     (if ch_occupied c \<and> ch_client_address c = client \<and> now < ch_rate_limited_until c
      then (True, slot, c # cs)
      else let c = (if ch_occupied c \<and> ch_client_address c = client then clear_challenge else c);
               slot = (if slot = None \<and> \<not> ch_occupied c then Some index else slot)
           in case scan_challenges client now (Suc index) slot cs of
                (limited, slot, cs) \<Rightarrow> (limited, slot, c # cs))"

definition auth_create_challenge_at ::
  "auth_manager \<Rightarrow> string option \<Rightarrow> u64 \<Rightarrow> os \<Rightarrow> auth_result \<times> auth_challenge_result option \<times> auth_manager \<times> os" where
  "auth_create_challenge_at m client_address now s =
     (if \<not> valid_client_address client_address then (AUTH_INVALID, None, m, s)
      else case generate_hex (AUTH_CHALLENGE_ID_HEX_BYTES div 2) s of
          (None, s) \<Rightarrow> (AUTH_RANDOM_FAILURE, None, m, s)
        | (Some challenge_id, s) \<Rightarrow>
            (case generate_pin s of
               (None, s) \<Rightarrow> (AUTH_RANDOM_FAILURE, None, m, s)
             | (Some pin, s) \<Rightarrow>
                 (let client = the client_address; m = cleanup_expired now m
                  in case scan_challenges client now 0 None (challenges m) of
                       (True, _, cs) \<Rightarrow> (AUTH_RATE_LIMITED, None, m\<lparr>challenges := cs\<rparr>, s)
                     | (False, None, cs) \<Rightarrow> (AUTH_CAPACITY, None, m\<lparr>challenges := cs\<rparr>, s)
                     | (False, Some i, cs) \<Rightarrow>
                         (AUTH_OK,
                          Some \<lparr>cr_challenge_id = challenge_id, cr_pin = pin, cr_expires_in_seconds = pin_ttl_seconds m\<rparr>,
                          m\<lparr>challenges := cs[i := (cs ! i)\<lparr>ch_occupied := True,
                              ch_expires_at := now + ucast (pin_ttl_seconds m), ch_client_address := client,
                              ch_challenge_id := challenge_id, ch_pin := pin\<rparr>]\<rparr>, s))))"

fun find_index :: "('a \<Rightarrow> bool) \<Rightarrow> 'a list \<Rightarrow> nat option" where
  "find_index P [] = None"
| "find_index P (x # xs) = (if P x then Some 0 else map_option Suc (find_index P xs))"

definition challenge_matches :: "string \<Rightarrow> auth_challenge \<Rightarrow> bool" where
  "challenge_matches challenge_id c \<longleftrightarrow>
     ch_occupied c \<and> constant_time_equal (ch_challenge_id c) challenge_id AUTH_CHALLENGE_ID_HEX_BYTES"

definition auth_verify_challenge_at ::
  "auth_manager \<Rightarrow> string option \<Rightarrow> string option \<Rightarrow> string option \<Rightarrow> u64 \<Rightarrow> os \<Rightarrow>
   auth_result \<times> auth_session_result option \<times> auth_manager \<times> os" where
  "auth_verify_challenge_at m client_address challenge_id pin now s =
     (if \<not> valid_client_address client_address \<or> challenge_id = None \<or> pin = None \<or>
         length (the challenge_id) \<noteq> AUTH_CHALLENGE_ID_HEX_BYTES \<or> length (the pin) \<noteq> AUTH_PIN_DIGITS
      then (AUTH_INVALID, None, m, s)
      else case find_index (challenge_matches (the challenge_id)) (challenges m) of
          None \<Rightarrow> (AUTH_INVALID, None, m, s)
        | Some i \<Rightarrow>
            (let c = challenges m ! i; put = (\<lambda>c. m\<lparr>challenges := (challenges m)[i := c]\<rparr>)
             in if ch_client_address c \<noteq> the client_address then (AUTH_INVALID, None, m, s)
                else if ch_used c then (AUTH_USED, None, m, s)
                else if ch_expires_at c \<le> now then (AUTH_EXPIRED, None, put clear_challenge, s)
                else if AUTH_MAX_ATTEMPTS \<le> ch_attempts c then (AUTH_RATE_LIMITED, None, m, s)
                else if \<not> constant_time_equal (ch_pin c) (the pin) AUTH_PIN_DIGITS then
                  (let c = c\<lparr>ch_attempts := ch_attempts c + 1\<rparr>
                   in if AUTH_MAX_ATTEMPTS \<le> ch_attempts c
                      then (AUTH_RATE_LIMITED, None,
                            put (c\<lparr>ch_pin := [], ch_rate_limited_until := now + AUTH_RATE_LIMIT_SECONDS\<rparr>), s)
                      else (AUTH_INVALID, None, put c, s))
                else (case generate_hex (AUTH_TOKEN_HEX_BYTES div 2) s of
                        (None, s) \<Rightarrow> (AUTH_RANDOM_FAILURE, None, m, s)
                      | (Some token, s) \<Rightarrow>
                          (AUTH_OK, Some \<lparr>sr_token = token, sr_expires_in_seconds = session_ttl_seconds m\<rparr>,
                           (put (c\<lparr>ch_used := True, ch_pin := []\<rparr>))
                             \<lparr>sessions := (map (\<lambda>_. clear_session) (sessions m))
                                [0 := \<lparr>se_occupied = True, se_expires_at = now + ucast (session_ttl_seconds m),
                                       se_client_address = the client_address, se_token = token\<rparr>]\<rparr>, s))))"

definition auth_validate_bearer_at ::
  "auth_manager \<Rightarrow> string option \<Rightarrow> string option \<Rightarrow> u64 \<Rightarrow> auth_result \<times> auth_manager" where
  "auth_validate_bearer_at m client_address authorization now =
     (if \<not> valid_client_address client_address \<or> authorization = None \<or>
         take 7 (the authorization) \<noteq> ''Bearer '' then (AUTH_INVALID, m)
      else let token = drop 7 (the authorization)
           in if length token \<noteq> AUTH_TOKEN_HEX_BYTES then (AUTH_INVALID, m)
              else let m = cleanup_expired now m
                   in (if \<exists>x \<in> set (sessions m). se_occupied x \<and>
                            constant_time_equal (se_token x) token AUTH_TOKEN_HEX_BYTES \<and>
                            se_client_address x = the client_address
                       then AUTH_OK else AUTH_INVALID, m))"

text \<open>The entry points that read the clock themselves, and the end of the manager.\<close>

definition auth_create_challenge ::
  "auth_manager \<Rightarrow> string option \<Rightarrow> os \<Rightarrow> auth_result \<times> auth_challenge_result option \<times> auth_manager \<times> os" where
  "auth_create_challenge m client_address s =
     (case read_seconds s of (now, s) \<Rightarrow> auth_create_challenge_at m client_address now s)"

definition auth_verify_challenge ::
  "auth_manager \<Rightarrow> string option \<Rightarrow> string option \<Rightarrow> string option \<Rightarrow> os \<Rightarrow>
   auth_result \<times> auth_session_result option \<times> auth_manager \<times> os" where
  "auth_verify_challenge m client_address challenge_id pin s =
     (case read_seconds s of (now, s) \<Rightarrow> auth_verify_challenge_at m client_address challenge_id pin now s)"

definition auth_validate_bearer :: "auth_manager \<Rightarrow> string option \<Rightarrow> string option \<Rightarrow> os \<Rightarrow> auth_result \<times> auth_manager \<times> os" where
  "auth_validate_bearer m client_address authorization s =
     (case read_seconds s of
        (now, s) \<Rightarrow> (case auth_validate_bearer_at m client_address authorization now of (r, m) \<Rightarrow> (r, m, s)))"

definition auth_manager_destroy :: "auth_manager \<Rightarrow> auth_manager" where
  "auth_manager_destroy m =
     \<lparr>pin_ttl_seconds = 0, session_ttl_seconds = 0,
      challenges = map (\<lambda>_. clear_challenge) (challenges m), sessions = map (\<lambda>_. clear_session) (sessions m)\<rparr>"

section \<open>Comparison\<close>

lemma xor_eq_0: "(a XOR b = 0) = (a = (b :: byte))"
  by (auto simp: bit_eq_iff bit_simps)

lemma foldl_or_zero: "foldl (\<lambda>d i. d OR f i) d xs = (0 :: byte) \<longleftrightarrow> d = 0 \<and> (\<forall>i \<in> set xs. f i = 0)"
  by (induction xs arbitrary: d) (auto simp: or_eq_0_iff)

lemma constant_time_equal_iff:
  "constant_time_equal l r n \<longleftrightarrow> (\<forall>i < n. char_at l i = char_at r i)"
  by (auto simp: constant_time_equal_def foldl_or_zero xor_eq_0)

text \<open>The comparison that reads every byte decides equality: on strings of the compared length it is
  string equality, and a cleared field never matches a string that has no NUL byte.\<close>
theorem constant_time_equal_correct:
  assumes "length r = n" and "0 < n" and "c_string r" and "l = [] \<or> length l = n"
  shows "constant_time_equal l r n \<longleftrightarrow> l = r"
proof (cases "l = []")
  case True
  obtain x xs where r: "r = x # xs" "x \<noteq> NUL"
    using assms(1-3) by (cases r) (auto simp: c_string_def)
  then have "char_at l 0 \<noteq> char_at r 0" using True by (simp add: char_at_def)
  with True assms(2) r show ?thesis by (auto simp: constant_time_equal_iff)
next
  case False
  with assms have l: "length l = length r" by simp
  then have "constant_time_equal l r n \<longleftrightarrow> (\<forall>i < length l. l ! i = r ! i)"
    using assms(1) by (simp add: constant_time_equal_iff char_at_def)
  with l show ?thesis by (metis nth_equalityI)
qed

theorem constant_time_equal_correct_witness:
  "constant_time_equal ''123456'' ''123457'' 6 \<longleftrightarrow> ''123456'' = ''123457''"
  by (rule constant_time_equal_correct) (simp_all add: c_string_def)

section \<open>PINs\<close>

definition pin_of :: "u32 \<Rightarrow> string" where
  "pin_of value = pin_text (value mod 1000000)"

lemma pin_limit_value: "unat pin_limit = 4294000000"
  by (simp add: pin_limit_def)

lemma unat_of_nat_u32: "n < 4294967296 \<Longrightarrow> unat (of_nat n :: u32) = n"
  by (simp add: unat_of_nat)

lemma ten_split: "10 * a + x = 10 * b + y \<Longrightarrow> x < 10 \<Longrightarrow> y < 10 \<Longrightarrow> a = b \<and> x = (y :: nat)"
  by presburger

lemma dec_value_inject:
  "length a = length b \<Longrightarrow> \<forall>c \<in> set a. isdigit c \<Longrightarrow> \<forall>c \<in> set b. isdigit c \<Longrightarrow> dec_value a = dec_value b \<Longrightarrow> a = b"
proof (induction a arbitrary: b rule: rev_induct)
  case (snoc x xs)
  then obtain ys y where b: "b = ys @ [y]" by (cases b rule: rev_cases) auto
  with snoc.prems have x: "48 \<le> code x" "code x \<le> 57" "48 \<le> code y" "code y \<le> 57" by (auto simp: isdigit_def)
  have e: "10 * dec_value xs + (code x - 48) = 10 * dec_value ys + (code y - 48)"
    using snoc.prems b by (simp add: dec_value_snoc)
  have "code x - 48 < 10" "code y - 48 < 10" using x by simp_all
  from ten_split [OF e this] have "dec_value xs = dec_value ys" "code x - 48 = code y - 48" by simp_all
  moreover from this x have "code x = code y" by linarith
  ultimately show ?case using snoc b by auto
qed simp

lemma horner: "n div (k * 10) * 10 + (n div k) mod 10 = n div (k :: nat)"
  by (simp add: div_mult2_eq)

lemma unat_u32_numerals:
  "unat (10 :: u32) = 10" "unat (100 :: u32) = 100" "unat (1000 :: u32) = 1000" "unat (10000 :: u32) = 10000"
  "unat (100000 :: u32) = 100000" "unat (1 :: u32) = 1"
  by simp_all

lemma pin_text_facts:
  "length (pin_text w) = 6" "c \<in> set (pin_text w) \<Longrightarrow> isdigit c"
  "unat w < 1000000 \<Longrightarrow> dec_value (pin_text w) = unat w"
proof -
  have d: "unat ((w div p) mod 10) = unat w div unat p mod 10" for p
    by (simp add: unat_mod unat_div)
  have b: "unat w div k mod 10 < 10" for k by simp
  have c: "code (char_of (48 + unat w div k mod 10)) = 48 + unat w div k mod 10" for k
    using b [of k] by (intro code_digit) simp
  show "length (pin_text w) = 6" by (simp add: pin_text_def)
  show "isdigit c" if "c \<in> set (pin_text w)" for c
    using that b by (auto simp: pin_text_def d isdigit_def c less_Suc_eq_le)
  show "dec_value (pin_text w) = unat w" if l: "unat w < 1000000"
  proof -
    let ?n = "unat w"
    have "?n div 100000 mod 10 = ?n div 100000" using l by (simp add: less_mult_imp_div_less)
    moreover have "?n div 100000 * 10 + ?n div 10000 mod 10 = ?n div 10000" using horner [of ?n 10000] by simp
    moreover have "?n div 10000 * 10 + ?n div 1000 mod 10 = ?n div 1000" using horner [of ?n 1000] by simp
    moreover have "?n div 1000 * 10 + ?n div 100 mod 10 = ?n div 100" using horner [of ?n 100] by simp
    moreover have "?n div 100 * 10 + ?n div 10 mod 10 = ?n div 10" using horner [of ?n 10] by simp
    moreover have "?n div 10 * 10 + ?n mod 10 = ?n" by simp
    ultimately show ?thesis
      using c [of 100000] c [of 10000] c [of 1000] c [of 100] c [of 10] c [of 1]
      unfolding pin_text_def dec_value_def d list.map foldl.simps unat_u32_numerals c
      by (simp only: add_diff_cancel_left' mult.commute [of 10] mult_zero_left add_0 div_by_1)
  qed
qed

lemma pin_text_eq_iff:
  assumes "length p = 6" and "\<forall>c \<in> set p. isdigit c" and "unat w < 1000000"
  shows "pin_text w = p \<longleftrightarrow> unat w = dec_value p"
  using dec_value_inject [of "pin_text w" p] pin_text_facts(1,3) [of w] pin_text_facts(2) [of _ w] assms by auto

text \<open>Every six-digit PIN arises from exactly 4294 of the draws that the rejection loop accepts, so
  the PINs are uniformly distributed over uniform draws.\<close>
theorem generate_pin_uniform:
  assumes "length p = 6" and "\<forall>c \<in> set p. isdigit c"
  shows "card {value. value < pin_limit \<and> pin_text (value mod 1000000) = p} = 4294"
proof -
  define k where "k = dec_value p"
  have k: "k < 1000000"
  proof -
    obtain a b c d e f where p: "p = [a, b, c, d, e, f]"
      using assms(1) by (auto simp: eval_nat_numeral length_Suc_conv)
    with assms(2) show ?thesis by (auto simp: k_def dec_value_def isdigit_def)
  qed
  have in_range: "unat (of_nat (i * 1000000 + k) :: u32) = i * 1000000 + k" if "i < 4294" for i
    by (rule unat_of_nat_u32) (use that k in simp)
  have u: "unat (v mod 1000000 :: u32) = unat v mod 1000000" for v by (simp add: unat_mod)
  have "{value. value < pin_limit \<and> pin_text (value mod 1000000) = p} =
      {value. unat value < 4294000000 \<and> unat value mod 1000000 = k}"
    using pin_text_eq_iff [OF assms] by (auto simp: word_nat pin_limit_value u k_def)
  also have "\<dots> = (\<lambda>i. of_nat (i * 1000000 + k)) ` {..<4294}"
  proof (intro equalityI subsetI)
    fix v :: u32
    assume v: "v \<in> {value. unat value < 4294000000 \<and> unat value mod 1000000 = k}"
    then have "unat v div 1000000 * 1000000 + k = unat v" by auto
    then have "v = of_nat (unat v div 1000000 * 1000000 + k)" by simp
    moreover have "unat v div 1000000 < 4294" using v by (auto simp: less_mult_imp_div_less)
    ultimately show "v \<in> (\<lambda>i. of_nat (i * 1000000 + k)) ` {..<4294}" by blast
  next
    fix v :: u32
    assume "v \<in> (\<lambda>i. of_nat (i * 1000000 + k)) ` {..<4294}"
    then obtain i where i: "i < 4294" "v = of_nat (i * 1000000 + k)" by auto
    have "unat v = i * 1000000 + k" unfolding i(2) by (rule in_range [OF i(1)])
    with i(1) k show "v \<in> {value. unat value < 4294000000 \<and> unat value mod 1000000 = k}" by simp
  qed
  finally have "card {value. value < pin_limit \<and> pin_text (value mod 1000000) = p} =
      card ((\<lambda>i. of_nat (i * 1000000 + k) :: u32) ` {..<4294})" by simp
  also have "\<dots> = 4294"
  proof -
    have "inj_on (\<lambda>i. of_nat (i * 1000000 + k) :: u32) {..<4294}"
    proof (rule inj_onI)
      fix i j :: nat
      assume ij: "i \<in> {..<4294}" "j \<in> {..<4294}" "of_nat (i * 1000000 + k) = (of_nat (j * 1000000 + k) :: u32)"
      then have "i * 1000000 + k = j * 1000000 + k" using in_range by (metis lessThan_iff)
      then show "i = j" by simp
    qed
    then show ?thesis by (simp add: card_image)
  qed
  finally show ?thesis .
qed

theorem generate_pin_uniform_witness:
  "card {value. value < pin_limit \<and> pin_text (value mod 1000000) = ''004711''} = 4294"
  by (rule generate_pin_uniform) (auto simp: isdigit_def)

end
