(* ===== verification/AuthRuns.thy ===== *)
theory AuthRuns
  imports Auth
begin

text \<open>
  What the challenge and session manager of \<^verbatim>\<open>src/src/auth.c\<close> guarantees over whole runs: the invariant
  of its tables, where an accepted bearer token comes from, how many PINs can be tried, when a request
  for a challenge is refused, that a login works, and one way around the rate limit.
\<close>

section \<open>The invariant\<close>

definition valid_client :: "string \<Rightarrow> bool" where
  "valid_client a \<longleftrightarrow> a \<noteq> [] \<and> length a < 64"

definition hex_text :: "nat \<Rightarrow> string \<Rightarrow> bool" where
  "hex_text n t \<longleftrightarrow> length t = n \<and> list_all lower_hex t"

definition pin_ok :: "string \<Rightarrow> bool" where
  "pin_ok p \<longleftrightarrow> length p = 6 \<and> list_all isdigit p"

text \<open>
  An occupied challenge has one of three shapes: open (its PIN is there, fewer than five wrong
  attempts, no rate limit), used (PIN gone), or locked (five attempts, PIN gone, rate limit set).
  Everything else is all zeros.
\<close>

definition challenge_ok :: "auth_challenge \<Rightarrow> bool" where
  "challenge_ok c \<longleftrightarrow>
     (if ch_occupied c
      then valid_client (ch_client_address c) \<and> hex_text 32 (ch_challenge_id c) \<and>
           (if ch_attempts c < 5
            then ch_rate_limited_until c = 0 \<and> (if ch_used c then ch_pin c = [] else pin_ok (ch_pin c))
            else ch_attempts c = 5 \<and> \<not> ch_used c \<and> ch_pin c = [])
      else c = clear_challenge)"

definition session_ok :: "auth_session \<Rightarrow> bool" where
  "session_ok x \<longleftrightarrow>
     (if se_occupied x then valid_client (se_client_address x) \<and> hex_text 64 (se_token x) else x = clear_session)"

definition one_per_client :: "auth_challenge list \<Rightarrow> bool" where
  "one_per_client cs \<longleftrightarrow>
     (\<forall>i < length cs. \<forall>j < length cs. i \<noteq> j \<longrightarrow> ch_occupied (cs ! i) \<longrightarrow> ch_occupied (cs ! j) \<longrightarrow>
        ch_client_address (cs ! i) \<noteq> ch_client_address (cs ! j))"

definition auth_inv :: "auth_manager \<Rightarrow> bool" where
  "auth_inv m \<longleftrightarrow>
     length (challenges m) = 8 \<and> list_all challenge_ok (challenges m) \<and> one_per_client (challenges m) \<and>
     (\<exists>x. session_ok x \<and> sessions m = [x, clear_session, clear_session, clear_session])"

lemma clear_challenge_simps [simp]:
  "\<not> ch_occupied clear_challenge" "challenge_ok clear_challenge" "ch_attempts clear_challenge = 0"
  "\<not> ch_used clear_challenge" "ch_rate_limited_until clear_challenge = 0"
  by (simp_all add: clear_challenge_def challenge_ok_def)

lemma clear_session_simps [simp]: "\<not> se_occupied clear_session" "session_ok clear_session"
  by (simp_all add: clear_session_def session_ok_def)

lemma valid_client_address_iff [simp]: "valid_client_address (Some a) = valid_client a" "\<not> valid_client_address None"
  by (simp_all add: valid_client_address_def valid_client_def auth_constants)

lemma one_per_client_empty: "\<forall>c \<in> set cs. \<not> ch_occupied c \<Longrightarrow> one_per_client cs"
  by (simp add: one_per_client_def)

lemma auth_inv_create: "auth_manager_create a b = Some m \<Longrightarrow> auth_inv m"
  by (auto simp: auth_manager_create_def auth_inv_def auth_constants numeral_eq_Suc one_per_client_empty split: if_splits)

lemma one_per_client_map:
  assumes "one_per_client cs" and "\<And>c. f c = c \<or> \<not> ch_occupied (f c)"
  shows "one_per_client (map f cs)"
  using assms by (auto simp: one_per_client_def) metis

lemma auth_inv_cleanup: "auth_inv m \<Longrightarrow> auth_inv (cleanup_expired now m)"
  by (auto simp: auth_inv_def cleanup_expired_def list_all_iff intro!: one_per_client_map split: if_splits)

lemma generate_hex_text: "generate_hex n s = (Some t, s') \<Longrightarrow> hex_text (2 * n) t"
  by (auto simp: generate_hex_def hex_text_def secure_random_def list_all_iff
      split: if_splits list.splits option.splits dest: hex_encode_lower_hex)

lemma generate_pin_ok: "generate_pin s = (Some p, s') \<Longrightarrow> pin_ok p"
proof (induction s rule: generate_pin.induct)
  case (1 s)
  then show ?case
    by (subst (asm) (2) generate_pin.simps)
      (auto simp: Let_def pin_ok_def pin_text_facts list_all_iff split: option.splits prod.splits if_splits)
qed

lemma find_index_Some: "find_index P xs = Some i \<Longrightarrow> i < length xs \<and> P (xs ! i) \<and> (\<forall>j < i. \<not> P (xs ! j))"
  by (induction xs arbitrary: i) (auto simp: nth_Cons split: if_splits nat.splits)

lemma find_index_None: "find_index P xs = None \<longleftrightarrow> (\<forall>x \<in> set xs. \<not> P x)"
  by (induction xs) auto

text \<open>What the scan does: the client's challenges are cleared, up to a rate limited one if there is one.\<close>

definition drop_client :: "string \<Rightarrow> auth_challenge \<Rightarrow> auth_challenge" where
  "drop_client client c = (if ch_occupied c \<and> ch_client_address c = client then clear_challenge else c)"

definition limits :: "string \<Rightarrow> u64 \<Rightarrow> auth_challenge \<Rightarrow> bool" where
  "limits client now c \<longleftrightarrow> ch_occupied c \<and> ch_client_address c = client \<and> now < ch_rate_limited_until c"

lemma drop_client_facts:
  "drop_client client c = c \<or> \<not> ch_occupied (drop_client client c)"
  "ch_occupied (drop_client client c) \<Longrightarrow> ch_client_address (drop_client client c) \<noteq> client"
  "challenge_ok c \<Longrightarrow> challenge_ok (drop_client client c)"
  "ch_client_address c \<noteq> client \<Longrightarrow> drop_client client c = c"
  by (auto simp: drop_client_def)

lemma scan_challenges_Cons:
  "scan_challenges client now i slot (c # cs) =
     (if limits client now c then (True, slot, c # cs)
      else case scan_challenges client now (Suc i)
                  (if slot = None \<and> \<not> ch_occupied (drop_client client c) then Some i else slot) cs of
             (limited, slot, cs) \<Rightarrow> (limited, slot, drop_client client c # cs))"
  by (simp add: limits_def drop_client_def Let_def)

declare scan_challenges.simps(2) [simp del]

lemma scan_challenges_limited:
  "fst (scan_challenges client now i slot cs) = list_ex (limits client now) cs"
  by (induction cs arbitrary: i slot) (simp_all add: scan_challenges_Cons case_prod_beta)

lemma scan_challenges_prefix:
  "\<exists>k. snd (snd (scan_challenges client now i slot cs)) = map (drop_client client) (take k cs) @ drop k cs"
proof (induction cs arbitrary: i slot)
  case (Cons c cs)
  show ?case
  proof (cases "limits client now c")
    case True
    then show ?thesis by (intro exI [of _ 0]) (simp add: scan_challenges_Cons)
  next
    case False
    let ?slot = "if slot = None \<and> \<not> ch_occupied (drop_client client c) then Some i else slot"
    obtain k where "snd (snd (scan_challenges client now (Suc i) ?slot cs)) = map (drop_client client) (take k cs) @ drop k cs"
      using Cons.IH by blast
    with False show ?thesis by (intro exI [of _ "Suc k"]) (simp add: scan_challenges_Cons case_prod_beta)
  qed
qed simp

lemma scan_challenges_free:
  "\<not> list_ex (limits client now) cs \<Longrightarrow>
   scan_challenges client now i slot cs =
     (False, (case slot of Some k \<Rightarrow> Some k
              | None \<Rightarrow> map_option ((+) i) (find_index (\<lambda>c. \<not> ch_occupied c) (map (drop_client client) cs))),
      map (drop_client client) cs)"
proof (induction cs arbitrary: i slot)
  case (Cons c cs)
  moreover have "(+) (Suc i) = (\<lambda>x. Suc (i + x))" by auto
  ultimately show ?case
    by (auto simp: scan_challenges_Cons option.map_comp comp_def split: option.splits)
qed (simp split: option.splits)

lemma map_option_add_0: "map_option ((+) (0 :: nat)) x = x"
  by (cases x) simp_all

section \<open>The calls keep the invariant\<close>

lemma one_per_client_drop:
  assumes "one_per_client cs"
  shows "one_per_client (map (drop_client client) (take k cs) @ drop k cs)"
proof -
  have "map (drop_client client) (take k cs) @ drop k cs =
      map (\<lambda>j. if j < k then drop_client client (cs ! j) else cs ! j) [0..<length cs]"
    by (rule nth_equalityI) (auto simp: nth_append min_def)
  then show ?thesis
    using assms by (auto simp: one_per_client_def drop_client_def)
qed

lemma challenge_ok_drop: "list_all challenge_ok cs \<Longrightarrow> list_all challenge_ok (map (drop_client client) (take k cs) @ drop k cs)"
  by (auto simp: list_all_iff drop_client_facts dest: in_set_takeD in_set_dropD)

lemma one_per_client_update:
  assumes "one_per_client cs" and "\<And>j. j < length cs \<Longrightarrow> j \<noteq> i \<Longrightarrow> ch_occupied (cs ! j) \<Longrightarrow> ch_occupied c \<Longrightarrow>
      ch_client_address (cs ! j) \<noteq> ch_client_address c"
  shows "one_per_client (cs[i := c])"
proof (cases "i < length cs")
  case True
  with assms show ?thesis by (auto simp: one_per_client_def nth_list_update) metis+
qed (use assms in \<open>simp add: list_update_beyond\<close>)

lemma list_all_update: "list_all P xs \<Longrightarrow> P x \<Longrightarrow> list_all P (xs[i := x])"
  by (auto simp: list_all_iff dest: set_update_subset_insert [THEN subsetD])

lemma auth_inv_challenges:
  "auth_inv m \<Longrightarrow> length cs = 8 \<Longrightarrow> list_all challenge_ok cs \<Longrightarrow> one_per_client cs \<Longrightarrow> auth_inv (m\<lparr>challenges := cs\<rparr>)"
  by (simp add: auth_inv_def)

lemma auth_inv_create_challenge:
  assumes "auth_inv m" and "auth_create_challenge_at m cl now s = (r, out, m', s')"
  shows "auth_inv m'"
proof (cases "m' = m")
  case False
  with assms(2) obtain client id pin s1 where cl: "cl = Some client" "valid_client client" "generate_hex 16 s = (Some id, s1)"
    "generate_pin s1 = (Some pin, s')"
    by (cases cl) (auto simp: auth_create_challenge_at_def auth_constants Let_def split: if_splits option.splits prod.splits bool.splits)
  define n where "n = cleanup_expired now m"
  have n: "auth_inv n" using auth_inv_cleanup assms(1) by (simp add: n_def)
  then have cs: "length (challenges n) = 8" "list_all challenge_ok (challenges n)" "one_per_client (challenges n)"
    by (simp_all add: auth_inv_def)
  obtain limited slot cs' where scan: "scan_challenges client now 0 None (challenges n) = (limited, slot, cs')"
    by (metis prod_cases3)
  obtain k where k: "cs' = map (drop_client client) (take k (challenges n)) @ drop k (challenges n)"
    using scan_challenges_prefix [of client now 0 None "challenges n"] scan by auto
  have cs': "length cs' = 8" "list_all challenge_ok cs'" "one_per_client cs'"
    using cs one_per_client_drop challenge_ok_drop unfolding k by auto
  note eqs = assms(2) [unfolded auth_create_challenge_at_def, folded n_def]
  show ?thesis
  proof (cases "limited \<or> slot = None")
    case True
    with eqs cl scan have "m' = n\<lparr>challenges := cs'\<rparr>"
      by (auto simp: auth_constants Let_def n_def split: bool.splits option.splits)
    then show ?thesis using auth_inv_challenges [OF n cs'] by simp
  next
    case False
    then obtain i where i: "slot = Some i" by auto
    have free: "\<not> list_ex (limits client now) (challenges n)"
      using False scan scan_challenges_limited [of client now 0 None "challenges n"] by simp
    have all: "cs' = map (drop_client client) (challenges n)"
      and fi: "find_index (\<lambda>c. \<not> ch_occupied c) cs' = Some i"
      using scan_challenges_free [OF free, of 0 None] scan i by (auto simp: map_option_add_0)
    from find_index_Some [OF fi] have fresh: "i < 8" "cs' ! i = clear_challenge"
      using cs'(1,2) by (auto simp: list_all_length challenge_ok_def)
    define c where "c = (cs' ! i)\<lparr>ch_occupied := True, ch_expires_at := now + ucast (pin_ttl_seconds n),
        ch_client_address := client, ch_challenge_id := id, ch_pin := pin\<rparr>"
    have "challenge_ok c"
      using cl generate_hex_text [OF cl(3)] generate_pin_ok [OF cl(4)]
      by (simp add: c_def fresh challenge_ok_def clear_challenge_def)
    moreover have "one_per_client (cs'[i := c])"
      using cs'(3) drop_client_facts(2) [of client] by (intro one_per_client_update) (auto simp: all c_def)
    ultimately have "auth_inv (n\<lparr>challenges := cs'[i := c]\<rparr>)"
      using auth_inv_challenges [OF n] cs' by (simp add: list_all_update)
    moreover have "m' = n\<lparr>challenges := cs'[i := c]\<rparr>"
      using eqs cl scan i False by (auto simp: auth_constants Let_def c_def n_def split: bool.splits)
    ultimately show ?thesis by simp
  qed
qed (use assms in simp)

lemma auth_inv_put:
  assumes "auth_inv m" and "i < 8" and "challenge_ok c"
    and "\<not> ch_occupied c \<or> ch_occupied (challenges m ! i) \<and> ch_client_address c = ch_client_address (challenges m ! i)"
  shows "auth_inv (m\<lparr>challenges := (challenges m)[i := c]\<rparr>)"
proof (rule auth_inv_challenges [OF assms(1)])
  from assms(1) have cs: "length (challenges m) = 8" "list_all challenge_ok (challenges m)" "one_per_client (challenges m)"
    by (simp_all add: auth_inv_def)
  show "length ((challenges m)[i := c]) = 8" by (simp add: cs)
  show "list_all challenge_ok ((challenges m)[i := c])"
    using cs(2) assms(3) by (simp add: list_all_update)
  show "one_per_client ((challenges m)[i := c])"
    using cs assms(2,4) by (intro one_per_client_update) (auto simp: one_per_client_def)
qed

lemma cleared_pin: "length p = 6 \<Longrightarrow> c_string p \<Longrightarrow> \<not> constant_time_equal [] p 6"
  by (cases p) (auto simp: constant_time_equal_iff char_at_def c_string_Cons intro!: exI [of _ 0])

lemma auth_inv_verify:
  assumes "auth_inv m" and "auth_verify_challenge_at m cl cid pin now s = (r, out, m', s')"
  shows "auth_inv m'"
proof (cases "m' = m")
  case False
  with assms(2) obtain client i where cl: "cl = Some client" "valid_client client"
    and i: "find_index (challenge_matches (the cid)) (challenges m) = Some i"
    by (cases cl) (auto simp: auth_verify_challenge_at_def split: if_splits option.splits)
  from assms(1) have cs: "length (challenges m) = 8" "list_all challenge_ok (challenges m)"
    by (simp_all add: auth_inv_def)
  define c where "c = challenges m ! i"
  from find_index_Some [OF i] cs have c: "i < 8" "ch_occupied c" "challenge_ok c"
    by (auto simp: c_def challenge_matches_def list_all_length)
  have same: "c = challenges m ! i" by (simp add: c_def)
  note put = auth_inv_put [OF assms(1) c(1)]
  note eqs = assms(2) [unfolded auth_verify_challenge_at_def i Let_def option.case, folded c_def]
  have guess: "challenge_ok (c\<lparr>ch_attempts := ch_attempts c + 1\<rparr>)" if "ch_attempts c + 1 < 5"
    using c that by (auto simp: challenge_ok_def split: if_splits)
  have lock: "challenge_ok (c\<lparr>ch_attempts := ch_attempts c + 1, ch_pin := [], ch_rate_limited_until := t\<rparr>)"
    if "ch_attempts c < 5" "5 \<le> ch_attempts c + 1" "\<not> ch_used c" for t
    using c that by (auto simp: challenge_ok_def split: if_splits)
  have used: "challenge_ok (c\<lparr>ch_used := True, ch_pin := []\<rparr>)" if "ch_attempts c < 5"
    using c that by (auto simp: challenge_ok_def split: if_splits)
  consider (expired) "m' = m\<lparr>challenges := (challenges m)[i := clear_challenge]\<rparr>"
    | (wrong) "ch_attempts c + 1 < 5" "m' = m\<lparr>challenges := (challenges m)[i := c\<lparr>ch_attempts := ch_attempts c + 1\<rparr>]\<rparr>"
    | (locked) t where "ch_attempts c < 5" "5 \<le> ch_attempts c + 1" "\<not> ch_used c" "m' = m\<lparr>challenges := (challenges m)[i :=
        c\<lparr>ch_attempts := ch_attempts c + 1, ch_pin := [], ch_rate_limited_until := t\<rparr>]\<rparr>"
    | (ok) token where "ch_attempts c < 5" "hex_text 64 token"
      "m' = m\<lparr>challenges := (challenges m)[i := c\<lparr>ch_used := True, ch_pin := []\<rparr>],
         sessions := (map (\<lambda>_. clear_session) (sessions m))[0 := \<lparr>se_occupied = True,
           se_expires_at = now + ucast (session_ttl_seconds m), se_client_address = client, se_token = token\<rparr>]\<rparr>"
    using eqs False cl generate_hex_text [of 32 s]
    by (auto simp: auth_constants split: if_splits option.splits prod.splits)
  then show ?thesis
  proof cases
    case expired
    then show ?thesis using put by simp
  next
    case wrong
    then show ?thesis using put guess c(2) same by simp
  next
    case locked
    then show ?thesis using put lock c(2) same by simp
  next
    case ok
    have "auth_inv (m\<lparr>challenges := (challenges m)[i := c\<lparr>ch_used := True, ch_pin := []\<rparr>]\<rparr>)"
      using put used ok c(2) same by simp
    moreover have "session_ok \<lparr>se_occupied = True, se_expires_at = now + ucast (session_ttl_seconds m),
        se_client_address = client, se_token = token\<rparr>"
      using ok(2) cl by (simp add: session_ok_def)
    ultimately show ?thesis by (auto simp: ok(3) auth_inv_def)
  qed
qed (use assms in simp)

lemma auth_inv_bearer:
  "auth_inv m \<Longrightarrow> auth_validate_bearer_at m cl a now = (r, m') \<Longrightarrow> auth_inv m'"
  by (auto simp: auth_validate_bearer_at_def Let_def auth_inv_cleanup split: if_splits)

section \<open>Runs\<close>

text \<open>
  A run is the list of calls made so far with their answers.  Between two calls the system may change
  in any way (other draws, other clock); the manager only changes through the calls.
\<close>

datatype auth_call =
    Create "string option" u64
  | Verify "string option" "string option" "string option" u64
  | Bearer "string option" "string option" u64

datatype auth_answer =
    Challenge auth_result "auth_challenge_result option"
  | Session auth_result "auth_session_result option"
  | Access auth_result

fun auth_step :: "auth_call \<Rightarrow> auth_manager \<Rightarrow> os \<Rightarrow> auth_answer \<times> auth_manager" where
  "auth_step (Create cl now) m s =
     (case auth_create_challenge_at m cl now s of (r, out, m, s) \<Rightarrow> (Challenge r out, m))"
| "auth_step (Verify cl cid pin now) m s =
     (case auth_verify_challenge_at m cl cid pin now s of (r, out, m, s) \<Rightarrow> (Session r out, m))"
| "auth_step (Bearer cl a now) m s = (case auth_validate_bearer_at m cl a now of (r, m) \<Rightarrow> (Access r, m))"

definition arg_ok :: "string option \<Rightarrow> bool" where
  "arg_ok a \<longleftrightarrow> (case a of None \<Rightarrow> True | Some t \<Rightarrow> c_string t)"

fun call_ok :: "auth_call \<Rightarrow> bool" where
  "call_ok (Create cl now) = arg_ok cl"
| "call_ok (Verify cl cid pin now) = (arg_ok cl \<and> arg_ok cid \<and> arg_ok pin)"
| "call_ok (Bearer cl a now) = (arg_ok cl \<and> arg_ok a)"

inductive auth_run :: "u32 \<Rightarrow> u32 \<Rightarrow> (auth_call \<times> auth_answer) list \<Rightarrow> auth_manager \<Rightarrow> bool" for a b where
  start: "auth_manager_create a b = Some m \<Longrightarrow> auth_run a b [] m"
| call: "auth_run a b tr m \<Longrightarrow> call_ok c \<Longrightarrow> auth_step c m s = (ans, m') \<Longrightarrow> auth_run a b (tr @ [(c, ans)]) m'"

lemma auth_step_inv: "auth_inv m \<Longrightarrow> auth_step c m s = (ans, m') \<Longrightarrow> auth_inv m'"
  by (cases c) (auto split: prod.splits dest: auth_inv_create_challenge auth_inv_verify auth_inv_bearer)

lemma auth_run_auth_inv: "auth_run a b tr m \<Longrightarrow> auth_inv m"
  by (induction rule: auth_run.induct) (auto dest: auth_inv_create auth_step_inv)

text \<open>C25: In every run of the manager, whatever the callers, the clock and the random source do: each
  client has at most one challenge; a challenge is open with a six-digit PIN and fewer than five wrong
  attempts, used with its PIN erased, or locked with its PIN erased; a free slot is all zeros; and at
  most one session exists.\<close>
theorem auth_run_inv: "auth_run a b tr m \<Longrightarrow> auth_inv m"
  by (rule auth_run_auth_inv)

section \<open>Where an accepted token comes from\<close>

definition issued :: "(auth_call \<times> auth_answer) list \<Rightarrow> string \<Rightarrow> string \<Rightarrow> string \<Rightarrow> u64 \<Rightarrow> bool" where
  "issued tr cl cid pin t \<longleftrightarrow>
     (\<exists>r. (Create (Some cl) t, Challenge AUTH_OK (Some r)) \<in> set tr \<and> cr_challenge_id r = cid \<and> cr_pin r = pin)"

fun grants :: "auth_call \<times> auth_answer \<Rightarrow> bool" where
  "grants (c, Session AUTH_OK out) = True"
| "grants e = False"

definition granted :: "u32 \<Rightarrow> (auth_call \<times> auth_answer) list \<Rightarrow> string \<Rightarrow> string \<Rightarrow> u64 \<Rightarrow> bool" where
  "granted a tr cl token t \<longleftrightarrow>
     (\<exists>tr1 cid pin r tr2 t0.
        tr = tr1 @ (Verify (Some cl) (Some cid) (Some pin) t, Session AUTH_OK (Some r)) # tr2 \<and>
        sr_token r = token \<and> list_all (\<lambda>e. \<not> grants e) tr2 \<and> issued tr1 cl cid pin t0 \<and> t < t0 + ucast a)"

definition challenge_from :: "u32 \<Rightarrow> (auth_call \<times> auth_answer) list \<Rightarrow> auth_challenge \<Rightarrow> bool" where
  "challenge_from a tr c \<longleftrightarrow>
     (ch_occupied c \<longrightarrow> (\<exists>p t. issued tr (ch_client_address c) (ch_challenge_id c) p t \<and> ch_expires_at c = t + ucast a \<and>
        (ch_pin c = [] \<or> ch_pin c = p)))"

definition session_from :: "u32 \<Rightarrow> u32 \<Rightarrow> (auth_call \<times> auth_answer) list \<Rightarrow> auth_session \<Rightarrow> bool" where
  "session_from a b tr x \<longleftrightarrow>
     (se_occupied x \<longrightarrow> (\<exists>t. granted a tr (se_client_address x) (se_token x) t \<and> se_expires_at x = t + ucast b))"

definition history :: "u32 \<Rightarrow> u32 \<Rightarrow> (auth_call \<times> auth_answer) list \<Rightarrow> auth_manager \<Rightarrow> bool" where
  "history a b tr m \<longleftrightarrow> pin_ttl_seconds m = a \<and> session_ttl_seconds m = b \<and>
     list_all (challenge_from a tr) (challenges m) \<and> list_all (session_from a b tr) (sessions m)"

lemma from_clear [simp]: "challenge_from a tr clear_challenge" "session_from a b tr clear_session"
  by (simp_all add: challenge_from_def session_from_def)

lemma issued_later: "issued tr cl cid pin t \<Longrightarrow> issued (tr @ ev) cl cid pin t"
  by (auto simp: issued_def)

lemma challenge_from_later: "challenge_from a tr c \<Longrightarrow> challenge_from a (tr @ ev) c"
  unfolding challenge_from_def by (blast intro: issued_later)

lemma session_from_later:
  "session_from a b tr x \<Longrightarrow> \<not> grants e \<Longrightarrow> session_from a b (tr @ [e]) x"
  unfolding session_from_def
proof (intro impI, elim impE exE conjE, assumption)
  fix t
  assume e: "\<not> grants e" and g: "granted a tr (se_client_address x) (se_token x) t" and "se_expires_at x = t + ucast b"
  have "granted a (tr @ [e]) (se_client_address x) (se_token x) t"
    using g unfolding granted_def
  proof (elim exE conjE, goal_cases)
    case (1 tr1 cid pin r tr2 t0)
    with e show ?case by (intro exI [of _ tr1] exI [of _ cid] exI [of _ pin] exI [of _ r] exI [of _ "tr2 @ [e]"] exI [of _ t0]) simp
  qed
  then show "\<exists>t. granted a (tr @ [e]) (se_client_address x) (se_token x) t \<and> se_expires_at x = t + ucast b"
    using \<open>se_expires_at x = _\<close> by blast
qed

lemma history_cleanup: "history a b tr m \<Longrightarrow> history a b tr (cleanup_expired now m)"
  by (auto simp: history_def cleanup_expired_def list_all_iff)

lemma history_later:
  "history a b tr m \<Longrightarrow> \<not> grants e \<Longrightarrow> history a b (tr @ [e]) m"
  by (auto simp: history_def list_all_iff challenge_from_later session_from_later)

lemma history_challenges:
  "history a b tr m \<Longrightarrow> list_all (challenge_from a tr) cs \<Longrightarrow> history a b tr (m\<lparr>challenges := cs\<rparr>)"
  by (simp add: history_def)

lemma challenge_from_drop:
  "list_all (challenge_from a tr) cs \<Longrightarrow> list_all (challenge_from a tr) (map (drop_client cl) (take k cs) @ drop k cs)"
  by (auto simp: list_all_iff drop_client_def dest: in_set_takeD in_set_dropD)

lemma history_create:
  assumes "history a b tr m" and "auth_inv m" and "auth_create_challenge_at m cl now s = (r, out, m', s')"
  shows "history a b (tr @ [(Create cl now, Challenge r out)]) m'"
proof (cases "m' = m")
  case True
  with assms(1) show ?thesis by (simp add: history_later)
next
  case False
  with assms(3) obtain client id pin s1 where cl: "cl = Some client" "valid_client client" "generate_hex 16 s = (Some id, s1)"
    "generate_pin s1 = (Some pin, s')"
    by (cases cl) (auto simp: auth_create_challenge_at_def auth_constants Let_def split: if_splits option.splits prod.splits bool.splits)
  define n where "n = cleanup_expired now m"
  let ?e = "(Create cl now, Challenge r out)"
  have n: "history a b (tr @ [?e]) n" using assms(1) by (simp add: n_def history_cleanup history_later)
  obtain limited slot cs where scan: "scan_challenges client now 0 None (challenges n) = (limited, slot, cs)"
    by (metis prod_cases3)
  obtain k where k: "cs = map (drop_client client) (take k (challenges n)) @ drop k (challenges n)"
    using scan_challenges_prefix [of client now 0 None "challenges n"] scan by auto
  have cs: "list_all (challenge_from a (tr @ [?e])) cs"
    unfolding k by (rule challenge_from_drop) (use n in \<open>simp add: history_def\<close>)
  note eqs = assms(3) [unfolded auth_create_challenge_at_def, folded n_def]
  show ?thesis
  proof (cases "limited \<or> slot = None")
    case True
    with eqs cl scan have "m' = n\<lparr>challenges := cs\<rparr>"
      by (auto simp: auth_constants Let_def n_def split: bool.splits option.splits)
    then show ?thesis using history_challenges [OF n cs] by simp
  next
    case False
    then obtain i where i: "slot = Some i" by auto
    with eqs cl scan False have m': "m' = n\<lparr>challenges := cs[i := (cs ! i)\<lparr>ch_occupied := True,
          ch_expires_at := now + ucast (pin_ttl_seconds n), ch_client_address := client, ch_challenge_id := id, ch_pin := pin\<rparr>]\<rparr>"
      and r: "r = AUTH_OK" "out = Some \<lparr>cr_challenge_id = id, cr_pin = pin, cr_expires_in_seconds = pin_ttl_seconds n\<rparr>"
      by (auto simp: auth_constants Let_def n_def split: bool.splits)
    have "issued (tr @ [?e]) client id pin now" by (auto simp: issued_def r cl)
    then show ?thesis unfolding m'
      by (intro history_challenges n list_all_update cs) (use n in \<open>auto simp: challenge_from_def history_def\<close>)
  qed
qed

lemma granted_now:
  "issued tr cl cid pin t0 \<Longrightarrow> t < t0 + ucast a \<Longrightarrow>
   granted a (tr @ [(Verify (Some cl) (Some cid) (Some pin) t, Session AUTH_OK (Some r))]) cl (sr_token r) t"
  unfolding granted_def
  by (intro exI [of _ tr] exI [of _ cid] exI [of _ pin] exI [of _ r] exI [of _ "[]"] exI [of _ t0]) simp

lemma same_text:
  assumes "constant_time_equal l r n" and "length r = n" and "0 < n" and "c_string r" and "l = [] \<or> length l = n"
  shows "l = r"
proof (cases "l = []")
  case True
  with assms show ?thesis by (cases r) (auto simp: constant_time_equal_iff char_at_def c_string_Cons)
next
  case False
  then have "length l = length r" using assms by simp
  moreover have "\<forall>i < length l. l ! i = r ! i" using assms calculation by (auto simp: constant_time_equal_iff char_at_def)
  ultimately show ?thesis by (metis nth_equalityI)
qed

lemma history_verify:
  assumes h: "history a b tr m" and inv: "auth_inv m" and v: "auth_verify_challenge_at m cl cid pin now s = (r, out, m', s')"
    and args: "arg_ok cid" "arg_ok pin"
  shows "history a b (tr @ [(Verify cl cid pin now, Session r out)]) m'"
proof -
  let ?e = "(Verify cl cid pin now, Session r out)"
  consider (quiet) "r \<noteq> AUTH_OK" | (ok) "r = AUTH_OK" by blast
  then show ?thesis
  proof cases
    case quiet
    then have e: "\<not> grants ?e" by (cases r) auto
    note h' = history_later [OF h e]
    have "\<exists>cs. m' = m\<lparr>challenges := cs\<rparr> \<and> list_all (challenge_from a (tr @ [?e])) cs"
    proof (cases "m' = m")
      case True
      then show ?thesis using h' by (intro exI [of _ "challenges m"]) (simp add: history_def)
    next
      case False
      obtain i c where m': "m' = m\<lparr>challenges := (challenges m)[i := c]\<rparr>" "i < length (challenges m)"
        and c: "c = clear_challenge \<or> (ch_client_address c = ch_client_address (challenges m ! i) \<and>
            ch_challenge_id c = ch_challenge_id (challenges m ! i) \<and> ch_expires_at c = ch_expires_at (challenges m ! i) \<and>
            ch_occupied c = ch_occupied (challenges m ! i) \<and> (ch_pin c = [] \<or> ch_pin c = ch_pin (challenges m ! i)))"
      proof -
        from v False quiet obtain i where i: "find_index (challenge_matches (the cid)) (challenges m) = Some i"
          by (auto simp: auth_verify_challenge_at_def split: if_splits option.splits)
        let ?c = "challenges m ! i"
        have "\<exists>c. m' = m\<lparr>challenges := (challenges m)[i := c]\<rparr> \<and> (c = clear_challenge \<or>
            c = ?c\<lparr>ch_attempts := ch_attempts ?c + 1\<rparr> \<or>
            c = ?c\<lparr>ch_attempts := ch_attempts ?c + 1, ch_pin := [], ch_rate_limited_until := now + AUTH_RATE_LIMIT_SECONDS\<rparr>)"
          using v [unfolded auth_verify_challenge_at_def i Let_def option.case] False quiet
          by (auto split: if_splits option.splits prod.splits)
        with that find_index_Some [OF i] show ?thesis by auto
      qed
      have "challenge_from a (tr @ [?e]) (challenges m ! i)"
        using h' m'(2) by (simp add: history_def list_all_length)
      then have "challenge_from a (tr @ [?e]) c" using c by (auto simp: challenge_from_def)
      with h' m'(1) show ?thesis
        by (intro exI [of _ "(challenges m)[i := c]"]) (simp add: history_def list_all_update)
    qed
    then show ?thesis using history_challenges [OF h'] by auto
  next
    case ok
    with v obtain client id p i token where cl: "cl = Some client" "cid = Some id" "pin = Some p" "length id = 32" "length p = 6"
      and i: "find_index (challenge_matches id) (challenges m) = Some i" and who: "ch_client_address (challenges m ! i) = client"
      and live: "now < ch_expires_at (challenges m ! i)" and eq: "constant_time_equal (ch_pin (challenges m ! i)) p 6"
      and out: "out = Some \<lparr>sr_token = token, sr_expires_in_seconds = session_ttl_seconds m\<rparr>"
      and m': "m' = m\<lparr>challenges := (challenges m)[i := (challenges m ! i)\<lparr>ch_used := True, ch_pin := []\<rparr>],
         sessions := (map (\<lambda>_. clear_session) (sessions m))[0 := \<lparr>se_occupied = True,
           se_expires_at = now + ucast (session_ttl_seconds m), se_client_address = client, se_token = token\<rparr>]\<rparr>"
      by (cases cl) (auto simp: auth_verify_challenge_at_def auth_constants Let_def not_le split: if_splits option.splits prod.splits)
    let ?c = "challenges m ! i"
    from find_index_Some [OF i] inv have c: "i < length (challenges m)" "ch_occupied ?c" "challenge_ok ?c"
      "constant_time_equal (ch_challenge_id ?c) id 32"
      by (auto simp: auth_inv_def challenge_matches_def list_all_length auth_constants)
    have id: "ch_challenge_id ?c = id"
      by (rule same_text [OF c(4)]) (use c cl args in \<open>auto simp: arg_ok_def challenge_ok_def hex_text_def\<close>)
    have pin: "ch_pin ?c = p"
      by (rule same_text [OF eq]) (use c cl args in \<open>auto simp: arg_ok_def challenge_ok_def pin_ok_def split: if_splits\<close>)
    obtain t0 where t0: "issued tr client id p t0" "ch_expires_at ?c = t0 + ucast a"
      using h c(1,2) who id pin cl(5) by (fastforce simp: history_def list_all_length challenge_from_def)
    have g: "granted a (tr @ [?e]) client token now"
      using granted_now [OF t0(1), of now a "\<lparr>sr_token = token, sr_expires_in_seconds = session_ttl_seconds m\<rparr>"] live t0(2)
      by (simp add: cl out ok)
    have "challenge_from a (tr @ [?e]) (?c\<lparr>ch_used := True, ch_pin := []\<rparr>)"
      using h c(1) challenge_from_later by (fastforce simp: history_def list_all_length challenge_from_def)
    moreover have "list_all (challenge_from a (tr @ [?e])) (challenges m)"
      using h challenge_from_later by (auto simp: history_def list_all_iff)
    moreover have "session_from a b (tr @ [?e]) \<lparr>se_occupied = True,
           se_expires_at = now + ucast (session_ttl_seconds m), se_client_address = client, se_token = token\<rparr>"
      using g h by (auto simp: session_from_def history_def)
    moreover have "list_all (session_from a b (tr @ [?e])) (map (\<lambda>_. clear_session) (sessions m))"
      by (simp add: list_all_iff)
    ultimately show ?thesis
      using h unfolding m' by (simp add: history_def list_all_update)
  qed
qed

lemma history_start: "auth_manager_create a b = Some m \<Longrightarrow> history a b [] m"
  by (auto simp: auth_manager_create_def history_def list_all_iff split: if_splits)

lemma auth_run_history: "auth_run a b tr m \<Longrightarrow> history a b tr m"
proof (induction rule: auth_run.induct)
  case (start m)
  then show ?case by (rule history_start)
next
  case (call tr m c s ans m')
  note inv = auth_run_auth_inv [OF call(1)]
  show ?case
  proof (cases c)
    case (Create cl now)
    with call inv show ?thesis by (auto split: prod.splits intro: history_create)
  next
    case (Verify cl cid pin now)
    with call inv show ?thesis by (auto split: prod.splits intro: history_verify)
  next
    case (Bearer cl au now)
    with call show ?thesis
      by (auto simp: auth_validate_bearer_at_def Let_def history_later history_cleanup split: if_splits)
  qed
qed

text \<open>C24: A bearer header is accepted only if its token was handed out to the same client address by a
  successful verification that is the latest one of the run and has not reached the session's end, and
  that verification presented the PIN that was issued with that challenge to that client before, within
  the PIN's lifetime.\<close>
theorem validate_bearer_sound:
  assumes "auth_run a b tr m" and "c_string authorization"
    and "auth_validate_bearer_at m (Some cl) (Some authorization) now = (AUTH_OK, m')"
  shows "\<exists>token t. authorization = ''Bearer '' @ token \<and> granted a tr cl token t \<and> now < t + ucast b"
proof -
  define n where "n = cleanup_expired now m"
  from assms(3) obtain x where x: "x \<in> set (sessions n)" "se_occupied x" "se_client_address x = cl"
    and len: "length (drop 7 authorization) = 64" and pre: "take 7 authorization = ''Bearer ''"
    and eq: "constant_time_equal (se_token x) (drop 7 authorization) 64"
    by (auto simp: auth_validate_bearer_at_def Let_def auth_constants n_def split: if_splits)
  have inv: "auth_inv m" using assms(1) by (rule auth_run_auth_inv)
  have x': "x \<in> set (sessions m)" "now < se_expires_at x"
    using x(1,2) by (auto simp: n_def cleanup_expired_def split: if_splits)
  have "session_ok x" using inv x'(1) by (auto simp: auth_inv_def)
  then have "length (se_token x) = 64" using x(2) by (simp add: session_ok_def hex_text_def)
  moreover have "c_string (drop 7 authorization)"
    using assms(2) by (rule c_string_subset) (rule set_drop_subset)
  ultimately have token: "se_token x = drop 7 authorization" using same_text [OF eq len] by simp
  from auth_run_history [OF assms(1)] x' x obtain t where "granted a tr cl (se_token x) t" "se_expires_at x = t + ucast b"
    by (auto simp: history_def list_all_iff session_from_def)
  moreover have "authorization = ''Bearer '' @ se_token x"
    using pre token append_take_drop_id [of 7 authorization] by simp
  ultimately show ?thesis using x'(2) by auto
qed

section \<open>Guessing\<close>

lemma find_index_update:
  "find_index P xs = Some i \<Longrightarrow> P y \<Longrightarrow> find_index P (xs[i := y]) = Some i"
  by (induction xs arbitrary: i) (auto split: if_splits nat.splits)

definition guess :: "string \<Rightarrow> string \<Rightarrow> os \<Rightarrow> auth_manager \<Rightarrow> string \<times> u64 \<Rightarrow> auth_manager" where
  "guess cl cid s m g =
     (case auth_verify_challenge_at m (Some cl) (Some cid) (Some (fst g)) (snd g) s of (_, _, m, _) \<Rightarrow> m)"

definition target :: "string \<Rightarrow> string \<Rightarrow> nat \<Rightarrow> auth_challenge \<Rightarrow> auth_manager \<Rightarrow> bool" where
  "target cl cid i c m \<longleftrightarrow> find_index (challenge_matches cid) (challenges m) = Some i \<and> challenges m ! i = c \<and>
     ch_client_address c = cl \<and> \<not> ch_used c"

definition wrong :: "auth_challenge \<Rightarrow> string \<times> u64 \<Rightarrow> bool" where
  "wrong c g \<longleftrightarrow> length (fst g) = 6 \<and> c_string (fst g) \<and> fst g \<noteq> ch_pin c \<and> snd g < ch_expires_at c"

lemma guess_wrong:
  assumes "auth_inv m" and "valid_client cl" and "length cid = 32" and "target cl cid i c m" and "wrong c g" and "ch_attempts c < 5"
  shows "\<exists>c'. target cl cid i c' (guess cl cid s m g) \<and> ch_attempts c' = ch_attempts c + 1 \<and>
    ch_expires_at c' = ch_expires_at c \<and> (ch_attempts c' < 5 \<longrightarrow> ch_pin c' = ch_pin c)"
proof -
  have i: "find_index (challenge_matches cid) (challenges m) = Some i" and c: "challenges m ! i = c"
    "ch_client_address c = cl" "\<not> ch_used c" using assms(4) by (simp_all add: target_def)
  note f = find_index_Some [OF i]
  have ok: "challenge_ok c" "ch_occupied c" using f assms(1) c(1)
    by (auto simp: auth_inv_def list_all_length challenge_matches_def)
  then have "length (ch_pin c) = 6" using c(3) assms(6) by (simp add: challenge_ok_def pin_ok_def)
  then have ne: "\<not> constant_time_equal (ch_pin c) (fst g) 6"
    using same_text [of "ch_pin c" "fst g" 6] assms(5) by (auto simp: wrong_def)
  define c' where "c' = (if 5 \<le> ch_attempts c + 1
    then c\<lparr>ch_attempts := ch_attempts c + 1, ch_pin := [], ch_rate_limited_until := snd g + 30\<rparr>
    else c\<lparr>ch_attempts := ch_attempts c + 1\<rparr>)"
  have g: "guess cl cid s m g = m\<lparr>challenges := (challenges m)[i := c']\<rparr>"
    using assms(2,3,5,6) c ne leD [of "snd g" "ch_expires_at c"] not_le [of "ch_expires_at c" "snd g"]
    by (simp add: guess_def auth_verify_challenge_at_def auth_constants i c Let_def wrong_def c'_def)
  have "challenge_matches cid c'" using f c(1) by (auto simp: challenge_matches_def c'_def)
  then have "target cl cid i c' (guess cl cid s m g)"
    using find_index_update [OF i] f c by (auto simp: target_def g c'_def)
  then show ?thesis by (intro exI [of _ c']) (auto simp: c'_def)
qed

lemma guess_inv: "auth_inv m \<Longrightarrow> auth_inv (guess cl cid s m g)"
  by (auto simp: guess_def split: prod.splits dest: auth_inv_verify)

lemma locked_rejects:
  assumes "target cl cid i c m" and "5 \<le> ch_attempts c"
  shows "fst (auth_verify_challenge_at m (Some cl) (Some cid) pin now s) \<noteq> AUTH_OK"
  using assms by (auto simp: auth_verify_challenge_at_def target_def auth_constants Let_def)

lemma guess_locked:
  assumes "target cl cid i c m" and "5 \<le> ch_attempts c" and "snd g < ch_expires_at c"
  shows "guess cl cid s m g = m"
  using assms by (auto simp: guess_def auth_verify_challenge_at_def target_def auth_constants Let_def)

lemma guesses_count:
  assumes "auth_inv m" and "valid_client cl" and "length cid = 32" and "target cl cid i c m" and "ch_attempts c \<le> 5"
    and "\<forall>g \<in> set gs. length (fst g) = 6 \<and> c_string (fst g) \<and> snd g < ch_expires_at c"
    and "ch_attempts c < 5 \<Longrightarrow> \<forall>g \<in> set gs. fst g \<noteq> ch_pin c"
  shows "\<exists>c'. target cl cid i c' (foldl (guess cl cid s) m gs) \<and> ch_attempts c' = min 5 (ch_attempts c + length gs)"
  using assms
proof (induction gs arbitrary: m c)
  case Nil
  then show ?case by auto
next
  case (Cons g gs)
  show ?case
  proof (cases "ch_attempts c < 5")
    case True
    with Cons.prems obtain c' where c': "target cl cid i c' (guess cl cid s m g)" "ch_attempts c' = ch_attempts c + 1"
      "ch_expires_at c' = ch_expires_at c" "ch_attempts c' < 5 \<longrightarrow> ch_pin c' = ch_pin c"
      using guess_wrong [of m cl cid i c g s] by (auto simp: wrong_def)
    have "\<exists>c''. target cl cid i c'' (foldl (guess cl cid s) (guess cl cid s m g) gs) \<and>
        ch_attempts c'' = min 5 (ch_attempts c' + length gs)"
      using Cons.IH [OF guess_inv [OF Cons.prems(1)] Cons.prems(2,3) c'(1)] Cons.prems True c' by auto
    with c'(2) show ?thesis by simp
  next
    case False
    with Cons.prems guess_locked [of cl cid i c m g s] Cons.IH [of m c] show ?thesis by auto
  qed
qed

text \<open>C33: Five wrong PINs end a challenge: after five or more wrong guesses within its lifetime no
  verification of it succeeds, whatever PIN is presented at whatever time, the right one included.\<close>
theorem wrong_guesses_lock:
  assumes "auth_inv m" and "valid_client cl" and "length cid = 32" and "target cl cid i c m" and "ch_attempts c \<le> 5"
    and "\<forall>g \<in> set gs. wrong c g" and "5 \<le> length gs"
  shows "fst (auth_verify_challenge_at (foldl (guess cl cid s) m gs) (Some cl) (Some cid) (Some pin) now s') \<noteq> AUTH_OK"
  using guesses_count [OF assms(1-5), of gs s] assms(6,7) locked_rejects by (fastforce simp: wrong_def)

section \<open>Logging in\<close>

definition draws_ok :: "os \<Rightarrow> bool" where
  "draws_ok s \<longleftrightarrow> (\<exists>id s1 pin s2. generate_hex 16 s = (Some id, s1) \<and> generate_pin s1 = (Some pin, s2))"

definition holds_slot :: "u64 \<Rightarrow> auth_challenge \<Rightarrow> bool" where
  "holds_slot now c \<longleftrightarrow> ch_occupied c \<and> (now < ch_expires_at c \<or> now < ch_rate_limited_until c)"

lemma cleanup_limits: "list_ex (limits cl now) (challenges (cleanup_expired now m)) = list_ex (limits cl now) (challenges m)"
  by (auto simp: cleanup_expired_def list_ex_iff limits_def split: if_splits)

lemma create_result:
  assumes "valid_client cl" and "draws_ok s"
  shows "fst (auth_create_challenge_at m (Some cl) now s) =
    (if list_ex (limits cl now) (challenges m) then AUTH_RATE_LIMITED
     else if list_all (\<lambda>c. holds_slot now c \<and> ch_client_address c \<noteq> cl) (challenges m) then AUTH_CAPACITY
     else AUTH_OK)"
proof -
  obtain id s1 pin s2 where d: "generate_hex 16 s = (Some id, s1)" "generate_pin s1 = (Some pin, s2)"
    using assms(2) by (auto simp: draws_ok_def)
  define n where "n = cleanup_expired now m"
  obtain limited slot cs where scan: "scan_challenges cl now 0 None (challenges n) = (limited, slot, cs)"
    by (metis prod_cases3)
  have l: "limited = list_ex (limits cl now) (challenges m)"
    using scan_challenges_limited [of cl now 0 None "challenges n"] scan cleanup_limits by (simp add: n_def)
  have free: "slot = None \<longleftrightarrow> list_all (\<lambda>c. holds_slot now c \<and> ch_client_address c \<noteq> cl) (challenges m)" if "\<not> limited"
  proof -
    have "slot = find_index (\<lambda>c. \<not> ch_occupied c) (map (drop_client cl) (challenges n))"
      using scan_challenges_free [of cl now "challenges n" 0 None] scan that l cleanup_limits
      by (auto simp: n_def map_option_add_0)
    then have "slot = None \<longleftrightarrow> list_all (\<lambda>c. ch_occupied (drop_client cl c)) (challenges n)"
      by (auto simp: find_index_None list_all_iff)
    also have "\<dots> \<longleftrightarrow> list_all (\<lambda>c. ch_occupied (drop_client cl (if ch_occupied c \<and> ch_expires_at c \<le> now \<and>
        ch_rate_limited_until c \<le> now then clear_challenge else c))) (challenges m)"
      by (simp add: n_def cleanup_expired_def list.pred_map comp_def)
    also have "(\<lambda>c. ch_occupied (drop_client cl (if ch_occupied c \<and> ch_expires_at c \<le> now \<and>
        ch_rate_limited_until c \<le> now then clear_challenge else c))) = (\<lambda>c. holds_slot now c \<and> ch_client_address c \<noteq> cl)"
      by (auto simp: drop_client_def holds_slot_def not_le fun_eq_iff)
    finally show ?thesis .
  qed
  show ?thesis
    using assms(1) d scan free l
    by (cases limited; cases slot) (simp_all add: auth_create_challenge_at_def auth_constants Let_def flip: n_def)
qed

text \<open>A request for a challenge by a valid client is rate limited exactly while one of the client's
  challenges carries a rate limit in the future, is refused for capacity exactly when live challenges
  of other clients hold all slots, and succeeds otherwise, as long as the random source delivers.\<close>
theorem create_challenge_result:
  assumes "valid_client cl" and "draws_ok s"
  shows "fst (auth_create_challenge_at m (Some cl) now s) =
    (if list_ex (limits cl now) (challenges m) then AUTH_RATE_LIMITED
     else if list_all (\<lambda>c. holds_slot now c \<and> ch_client_address c \<noteq> cl) (challenges m) then AUTH_CAPACITY
     else AUTH_OK)"
  by (rule create_result [OF assms])

lemma create_OK:
  assumes "auth_inv m" and "auth_create_challenge_at m (Some cl) now s = (AUTH_OK, Some r, m', s')"
  shows "\<exists>i c. i < 8 \<and> challenges m' ! i = c \<and> ch_occupied c \<and> \<not> ch_used c \<and> ch_attempts c = 0 \<and>
    ch_client_address c = cl \<and> ch_challenge_id c = cr_challenge_id r \<and> ch_pin c = cr_pin r \<and>
    ch_expires_at c = now + ucast (pin_ttl_seconds m) \<and> hex_text 32 (cr_challenge_id r) \<and> pin_ok (cr_pin r) \<and>
    session_ttl_seconds m' = session_ttl_seconds m \<and> valid_client cl"
proof -
  define n where "n = cleanup_expired now m"
  have n: "auth_inv n" "pin_ttl_seconds n = pin_ttl_seconds m" "session_ttl_seconds n = session_ttl_seconds m"
    using auth_inv_cleanup assms(1) by (simp_all add: n_def cleanup_expired_def)
  from assms(2) obtain id s1 pin i cs where d: "valid_client cl" "generate_hex 16 s = (Some id, s1)" "generate_pin s1 = (Some pin, s')"
    and scan: "scan_challenges cl now 0 None (challenges n) = (False, Some i, cs)"
    and r: "r = \<lparr>cr_challenge_id = id, cr_pin = pin, cr_expires_in_seconds = pin_ttl_seconds n\<rparr>"
    and m': "m' = n\<lparr>challenges := cs[i := (cs ! i)\<lparr>ch_occupied := True, ch_expires_at := now + ucast (pin_ttl_seconds n),
        ch_client_address := cl, ch_challenge_id := id, ch_pin := pin\<rparr>]\<rparr>"
    by (auto simp: auth_create_challenge_at_def auth_constants Let_def n_def split: if_splits option.splits prod.splits bool.splits)
  have "\<not> list_ex (limits cl now) (challenges n)"
    using scan scan_challenges_limited [of cl now 0 None "challenges n"] by simp
  from scan_challenges_free [OF this, of 0 None] scan
  have cs: "cs = map (drop_client cl) (challenges n)" and fi: "find_index (\<lambda>c. \<not> ch_occupied c) cs = Some i"
    by (auto simp: map_option_add_0)
  have "length cs = 8" "list_all challenge_ok cs"
    using n(1) by (auto simp: cs auth_inv_def list_all_iff drop_client_facts(3))
  with find_index_Some [OF fi] have i: "i < length cs" "i < 8" "cs ! i = clear_challenge"
    by (auto simp: list_all_length challenge_ok_def)
  show ?thesis
    using i d generate_hex_text [OF d(2)] generate_pin_ok [OF d(3)]
    by (intro exI [of _ i]) (simp add: m' r n clear_challenge_def)
qed

lemma login_lemma:
  assumes "auth_inv m" and "auth_create_challenge_at m (Some cl) t0 s = (AUTH_OK, Some r, m1, s1)"
    and "t < t0 + ucast (pin_ttl_seconds m)" and "generate_hex 32 s2 = (Some token, s3)"
    and "\<forall>c \<in> set (challenges m1). ch_occupied c \<longrightarrow> ch_challenge_id c = cr_challenge_id r \<longrightarrow> ch_client_address c = cl"
  shows "\<exists>x m2. auth_verify_challenge_at m1 (Some cl) (Some (cr_challenge_id r)) (Some (cr_pin r)) t s2 = (AUTH_OK, Some x, m2, s3) \<and>
    (\<forall>u < t + ucast (session_ttl_seconds m). fst (auth_validate_bearer_at m2 (Some cl) (Some (''Bearer '' @ sr_token x)) u) = AUTH_OK)"
proof -
  obtain i c where c: "i < 8" "challenges m1 ! i = c" "ch_occupied c" "\<not> ch_used c" "ch_attempts c = 0"
    "ch_client_address c = cl" "ch_challenge_id c = cr_challenge_id r" "ch_pin c = cr_pin r"
    "ch_expires_at c = t0 + ucast (pin_ttl_seconds m)" and r: "hex_text 32 (cr_challenge_id r)" "pin_ok (cr_pin r)"
    and ttl: "session_ttl_seconds m1 = session_ttl_seconds m" and cl: "valid_client cl"
    using create_OK [OF assms(1,2)] by blast
  have inv: "auth_inv m1" using auth_inv_create_challenge [OF assms(1,2)] .
  then have len: "length (challenges m1) = 8" by (simp add: auth_inv_def)
  let ?id = "cr_challenge_id r"
  have self: "constant_time_equal l l n" for l n by (simp add: constant_time_equal_iff)
  have "\<exists>j. find_index (challenge_matches ?id) (challenges m1) = Some j"
  proof (rule ccontr)
    assume "\<nexists>j. find_index (challenge_matches ?id) (challenges m1) = Some j"
    then have "find_index (challenge_matches ?id) (challenges m1) = None" by simp
    then have "\<not> challenge_matches ?id c" using c(1,2) len by (auto simp: find_index_None)
    with c(3,7) self show False by (simp add: challenge_matches_def)
  qed
  then obtain j where j: "find_index (challenge_matches ?id) (challenges m1) = Some j" by blast
  from find_index_Some [OF j] have jc: "j < 8" "ch_occupied (challenges m1 ! j)"
    "constant_time_equal (ch_challenge_id (challenges m1 ! j)) ?id 32"
    by (auto simp: len challenge_matches_def auth_constants)
  have "challenge_ok (challenges m1 ! j)" using inv jc(1) by (auto simp: auth_inv_def list_all_length)
  then have "length (ch_challenge_id (challenges m1 ! j)) = 32" using jc(2) by (simp add: challenge_ok_def hex_text_def)
  moreover have "c_string ?id" using r(1) by (auto simp: hex_text_def c_string_def list_all_iff)
  ultimately have "ch_challenge_id (challenges m1 ! j) = ?id"
    using same_text [OF jc(3)] r(1) by (simp add: hex_text_def)
  then have "ch_client_address (challenges m1 ! j) = cl" using assms(5) jc len by simp
  moreover have "one_per_client (challenges m1)" using inv by (simp add: auth_inv_def)
  ultimately have "j = i" using c(1-3,6) jc(1,2) unfolding one_per_client_def len by metis
  define x where "x = \<lparr>sr_token = token, sr_expires_in_seconds = session_ttl_seconds m1\<rparr>"
  define m2 where "m2 = m1\<lparr>challenges := (challenges m1)[i := c\<lparr>ch_used := True, ch_pin := []\<rparr>],
      sessions := (map (\<lambda>_. clear_session) (sessions m1))[0 := \<lparr>se_occupied = True,
        se_expires_at = t + ucast (session_ttl_seconds m1), se_client_address = cl, se_token = token\<rparr>]\<rparr>"
  have "\<not> ch_expires_at c \<le> t" using assms(3) c(9) by simp
  then have v: "auth_verify_challenge_at m1 (Some cl) (Some ?id) (Some (cr_pin r)) t s2 = (AUTH_OK, Some x, m2, s3)"
    using cl r c assms(4) j self
    by (simp add: auth_verify_challenge_at_def auth_constants Let_def \<open>j = i\<close> hex_text_def pin_ok_def x_def m2_def)
  have "length token = 64" using generate_hex_text [OF assms(4)] by (simp add: hex_text_def)
  moreover obtain y where "sessions m1 = [y, clear_session, clear_session, clear_session]"
    using inv by (auto simp: auth_inv_def)
  ultimately have "fst (auth_validate_bearer_at m2 (Some cl) (Some (''Bearer '' @ sr_token x)) u) = AUTH_OK"
    if "u < t + ucast (session_ttl_seconds m)" for u
    using cl self that not_le [of "t + ucast (session_ttl_seconds m)" u]
    by (simp add: auth_validate_bearer_at_def auth_constants Let_def x_def m2_def cleanup_expired_def ttl)
  with v show ?thesis by blast
qed

text \<open>C34: A client that presents the PIN it was issued, before the PIN expires, obtains a session, and
  the token is accepted from that client until the session ends, provided the random source delivers a
  token and no other live challenge drew the same identifier.\<close>
theorem login_works:
  assumes "auth_inv m" and "auth_create_challenge_at m (Some cl) t0 s = (AUTH_OK, Some r, m1, s1)"
    and "t < t0 + ucast (pin_ttl_seconds m)" and "generate_hex 32 s2 = (Some token, s3)"
    and "\<forall>c \<in> set (challenges m1). ch_occupied c \<longrightarrow> ch_challenge_id c = cr_challenge_id r \<longrightarrow> ch_client_address c = cl"
  shows "\<exists>x m2. auth_verify_challenge_at m1 (Some cl) (Some (cr_challenge_id r)) (Some (cr_pin r)) t s2 = (AUTH_OK, Some x, m2, s3) \<and>
    (\<forall>u < t + ucast (session_ttl_seconds m). fst (auth_validate_bearer_at m2 (Some cl) (Some (''Bearer '' @ sr_token x)) u) = AUTH_OK)"
  by (rule login_lemma [OF assms])

section \<open>The rate limit\<close>

text \<open>C36: The rate limit that five wrong PINs impose can be lifted early: while it lasts a new challenge is
  refused, but presenting the expired challenge for verification erases its slot, rate limit included,
  and the next request for a challenge at the same time succeeds.\<close>
theorem rate_limit_lifted_by_expired_verification:
  assumes "auth_inv m" and "valid_client cl" and "length cid = 32" and "length pin = 6" and "target cl cid i c m"
    and "ch_expires_at c \<le> now" and "now < ch_rate_limited_until c" and "draws_ok s"
  shows "\<exists>m'. fst (auth_create_challenge_at m (Some cl) now s) = AUTH_RATE_LIMITED \<and>
    auth_verify_challenge_at m (Some cl) (Some cid) (Some pin) now s = (AUTH_EXPIRED, None, m', s) \<and>
    fst (auth_create_challenge_at m' (Some cl) now s) = AUTH_OK"
proof -
  have i: "find_index (challenge_matches cid) (challenges m) = Some i" and c: "challenges m ! i = c"
    "ch_client_address c = cl" "\<not> ch_used c" using assms(5) by (simp_all add: target_def)
  from assms(1) have cs: "length (challenges m) = 8" "one_per_client (challenges m)" by (simp_all add: auth_inv_def)
  from find_index_Some [OF i] have f: "i < 8" "ch_occupied c" by (auto simp: cs c challenge_matches_def)
  define m' where "m' = m\<lparr>challenges := (challenges m)[i := clear_challenge]\<rparr>"
  have "list_ex (limits cl now) (challenges m)"
    using f c cs assms(7) by (auto simp: list_ex_length limits_def)
  then have 1: "fst (auth_create_challenge_at m (Some cl) now s) = AUTH_RATE_LIMITED"
    using create_result [OF assms(2,8)] by simp
  have 2: "auth_verify_challenge_at m (Some cl) (Some cid) (Some pin) now s = (AUTH_EXPIRED, None, m', s)"
    using assms(2-4,6) i c by (simp add: auth_verify_challenge_at_def auth_constants Let_def m'_def)
  have other: "\<not> limits cl now (challenges m' ! j)" if "j < 8" for j
    using that f c cs by (cases "j = i") (auto simp: m'_def limits_def one_per_client_def)
  then have "\<not> list_ex (limits cl now) (challenges m')" by (simp add: list_ex_length m'_def cs)
  moreover have "\<not> list_all (\<lambda>c. holds_slot now c \<and> ch_client_address c \<noteq> cl) (challenges m')"
    using f cs by (auto simp: list_all_length m'_def holds_slot_def intro!: exI [of _ i])
  ultimately have "fst (auth_create_challenge_at m' (Some cl) now s) = AUTH_OK"
    using create_result [OF assms(2,8)] by simp
  with 1 2 show ?thesis by blast
qed

section \<open>A concrete login\<close>

definition ex_draws :: os where
  "ex_draws = (mounted [])\<lparr>os_random := [Some (replicate 16 0), Some [1, 0, 0, 0], Some (replicate 32 0)]\<rparr>"

definition ex_client :: string where "ex_client = ''10.0.0.7''"

definition ex_id :: string where "ex_id = hex_encode (replicate 16 0)"

definition ex_token :: string where "ex_token = hex_encode (replicate 32 0)"

definition ex_pin :: string where "ex_pin = ''000001''"

definition ex_fresh :: auth_manager where
  "ex_fresh = \<lparr>pin_ttl_seconds = 120, session_ttl_seconds = 900, challenges = replicate 8 clear_challenge,
     sessions = replicate 4 clear_session\<rparr>"

definition ex_challenge :: auth_challenge where
  "ex_challenge = \<lparr>ch_occupied = True, ch_used = False, ch_attempts = 0, ch_expires_at = 220, ch_rate_limited_until = 0,
     ch_client_address = ex_client, ch_challenge_id = ex_id, ch_pin = ex_pin\<rparr>"

definition ex_open :: auth_manager where
  "ex_open = ex_fresh\<lparr>challenges := ex_challenge # replicate 7 clear_challenge\<rparr>"

definition ex_left :: os where "ex_left = (mounted [])\<lparr>os_random := [Some (replicate 32 0)]\<rparr>"

lemma ex_created: "auth_manager_create 120 900 = Some ex_fresh"
  by (simp add: auth_manager_create_def ex_fresh_def auth_constants)

lemma digit_chars: "char_of (48 :: nat) = CHR ''0''" "char_of (49 :: nat) = CHR ''1''"
  using char_of_char [of "CHR ''0''", where ?'a = nat] char_of_char [of "CHR ''1''", where ?'a = nat] by simp_all

lemma ex_hex: "generate_hex 16 ex_draws = (Some ex_id, ex_draws\<lparr>os_random := [Some [1, 0, 0, 0], Some (replicate 32 0)]\<rparr>)"
  by (simp add: generate_hex_def secure_random_def ex_draws_def ex_id_def auth_constants)

lemma ex_pin_drawn: "generate_pin (ex_draws\<lparr>os_random := [Some [1, 0, 0, 0], Some (replicate 32 0)]\<rparr>) = (Some ex_pin, ex_left)"
  by (simp add: generate_pin.simps secure_random_def ex_draws_def ex_left_def ex_pin_def random_u32_def pin_text_def
      word_nat pin_limit_value Let_def digit_chars)

lemma ex_token_drawn: "generate_hex 32 ex_left = (Some ex_token, mounted [])"
  by (simp add: generate_hex_def secure_random_def ex_left_def ex_token_def auth_constants mounted_def)

lemma ex_valid_client: "valid_client ex_client"
  by (simp add: valid_client_def ex_client_def)

lemma ex_client_c_string: "c_string ex_client"
  by (simp add: c_string_def ex_client_def)

lemma ex_create:
  "auth_create_challenge_at ex_fresh (Some ex_client) 100 ex_draws =
     (AUTH_OK, Some \<lparr>cr_challenge_id = ex_id, cr_pin = ex_pin, cr_expires_in_seconds = 120\<rparr>, ex_open, ex_left)"
proof -
  have r: "(replicate 8 x)[0 := y] = y # replicate 7 x" for x y :: auth_challenge
    by (simp add: numeral_eq_Suc)
  have scan: "scan_challenges ex_client 100 0 None (replicate 8 clear_challenge) = (False, Some 0, replicate 8 clear_challenge)"
    by (subst scan_challenges_free) (simp_all add: list_ex_iff limits_def drop_client_def numeral_eq_Suc)
  show ?thesis
    unfolding auth_create_challenge_at_def
    by (simp add: ex_valid_client auth_constants ex_hex ex_pin_drawn ex_fresh_def cleanup_expired_def scan Let_def
        ex_open_def) (simp add: r clear_challenge_def ex_challenge_def)
qed

lemma ex_inv: "auth_inv ex_fresh" "auth_inv ex_open"
  using auth_inv_create [OF ex_created] auth_inv_create_challenge [OF _ ex_create] by blast+

lemma login_example:
  "\<exists>x m2. auth_verify_challenge_at ex_open (Some ex_client) (Some ex_id) (Some ex_pin) 150 ex_left = (AUTH_OK, Some x, m2, mounted []) \<and>
    (\<forall>u < 150 + 900. fst (auth_validate_bearer_at m2 (Some ex_client) (Some (''Bearer '' @ sr_token x)) u) = AUTH_OK)"
  using login_lemma [OF ex_inv(1) ex_create _ ex_token_drawn, of 150]
  by (simp add: ex_fresh_def ex_open_def ex_challenge_def)

theorem login_works_witness:
  "\<exists>x m2. auth_verify_challenge_at ex_open (Some ex_client) (Some ex_id) (Some ex_pin) 150 ex_left = (AUTH_OK, Some x, m2, mounted []) \<and>
    (\<forall>u < 150 + 900. fst (auth_validate_bearer_at m2 (Some ex_client) (Some (''Bearer '' @ sr_token x)) u) = AUTH_OK)"
  using login_works [OF ex_inv(1) ex_create _ ex_token_drawn, of 150]
  by (simp add: ex_fresh_def ex_open_def ex_challenge_def)

definition ex_granted :: auth_manager where
  "ex_granted = (case auth_verify_challenge_at ex_open (Some ex_client) (Some ex_id) (Some ex_pin) 150 ex_left of (_, _, m, _) \<Rightarrow> m)"

lemma ex_verify:
  "\<exists>x. auth_verify_challenge_at ex_open (Some ex_client) (Some ex_id) (Some ex_pin) 150 ex_left = (AUTH_OK, Some x, ex_granted, mounted []) \<and>
     fst (auth_validate_bearer_at ex_granted (Some ex_client) (Some (''Bearer '' @ sr_token x)) 1000) = AUTH_OK \<and> length (sr_token x) = 64 \<and>
     c_string (sr_token x)"
proof -
  obtain x m2 where v: "auth_verify_challenge_at ex_open (Some ex_client) (Some ex_id) (Some ex_pin) 150 ex_left = (AUTH_OK, Some x, m2, mounted [])"
    "\<forall>u < 150 + 900. fst (auth_validate_bearer_at m2 (Some ex_client) (Some (''Bearer '' @ sr_token x)) u) = AUTH_OK"
    using login_example by blast
  moreover have "sr_token x = ex_token" using v(1) ex_token_drawn
    by (auto simp: auth_verify_challenge_at_def auth_constants Let_def split: if_splits option.splits)
  ultimately show ?thesis by (auto simp: ex_granted_def ex_token_def)
qed

lemma ex_run:
  "\<exists>tr (x :: auth_session_result). auth_run 120 900 tr ex_granted \<and> length (sr_token x) = 64 \<and> c_string (sr_token x) \<and>
     fst (auth_validate_bearer_at ex_granted (Some ex_client) (Some (''Bearer '' @ sr_token x)) 1000) = AUTH_OK"
proof -
  obtain x where x: "auth_verify_challenge_at ex_open (Some ex_client) (Some ex_id) (Some ex_pin) 150 ex_left = (AUTH_OK, Some x, ex_granted, mounted [])"
     "fst (auth_validate_bearer_at ex_granted (Some ex_client) (Some (''Bearer '' @ sr_token x)) 1000) = AUTH_OK"
     "length (sr_token x) = 64" "c_string (sr_token x)"
    using ex_verify by blast
  have "auth_run 120 900 ([] @ [(Create (Some ex_client) 100, Challenge AUTH_OK
      (Some \<lparr>cr_challenge_id = ex_id, cr_pin = ex_pin, cr_expires_in_seconds = 120\<rparr>))]) ex_open"
    by (rule auth_run.call [OF auth_run.start [OF ex_created], where s = ex_draws])
      (simp_all add: ex_create arg_ok_def ex_client_c_string)
  from auth_run.call [OF this, of "Verify (Some ex_client) (Some ex_id) (Some ex_pin) 150" ex_left] x show ?thesis
    by (auto simp: arg_ok_def ex_client_c_string ex_id_def ex_pin_def c_string_Cons)
qed

theorem validate_bearer_sound_witness:
  "\<exists>tr token t. granted 120 tr ex_client token t \<and> 1000 < t + ucast (900 :: u32)"
proof -
  obtain tr and x :: auth_session_result where x: "auth_run 120 900 tr ex_granted" "c_string (''Bearer '' @ sr_token x)"
     "fst (auth_validate_bearer_at ex_granted (Some ex_client) (Some (''Bearer '' @ sr_token x)) 1000) = AUTH_OK"
    using ex_run by (auto simp: c_string_def)
  obtain m' where "auth_validate_bearer_at ex_granted (Some ex_client) (Some (''Bearer '' @ sr_token x)) 1000 = (AUTH_OK, m')"
    using x(3) by (metis fst_conv surj_pair)
  from validate_bearer_sound [OF x(1,2) this] show ?thesis by blast
qed

theorem auth_run_inv_witness: "\<exists>tr. auth_run 120 900 tr ex_granted \<and> auth_inv ex_granted"
  using ex_run auth_run_inv by blast

theorem create_challenge_result_witness:
  "fst (auth_create_challenge_at ex_open (Some ''10.0.0.8'') 110 ex_draws) = AUTH_OK"
proof -
  have "draws_ok ex_draws" using ex_hex ex_pin_drawn by (auto simp: draws_ok_def)
  moreover have "valid_client ''10.0.0.8''" by (simp add: valid_client_def)
  ultimately show ?thesis
    using create_challenge_result [of "''10.0.0.8''" ex_draws ex_open 110]
    by (simp add: ex_open_def ex_challenge_def limits_def holds_slot_def list_ex_iff list_all_iff)
qed

lemma ex_target: "target ex_client ex_id 0 ex_challenge ex_open"
  by (simp add: target_def ex_open_def ex_challenge_def challenge_matches_def constant_time_equal_iff)

theorem wrong_guesses_lock_witness:
  "fst (auth_verify_challenge_at (foldl (guess ex_client ex_id ex_left) ex_open (replicate 5 (''999999'', 130)))
     (Some ex_client) (Some ex_id) (Some ex_pin) 140 ex_left) \<noteq> AUTH_OK"
  by (rule wrong_guesses_lock [OF ex_inv(2) ex_valid_client _ ex_target])
    (simp_all add: ex_id_def ex_challenge_def wrong_def c_string_def ex_pin_def)

definition ex_locked :: auth_manager where
  "ex_locked = ex_fresh\<lparr>challenges := ex_challenge\<lparr>ch_attempts := 5, ch_pin := [], ch_rate_limited_until := 249\<rparr> #
     replicate 7 clear_challenge\<rparr>"

lemma ex_locked_inv: "auth_inv ex_locked"
proof -
  have "hex_text 32 ex_id" using generate_hex_text [OF ex_hex] by simp
  then show ?thesis
    by (auto simp: auth_inv_def ex_locked_def ex_fresh_def ex_challenge_def challenge_ok_def one_per_client_def ex_valid_client
      list_all_iff nth_Cons numeral_eq_Suc split: nat.splits)
qed

theorem rate_limit_lifted_by_expired_verification_witness:
  "\<exists>m'. fst (auth_create_challenge_at ex_locked (Some ex_client) 220 ex_draws) = AUTH_RATE_LIMITED \<and>
    auth_verify_challenge_at ex_locked (Some ex_client) (Some ex_id) (Some ''000000'') 220 ex_draws = (AUTH_EXPIRED, None, m', ex_draws) \<and>
    fst (auth_create_challenge_at m' (Some ex_client) 220 ex_draws) = AUTH_OK"
proof (rule rate_limit_lifted_by_expired_verification [OF ex_locked_inv ex_valid_client])
  show "target ex_client ex_id 0 (ex_challenge\<lparr>ch_attempts := 5, ch_pin := [], ch_rate_limited_until := 249\<rparr>) ex_locked"
    by (simp add: target_def ex_locked_def ex_challenge_def challenge_matches_def constant_time_equal_iff)
  show "draws_ok ex_draws" using ex_hex ex_pin_drawn by (auto simp: draws_ok_def)
qed (simp_all add: ex_id_def ex_challenge_def)

end
