(* ===== verification/AuthJson.thy ===== *)
theory AuthJson
  imports Auth
begin

text \<open>
  The request body of a PIN verification: \<open>auth_parse_verify_json\<close> of \<^verbatim>\<open>src/src/auth.c\<close>, a scanner over a
  byte buffer of known length.  A cursor is the rest of the buffer; a scanning function returns the
  rest after what it read, or \<open>None\<close> where the code returns -1.  The theory proves that the parser
  accepts exactly the objects with one \<open>challengeId\<close> and one \<open>pin\<close> in either order.
\<close>

section \<open>The scanner\<close>

definition json_space :: "byte \<Rightarrow> bool" where
  "json_space b \<longleftrightarrow> b = 0x20 \<or> b = 0x09 \<or> b = 0x0a \<or> b = 0x0d"

definition skip_space :: "byte list \<Rightarrow> byte list" where
  "skip_space cursor = dropWhile json_space cursor"

fun expect :: "byte \<Rightarrow> byte list \<Rightarrow> byte list option" where
  "expect c [] = None"
| "expect c (b # cursor) = (if b = c then Some cursor else None)"

fun literal_chars :: "nat \<Rightarrow> string \<Rightarrow> byte list \<Rightarrow> (string \<times> byte list) option" where
  "literal_chars capacity output [] = None"
| "literal_chars capacity output (b # cursor) =
     (if b = 0x22 then Some (output, cursor)
      else if b < 0x20 \<or> b = 0x5c \<or> capacity \<le> length output + 1 then None
      else literal_chars capacity (output @ [char_of (unat b)]) cursor)"

definition parse_literal_string :: "nat \<Rightarrow> byte list \<Rightarrow> (string \<times> byte list) option" where
  "parse_literal_string capacity cursor = do { cursor \<leftarrow> expect 0x22 cursor; literal_chars capacity [] cursor }"

section \<open>The request body\<close>

record verify_fields =
  vf_challenge_id :: string
  vf_pin :: string
  vf_seen_id :: bool
  vf_seen_pin :: bool

text \<open>One key and its value, from the key's opening quote to the byte after the value.\<close>

definition verify_member :: "verify_fields \<Rightarrow> byte list \<Rightarrow> (verify_fields \<times> byte list) option" where
  "verify_member v cursor = do {
     (key, cursor) \<leftarrow> parse_literal_string 16 cursor;
     cursor \<leftarrow> expect 0x3a (skip_space cursor);
     (content, cursor) \<leftarrow> parse_literal_string (AUTH_CHALLENGE_ID_HEX_BYTES + 1) (skip_space cursor);
     if key = ''challengeId'' \<and> \<not> vf_seen_id v \<and> length content = AUTH_CHALLENGE_ID_HEX_BYTES
     then Some (v\<lparr>vf_challenge_id := content, vf_seen_id := True\<rparr>, cursor)
     else if key = ''pin'' \<and> \<not> vf_seen_pin v \<and> length content = AUTH_PIN_DIGITS
     then (if list_all isdigit content then Some (v\<lparr>vf_pin := content, vf_seen_pin := True\<rparr>, cursor) else None)
     else None }"

lemma expect_length: "expect c s = Some t \<Longrightarrow> length t < length s"
  by (cases s) (auto split: if_splits)

lemma skip_space_length: "length (skip_space s) \<le> length s"
  by (simp add: skip_space_def length_dropWhile_le)

lemma literal_chars_length: "literal_chars n out s = Some (t, r) \<Longrightarrow> length r < length s"
  by (induction n out s rule: literal_chars.induct) (auto split: if_splits)

lemma parse_literal_string_length: "parse_literal_string n s = Some (t, r) \<Longrightarrow> length r < length s"
  by (auto simp: parse_literal_string_def split: Option.bind_splits dest!: expect_length literal_chars_length)

lemma verify_member_length:
  assumes "verify_member v s = Some (v', r)"
  shows "length r < length s"
proof -
  obtain key s1 s2 content s3 where 1: "parse_literal_string 16 s = Some (key, s1)" "expect 0x3a (skip_space s1) = Some s2"
    "parse_literal_string (AUTH_CHALLENGE_ID_HEX_BYTES + 1) (skip_space s2) = Some (content, s3)" "r = s3"
    using assms by (auto simp: verify_member_def split: Option.bind_splits if_splits)
  show ?thesis
    using parse_literal_string_length [OF 1(1)] expect_length [OF 1(2)] parse_literal_string_length [OF 1(3)]
      skip_space_length [of s1] skip_space_length [of s2] 1(4) by simp
qed

text \<open>The loop over the members; the last branch stands for the two exits and the error after a value.\<close>

function verify_members :: "verify_fields \<Rightarrow> byte list \<Rightarrow> (verify_fields \<times> byte list) option" where
  "verify_members v cursor =
     (let cursor = skip_space cursor
      in if cursor \<noteq> [] \<and> hd cursor = 0x7d then Some (v, tl cursor)
         else case verify_member v cursor of
             None \<Rightarrow> None
           | Some (v, cursor) \<Rightarrow>
               (case skip_space cursor of
                  [] \<Rightarrow> None
                | b # rest \<Rightarrow>
                    (if b = 0x2c
                     then (if skip_space rest = [] \<or> hd (skip_space rest) = 0x7d then None
                           else verify_members v (skip_space rest))
                     else if b = 0x7d then Some (v, rest) else None)))"
  by pat_completeness auto
termination
proof (relation "measure (length \<circ> snd)", goal_cases)
  case (2 v cursor s p v' r b rest)
  have "verify_member v s = Some (v', r)" using 2 by simp
  then have "length r < length s" by (rule verify_member_length)
  moreover have "length (b # rest) \<le> length r" using 2 skip_space_length [of r] by simp
  ultimately show ?case using 2(1) skip_space_length [of rest] skip_space_length [of cursor] by simp
qed simp

declare verify_members.simps [simp del]

definition auth_parse_verify_json :: "byte list option \<Rightarrow> (string \<times> string) option" where
  "auth_parse_verify_json body =
     (case body of
        None \<Rightarrow> None
      | Some [] \<Rightarrow> None
      | Some cursor \<Rightarrow> do {
          cursor \<leftarrow> expect 0x7b (skip_space cursor);
          (v, cursor) \<leftarrow> verify_members \<lparr>vf_challenge_id = [], vf_pin = [], vf_seen_id = False, vf_seen_pin = False\<rparr> cursor;
          if skip_space cursor = [] \<and> vf_seen_id v \<and> vf_seen_pin v then Some (vf_challenge_id v, vf_pin v) else None })"

section \<open>What the scanner reads\<close>

definition blank :: "byte list \<Rightarrow> bool" where
  "blank w \<longleftrightarrow> list_all json_space w"

definition plain :: "string \<Rightarrow> bool" where
  "plain s \<longleftrightarrow> list_all (\<lambda>c. 0x20 \<le> code c \<and> code c \<noteq> 0x22 \<and> code c \<noteq> 0x5c) s"

definition quoted :: "string \<Rightarrow> byte list" where
  "quoted s = 0x22 # map uchar s @ [0x22]"

lemma skip_space_split: "\<exists>w. blank w \<and> s = w @ skip_space s"
  by (intro exI [of _ "takeWhile json_space s"]) (auto simp: blank_def skip_space_def list_all_iff dest: set_takeWhileD)

lemma skip_space_blank: "blank w \<Longrightarrow> \<not> json_space b \<Longrightarrow> skip_space (w @ b # s) = b # s"
  by (auto simp: skip_space_def blank_def dropWhile_append list_all_iff)

lemma skip_space_empty: "skip_space s = [] \<longleftrightarrow> blank s"
  by (auto simp: skip_space_def blank_def list_all_iff)

lemma uchar_eq_word: "uchar c = 0x22 \<longleftrightarrow> code c = 0x22" "uchar c = 0x5c \<longleftrightarrow> code c = 0x5c"
  "uchar c < 0x20 \<longleftrightarrow> code c < 0x20"
  by (simp_all add: uchar_code word_nat word_eq_unat)

lemma literal_chars_quoted:
  "plain s \<Longrightarrow> length out + length s < n \<Longrightarrow> literal_chars n out (map uchar s @ 0x22 # r) = Some (out @ s, r)"
proof (induction s arbitrary: out)
  case (Cons c s)
  have "char_of (unat (uchar c)) = c" by (simp add: uchar_code)
  with Cons show ?case by (auto simp: plain_def uchar_eq_word)
qed simp

lemma literal_chars_Some:
  "literal_chars n out s = Some (t, r) \<Longrightarrow> length out < n \<Longrightarrow>
   \<exists>u. t = out @ u \<and> plain u \<and> length t < n \<and> s = map uchar u @ 0x22 # r"
proof (induction n out s rule: literal_chars.induct)
  case (2 n out b s)
  show ?case
  proof (cases "b = 0x22")
    case True
    with 2 show ?thesis by (auto simp: plain_def)
  next
    case False
    with 2 obtain u where u: "t = (out @ [char_of (unat b)]) @ u" "plain u" "length t < n" "s = map uchar u @ 0x22 # r"
      "\<not> b < 0x20" "b \<noteq> 0x5c"
      by (auto split: if_splits)
    then show ?thesis using False
      by (intro exI [of _ "char_of (unat b) # u"])
        (auto simp: plain_def word_nat word_eq_unat simp del: of_char_of)
  qed
qed simp

lemma parse_literal_string_iff:
  "0 < n \<Longrightarrow> parse_literal_string n s = Some (t, r) \<longleftrightarrow> plain t \<and> length t < n \<and> s = quoted t @ r"
  using literal_chars_Some [of n "[]"] literal_chars_quoted [of t "[]" n r]
  by (cases s) (auto simp: parse_literal_string_def quoted_def)

lemma expect_iff: "expect c s = Some t \<longleftrightarrow> s = c # t"
  by (cases s) auto

section \<open>The accepted texts\<close>

definition member_text :: "byte list \<Rightarrow> string \<Rightarrow> byte list \<Rightarrow> byte list \<Rightarrow> string \<Rightarrow> byte list" where
  "member_text w1 key w2 w3 content = w1 @ quoted key @ w2 @ 0x3a # w3 @ quoted content"

definition member_of :: "string \<Rightarrow> string \<Rightarrow> byte list \<Rightarrow> bool" where
  "member_of key content m \<longleftrightarrow> (\<exists>w1 w2 w3. blank w1 \<and> blank w2 \<and> blank w3 \<and> m = member_text w1 key w2 w3 content)"

definition id_ok :: "string \<Rightarrow> bool" where
  "id_ok s \<longleftrightarrow> length s = 32 \<and> plain s"

definition pin_text_ok :: "string \<Rightarrow> bool" where
  "pin_text_ok s \<longleftrightarrow> length s = 6 \<and> list_all isdigit s"

lemma pin_text_plain: "pin_text_ok s \<Longrightarrow> plain s"
  by (auto simp: pin_text_ok_def plain_def list_all_iff isdigit_def)

definition verify_update :: "verify_fields \<Rightarrow> string \<Rightarrow> string \<Rightarrow> verify_fields option" where
  "verify_update v key content =
     (if key = ''challengeId'' \<and> \<not> vf_seen_id v \<and> id_ok content
      then Some (v\<lparr>vf_challenge_id := content, vf_seen_id := True\<rparr>)
      else if key = ''pin'' \<and> \<not> vf_seen_pin v \<and> pin_text_ok content
      then Some (v\<lparr>vf_pin := content, vf_seen_pin := True\<rparr>)
      else None)"

lemma not_space [simp]: "\<not> json_space 0x22" "\<not> json_space 0x3a" "\<not> json_space 0x2c" "\<not> json_space 0x7d" "\<not> json_space 0x7b"
  by (simp_all add: json_space_def)

lemma blank_cases: "skip_space s = t \<longleftrightarrow> (\<exists>w. blank w \<and> s = w @ t) \<and> (t = [] \<or> \<not> json_space (hd t))"
proof
  assume "skip_space s = t"
  then show "(\<exists>w. blank w \<and> s = w @ t) \<and> (t = [] \<or> \<not> json_space (hd t))"
    using skip_space_split [of s] hd_dropWhile [of json_space s] by (auto simp: skip_space_def)
next
  assume "(\<exists>w. blank w \<and> s = w @ t) \<and> (t = [] \<or> \<not> json_space (hd t))"
  then show "skip_space s = t" using skip_space_blank skip_space_empty by (cases t) auto
qed

text \<open>One member, read from its first quote.\<close>

lemma verify_member_iff:
  "verify_member v s = Some (v', r) \<longleftrightarrow>
   (\<exists>key w2 w3 content. blank w2 \<and> blank w3 \<and> s = member_text [] key w2 w3 content @ r \<and> verify_update v key content = Some v')"
  (is "?l \<longleftrightarrow> ?r")
proof
  assume l: ?l
  from l obtain key s1 s2 content where 1: "parse_literal_string 16 s = Some (key, s1)" "expect 0x3a (skip_space s1) = Some s2"
    "parse_literal_string 33 (skip_space s2) = Some (content, r)"
    and u: "(if key = ''challengeId'' \<and> \<not> vf_seen_id v \<and> length content = 32
     then Some (v\<lparr>vf_challenge_id := content, vf_seen_id := True\<rparr>)
     else if key = ''pin'' \<and> \<not> vf_seen_pin v \<and> length content = 6
     then (if list_all isdigit content then Some (v\<lparr>vf_pin := content, vf_seen_pin := True\<rparr>) else None)
     else None) = Some v'"
    by (auto simp: verify_member_def auth_constants split: Option.bind_splits if_splits)
  note p = parse_literal_string_iff [THEN iffD1, OF _ 1(1)] parse_literal_string_iff [THEN iffD1, OF _ 1(3)]
  from p have k: "s = quoted key @ s1" and c: "skip_space s2 = quoted content @ r" "plain content" by simp_all
  from 1(2) have "skip_space s1 = 0x3a # s2" by (simp add: expect_iff)
  then obtain w2 where w2: "blank w2" "s1 = w2 @ 0x3a # s2" by (auto simp: blank_cases)
  from c(1) obtain w3 where w3: "blank w3" "s2 = w3 @ quoted content @ r" by (auto simp: blank_cases)
  have "verify_update v key content = Some v'"
    using u c(2) by (auto simp: verify_update_def id_ok_def pin_text_ok_def split: if_splits)
  with k w2 w3 show ?r
    by (intro exI [of _ key] exI [of _ w2] exI [of _ w3] exI [of _ content]) (simp add: member_text_def)
next
  assume ?r
  then obtain key w2 w3 content where w: "blank w2" "blank w3" and s: "s = member_text [] key w2 w3 content @ r"
    and u: "verify_update v key content = Some v'" by blast
  have key: "plain key" "length key < 16" using u by (auto simp: verify_update_def plain_def split: if_splits)
  have content: "plain content" "length content < 33"
    using u pin_text_plain by (auto simp: verify_update_def id_ok_def pin_text_ok_def split: if_splits)
  have 1: "parse_literal_string 16 s = Some (key, w2 @ 0x3a # w3 @ quoted content @ r)"
    using key by (simp add: parse_literal_string_iff s member_text_def)
  have 2: "skip_space (w2 @ 0x3a # w3 @ quoted content @ r) = 0x3a # w3 @ quoted content @ r"
    using w(1) by (simp add: skip_space_blank)
  have 3: "skip_space (w3 @ quoted content @ r) = quoted content @ r"
    using w(2) by (simp add: skip_space_blank quoted_def)
  have 4: "parse_literal_string 33 (quoted content @ r) = Some (content, r)"
    using content by (simp add: parse_literal_string_iff)
  from u show ?l
    by (auto simp: verify_member_def 1 2 3 4 auth_constants verify_update_def id_ok_def pin_text_ok_def split: if_splits)
qed

lemma verify_members_step:
  assumes "skip_space s \<noteq> []" and "hd (skip_space s) \<noteq> 0x7d"
  shows "verify_members v s = Some (v'', rest) \<longleftrightarrow>
    (\<exists>v' w r. verify_member v (skip_space s) = Some (v', w @ r) \<and> blank w \<and>
       (r = 0x7d # rest \<and> v'' = v' \<or>
        (\<exists>t. r = 0x2c # t \<and> skip_space t \<noteq> [] \<and> hd (skip_space t) \<noteq> 0x7d \<and> verify_members v' (skip_space t) = Some (v'', rest))))"
  (is "?l \<longleftrightarrow> ?r")
proof
  assume ?l
  then obtain v' r where v': "verify_member v (skip_space s) = Some (v', r)" and
    k: "(case skip_space r of [] \<Rightarrow> None
         | b # rest \<Rightarrow> (if b = 0x2c then (if skip_space rest = [] \<or> hd (skip_space rest) = 0x7d then None
              else verify_members v' (skip_space rest)) else if b = 0x7d then Some (v', rest) else None)) = Some (v'', rest)"
    using assms by (subst (asm) verify_members.simps) (auto simp: Let_def split: option.splits)
  obtain w where w: "blank w" "r = w @ skip_space r" using skip_space_split by blast
  show ?r
  proof (cases "skip_space r")
    case (Cons b t)
    with v' k w show ?thesis
      by (intro exI [of _ v'] exI [of _ w] exI [of _ "b # t"]) (auto split: if_splits)
  qed (use k in simp)
next
  assume ?r
  then obtain v' w r where v': "verify_member v (skip_space s) = Some (v', w @ r)" "blank w" and
    r: "r = 0x7d # rest \<and> v'' = v' \<or>
        (\<exists>t. r = 0x2c # t \<and> skip_space t \<noteq> [] \<and> hd (skip_space t) \<noteq> 0x7d \<and> verify_members v' (skip_space t) = Some (v'', rest))"
    by blast
  then have "skip_space (w @ r) = r" by (auto simp: skip_space_blank)
  then show ?l
    using assms v' r by (subst verify_members.simps) (auto simp: Let_def)
qed

definition starts :: "byte list \<Rightarrow> bool" where
  "starts s \<longleftrightarrow> skip_space s \<noteq> [] \<and> hd (skip_space s) \<noteq> 0x7d"

lemma skip_space_idem [simp]: "skip_space (skip_space s) = skip_space s"
  by (simp add: skip_space_def)

lemma verify_members_skip: "verify_members v (skip_space s) = verify_members v s"
  by (subst (1 2) verify_members.simps) simp

lemma skip_member: "blank w1 \<Longrightarrow> skip_space (member_text w1 key w2 w3 content @ r) = member_text [] key w2 w3 content @ r"
  by (simp add: member_text_def quoted_def skip_space_blank)

lemma starts_member: "member_of key content m \<Longrightarrow> starts (m @ r)"
  by (auto simp: starts_def member_of_def skip_member) (simp_all add: member_text_def quoted_def)

lemma members_iff:
  assumes "starts s"
  shows "verify_members v s = Some (v'', rest) \<longleftrightarrow>
    (\<exists>key content m w r v'. s = m @ w @ r \<and> member_of key content m \<and> blank w \<and> verify_update v key content = Some v' \<and>
       (r = 0x7d # rest \<and> v'' = v' \<or> (\<exists>t. r = 0x2c # t \<and> starts t \<and> verify_members v' t = Some (v'', rest))))"
  (is "?l \<longleftrightarrow> ?r")
proof
  assume ?l
  with assms obtain v' w r where v': "verify_member v (skip_space s) = Some (v', w @ r)" "blank w" and
    r: "r = 0x7d # rest \<and> v'' = v' \<or> (\<exists>t. r = 0x2c # t \<and> starts t \<and> verify_members v' t = Some (v'', rest))"
    by (auto simp: starts_def verify_members_step verify_members_skip)
  then obtain key w2 w3 content where m: "blank w2" "blank w3" "skip_space s = member_text [] key w2 w3 content @ w @ r"
    "verify_update v key content = Some v'"
    by (auto simp: verify_member_iff)
  obtain w1 where "blank w1" "s = w1 @ skip_space s" using skip_space_split by blast
  with m have "s = member_text w1 key w2 w3 content @ w @ r" "member_of key content (member_text w1 key w2 w3 content)"
    by (auto simp: member_text_def member_of_def)
  with m(4) v'(2) r show ?r by blast
next
  assume ?r
  then obtain key content m w r v' where s: "s = m @ w @ r" "member_of key content m" "blank w" "verify_update v key content = Some v'"
    and r: "r = 0x7d # rest \<and> v'' = v' \<or> (\<exists>t. r = 0x2c # t \<and> starts t \<and> verify_members v' t = Some (v'', rest))"
    by blast
  from s(2) obtain w1 w2 w3 where w: "blank w1" "blank w2" "blank w3" "m = member_text w1 key w2 w3 content"
    by (auto simp: member_of_def)
  have "verify_member v (skip_space s) = Some (v', w @ r)"
    using w s(4) by (auto simp: s(1) skip_member verify_member_iff)
  with s(3) r assms show ?l by (auto simp: starts_def verify_members_step verify_members_skip)
qed

lemma members_closed: "\<not> starts s \<Longrightarrow> verify_members v s = Some (v'', rest) \<Longrightarrow> v'' = v"
  by (subst (asm) verify_members.simps)
    (auto simp: starts_def Let_def verify_member_def parse_literal_string_def split: if_splits option.splits)

lemma verify_update_full: "vf_seen_id v \<Longrightarrow> vf_seen_pin v \<Longrightarrow> verify_update v key content = None"
  by (simp add: verify_update_def)

text \<open>The member that is still missing, with nothing after it but the closing brace.\<close>

lemma last_member:
  assumes "starts s" and "vf_seen_id v \<noteq> vf_seen_pin v"
  shows "verify_members v s = Some (v'', rest) \<and> vf_seen_id v'' \<and> vf_seen_pin v'' \<longleftrightarrow>
    (\<exists>key content m w. s = m @ w @ 0x7d # rest \<and> member_of key content m \<and> blank w \<and> verify_update v key content = Some v'')"
proof -
  have full: "vf_seen_id v' \<and> vf_seen_pin v'" if "verify_update v key content = Some v'" for key content v'
    using that assms(2) by (auto simp: verify_update_def split: if_splits)
  have none: "verify_members v' t \<noteq> Some (v'', rest)" if "verify_update v key content = Some v'" "starts t" for key content v' t
    using members_iff [OF that(2)] full [OF that(1)] by (auto simp: verify_update_full)
  show ?thesis
    unfolding members_iff [OF assms(1)] using full none by metis
qed

definition both_members :: "string \<Rightarrow> string \<Rightarrow> byte list \<Rightarrow> byte list \<Rightarrow> bool" where
  "both_members cid pin m1 m2 \<longleftrightarrow>
     member_of ''challengeId'' cid m1 \<and> member_of ''pin'' pin m2 \<or> member_of ''pin'' pin m1 \<and> member_of ''challengeId'' cid m2"

abbreviation no_fields :: verify_fields where
  "no_fields \<equiv> \<lparr>vf_challenge_id = [], vf_pin = [], vf_seen_id = False, vf_seen_pin = False\<rparr>"

lemma two_members:
  "(\<exists>v. verify_members no_fields s = Some (v, rest) \<and> vf_seen_id v \<and> vf_seen_pin v \<and> vf_challenge_id v = cid \<and> vf_pin v = pin) \<longleftrightarrow>
   id_ok cid \<and> pin_text_ok pin \<and>
   (\<exists>m1 w1 m2 w2. s = m1 @ w1 @ 0x2c # m2 @ w2 @ 0x7d # rest \<and> blank w1 \<and> blank w2 \<and> both_members cid pin m1 m2)"
  (is "?l \<longleftrightarrow> ?r")
proof
  assume ?l
  then obtain v where v: "verify_members no_fields s = Some (v, rest)" "vf_seen_id v" "vf_seen_pin v" "vf_challenge_id v = cid" "vf_pin v = pin"
    by blast
  have "starts s" using members_closed [OF _ v(1)] v(2) by (cases "starts s") auto
  from v(1) [unfolded members_iff [OF this]] obtain k1 c1 m1 w1 r v1 where 1: "s = m1 @ w1 @ r" "member_of k1 c1 m1" "blank w1"
    "verify_update no_fields k1 c1 = Some v1"
    and r: "r = 0x7d # rest \<and> v = v1 \<or> (\<exists>t. r = 0x2c # t \<and> starts t \<and> verify_members v1 t = Some (v, rest))"
    by blast
  have one: "vf_seen_id v1 \<noteq> vf_seen_pin v1" using 1(4) by (auto simp: verify_update_def split: if_splits)
  with r v(2,3) obtain t where t: "r = 0x2c # t" "starts t" "verify_members v1 t = Some (v, rest)" by auto
  from last_member [OF t(2) one, THEN iffD1, of v rest] t(3) v(2,3) obtain k2 c2 m2 w2 where
    2: "t = m2 @ w2 @ 0x7d # rest" "member_of k2 c2 m2" "blank w2" "verify_update v1 k2 c2 = Some v" by blast
  have "id_ok cid \<and> pin_text_ok pin \<and>
      (k1 = ''challengeId'' \<and> c1 = cid \<and> k2 = ''pin'' \<and> c2 = pin \<or> k1 = ''pin'' \<and> c1 = pin \<and> k2 = ''challengeId'' \<and> c2 = cid)"
    using 1(4) 2(4) v(4,5) by (auto simp: verify_update_def split: if_splits)
  with 1 2 t(1) show ?r unfolding both_members_def by blast
next
  assume ?r
  then obtain m1 w1 m2 w2 where s: "s = m1 @ w1 @ 0x2c # m2 @ w2 @ 0x7d # rest" "blank w1" "blank w2" "both_members cid pin m1 m2"
    and ok: "id_ok cid" "pin_text_ok pin" by blast
  define full where "full = \<lparr>vf_challenge_id = cid, vf_pin = pin, vf_seen_id = True, vf_seen_pin = True\<rparr>"
  obtain k1 c1 k2 c2 v1 where k: "member_of k1 c1 m1" "member_of k2 c2 m2" "verify_update no_fields k1 c1 = Some v1"
    "verify_update v1 k2 c2 = Some full" "vf_seen_id v1 \<noteq> vf_seen_pin v1"
  proof -
    consider "member_of ''challengeId'' cid m1" "member_of ''pin'' pin m2" | "member_of ''pin'' pin m1" "member_of ''challengeId'' cid m2"
      using s(4) by (auto simp: both_members_def)
    then show thesis
    proof cases
      case 1
      then show ?thesis using ok
        by (intro that [of "''challengeId''" cid "''pin''" pin "no_fields\<lparr>vf_challenge_id := cid, vf_seen_id := True\<rparr>"])
          (auto simp: verify_update_def full_def)
    next
      case 2
      then show ?thesis using ok
        by (intro that [of "''pin''" pin "''challengeId''" cid "no_fields\<lparr>vf_pin := pin, vf_seen_pin := True\<rparr>"])
          (auto simp: verify_update_def full_def)
    qed
  qed
  have st: "starts s" "starts (m2 @ w2 @ 0x7d # rest)" using k(1,2) starts_member by (auto simp: s(1))
  have "verify_members v1 (m2 @ w2 @ 0x7d # rest) = Some (full, rest)"
    using last_member [OF st(2) k(5), of full rest] k(2,4) s(3) by (auto simp: full_def)
  then have "verify_members no_fields s = Some (full, rest)"
    unfolding members_iff [OF st(1)] using s k st(2) by blast
  then show ?l by (auto simp: full_def)
qed

text \<open>C35: The request body is accepted if and only if it is one JSON object with exactly the members
  'challengeId', a text of 32 bytes without quotes, escapes and control bytes, and 'pin', six digits, in
  either order and with any white space between tokens; and then these two texts are the result.\<close>
theorem auth_parse_verify_json_iff:
  "auth_parse_verify_json (Some body) = Some (cid, pin) \<longleftrightarrow>
   id_ok cid \<and> pin_text_ok pin \<and>
   (\<exists>w0 m1 w1 m2 w2 w3. body = w0 @ 0x7b # m1 @ w1 @ 0x2c # m2 @ w2 @ 0x7d # w3 \<and>
      blank w0 \<and> blank w1 \<and> blank w2 \<and> blank w3 \<and> both_members cid pin m1 m2)"
proof -
  have "auth_parse_verify_json (Some body) = Some (cid, pin) \<longleftrightarrow>
    (\<exists>s rest. skip_space body = 0x7b # s \<and> blank rest \<and>
       (\<exists>v. verify_members no_fields s = Some (v, rest) \<and> vf_seen_id v \<and> vf_seen_pin v \<and> vf_challenge_id v = cid \<and> vf_pin v = pin))"
    by (cases body)
      (auto simp: auth_parse_verify_json_def expect_iff skip_space_empty skip_space_def [of "[]"] split: Option.bind_splits if_splits)
  also have "\<dots> \<longleftrightarrow> id_ok cid \<and> pin_text_ok pin \<and>
    (\<exists>s rest m1 w1 m2 w2. skip_space body = 0x7b # s \<and> blank rest \<and> s = m1 @ w1 @ 0x2c # m2 @ w2 @ 0x7d # rest \<and>
       blank w1 \<and> blank w2 \<and> both_members cid pin m1 m2)"
    unfolding two_members by blast
  also have "\<dots> \<longleftrightarrow> id_ok cid \<and> pin_text_ok pin \<and>
    (\<exists>w0 m1 w1 m2 w2 w3. body = w0 @ 0x7b # m1 @ w1 @ 0x2c # m2 @ w2 @ 0x7d # w3 \<and>
      blank w0 \<and> blank w1 \<and> blank w2 \<and> blank w3 \<and> both_members cid pin m1 m2)"
    by (auto simp: blank_cases) blast+
  finally show ?thesis .
qed

end
