(* ===== verification/Config.thy ===== *)
theory Config
  imports Prelude FileSys
begin

text \<open>
  \<^verbatim>\<open>src/src/config.c\<close>: the settings, their validation, the reader of \<open>config.ini\<close> and its writer.  The fixed
  array of storage targets with its count is the list of its used entries.  An error message that the
  code stores is a string in the result; the settings a failing call leaves behind are kept too.
\<close>

section \<open>Constants and data\<close>

definition CONFIG_LINE_CAPACITY :: nat where "CONFIG_LINE_CAPACITY = 2048"
definition CONFIG_DESTINATION_CAPACITY :: nat where "CONFIG_DESTINATION_CAPACITY = 1024"
definition CONFIG_STORAGE_TARGETS_MAX :: nat where "CONFIG_STORAGE_TARGETS_MAX = 8"
definition CONFIG_STORAGE_ID_CAPACITY :: nat where "CONFIG_STORAGE_ID_CAPACITY = 32"
definition CONFIG_STORAGE_LABEL_CAPACITY :: nat where "CONFIG_STORAGE_LABEL_CAPACITY = 96"

lemmas config_constants =
  CONFIG_LINE_CAPACITY_def CONFIG_DESTINATION_CAPACITY_def CONFIG_STORAGE_TARGETS_MAX_def
  CONFIG_STORAGE_ID_CAPACITY_def CONFIG_STORAGE_LABEL_CAPACITY_def

record config_storage_target =
  st_id :: string
  st_label :: string
  st_path :: string

datatype config_auth_mode = CONFIG_AUTH_PIN | CONFIG_AUTH_NONE

datatype config_language = CONFIG_LANGUAGE_EN | CONFIG_LANGUAGE_RU

record app_config =
  port :: u16
  auth_mode :: config_auth_mode
  language :: config_language
  cfg_pin_ttl_seconds :: u32
  cfg_session_ttl_seconds :: u32
  destination :: string
  internal_destination :: string
  usb_destination :: string
  storage_targets :: "config_storage_target list"
  max_file_bytes :: u64
  max_files_per_session :: u32

datatype config_load_result = CONFIG_LOAD_OK | CONFIG_LOAD_NOT_FOUND | CONFIG_LOAD_INVALID | CONFIG_LOAD_IO_ERROR

section \<open>Validation\<close>

definition parse_u64 :: "string \<Rightarrow> u64 \<Rightarrow> u64 \<Rightarrow> u64 option" where
  "parse_u64 text minimum maximum =
     (if text = [] \<or> hd text = CHR ''-'' \<or> hd text = CHR ''+'' then None
      else case strtoull text of
          (parsed, rest, range_error) \<Rightarrow>
            (if range_error \<or> rest = text \<or> rest \<noteq> [] \<or> parsed < minimum \<or> maximum < parsed then None
             else Some parsed))"

definition blocked_roots :: "string list" where
  "blocked_roots = [''/dev'', ''/proc'', ''/sys'']"

definition below_root :: "string \<Rightarrow> string \<Rightarrow> bool" where
  "below_root root path \<longleftrightarrow> take (length root) path = root \<and>
     (drop (length root) path = [] \<or> hd (drop (length root) path) = CHR ''/'')"

definition path_char :: "char \<Rightarrow> bool" where
  "path_char c \<longleftrightarrow> \<not> (code c < 0x20 \<or> code c = 0x7f \<or> code c = 92 \<or> code c = 34)"

definition segment_ok :: "string \<Rightarrow> bool" where
  "segment_ok segment \<longleftrightarrow> \<not> (segment = [] \<or> segment = ''.'' \<or> segment = ''..'')"

text \<open>The loop over the segments; \<open>segment\<close> is the text since the last slash.\<close>

fun segments_ok :: "string \<Rightarrow> string \<Rightarrow> bool" where
  "segments_ok segment [] = segment_ok segment"
| "segments_ok segment (c # cs) =
     (if c = CHR ''/'' then segment_ok segment \<and> segments_ok [] cs else segments_ok (segment @ [c]) cs)"

definition destination_syntax_is_safe :: "string \<Rightarrow> bool" where
  "destination_syntax_is_safe path \<longleftrightarrow>
     (if path = [] \<or> hd path \<noteq> CHR ''/'' \<or> tl path = [] then False
      else if list_ex (\<lambda>root. below_root root path) blocked_roots then False
      else if \<not> list_all path_char path then False
      else segments_ok [] (tl path))"

definition destination_is_safe_for_root :: "string \<Rightarrow> string \<Rightarrow> bool" where
  "destination_is_safe_for_root path root \<longleftrightarrow>
     destination_syntax_is_safe path \<and> take (length root) path = root \<and>
     char_at path (length root) = CHR ''/'' \<and> char_at path (length root + 1) \<noteq> NUL"

definition destination_is_safe :: "string \<Rightarrow> bool" where
  "destination_is_safe path = destination_syntax_is_safe path"

definition auth_mode_name :: "config_auth_mode \<Rightarrow> string" where
  "auth_mode_name mode = (if mode = CONFIG_AUTH_NONE then ''none'' else ''pin'')"

definition language_name :: "config_language \<Rightarrow> string" where
  "language_name l = (if l = CONFIG_LANGUAGE_RU then ''ru'' else ''en'')"

definition storage_by_id :: "app_config \<Rightarrow> string \<Rightarrow> config_storage_target option" where
  "storage_by_id config target_id = find (\<lambda>t. st_id t = target_id) (storage_targets config)"

definition storage_by_path :: "app_config \<Rightarrow> string \<Rightarrow> config_storage_target option" where
  "storage_by_path config path = find (\<lambda>t. st_path t = path) (storage_targets config)"

definition storage_id_is_safe :: "string \<Rightarrow> bool" where
  "storage_id_is_safe s \<longleftrightarrow>
     (if length s = 0 \<or> CONFIG_STORAGE_ID_CAPACITY \<le> length s then False
      else list_all (\<lambda>c. isalnum c \<or> c = CHR ''_'' \<or> c = CHR ''-'') s)"

definition storage_label_is_safe :: "string \<Rightarrow> bool" where
  "storage_label_is_safe s \<longleftrightarrow>
     (if length s = 0 \<or> CONFIG_STORAGE_LABEL_CAPACITY \<le> length s then False
      else list_all (\<lambda>c. \<not> (code c < 0x20 \<or> code c = 0x7f \<or> code c = 34 \<or> code c = 92 \<or> c = CHR ''|'')) s)"

section \<open>One setting\<close>

text \<open>The outcome of a step that may fail with a message, with the settings it leaves.\<close>

type_synonym 'a outcome = "string option \<times> 'a"

definition add_storage_target :: "app_config \<Rightarrow> string \<Rightarrow> app_config outcome" where
  "add_storage_target config content =
     (if CONFIG_LINE_CAPACITY \<le> length content then (Some ''storage_path is too long'', config)
      else case split_at_first CHR ''|'' (trim content) of
          None \<Rightarrow> (Some ''storage_path must be id|label|path'', config)
        | Some (target_id, rest) \<Rightarrow>
            (case split_at_first CHR ''|'' (trim rest) of
               None \<Rightarrow> (Some ''storage_path must be id|label|path'', config)
             | Some (label, path) \<Rightarrow>
                 (let path = trim path; target_id = trim target_id; label = trim label
                  in if CHR ''|'' \<in> set path \<or> \<not> storage_id_is_safe target_id \<or> \<not> storage_label_is_safe label \<or>
                        CONFIG_DESTINATION_CAPACITY \<le> length path \<or> \<not> destination_is_safe path
                     then (Some ''invalid storage_path entry'', config)
                     else if CONFIG_STORAGE_TARGETS_MAX \<le> length (storage_targets config)
                     then (Some ''too many storage_path entries'', config)
                     else if storage_by_id config target_id \<noteq> None
                     then (Some ''duplicate storage_path id'', config)
                     else (None, config\<lparr>storage_targets := storage_targets config @
                             [\<lparr>st_id = target_id, st_label = label, st_path = path\<rparr>]\<rparr>))))"

definition config_set_defaults :: app_config where
  "config_set_defaults =
     \<lparr>port = 53317, auth_mode = CONFIG_AUTH_PIN, language = CONFIG_LANGUAGE_EN,
      cfg_pin_ttl_seconds = 120, cfg_session_ttl_seconds = 900,
      destination = ''/data/ps5localsend/inbox'', internal_destination = ''/data/ps5localsend/inbox'',
      usb_destination = ''/mnt/usb0/ps5localsend/inbox'',
      storage_targets =
        [\<lparr>st_id = ''internal'', st_label = ''Internal storage'', st_path = ''/data/ps5localsend/inbox''\<rparr>,
         \<lparr>st_id = ''usb'', st_label = ''USB drive'', st_path = ''/mnt/usb0/ps5localsend/inbox''\<rparr>],
      max_file_bytes = 21474836480, max_files_per_session = 100\<rparr>"

definition config_keys :: "string list" where
  "config_keys =
     [''port'', ''auth_mode'', ''pin_ttl_seconds'', ''session_ttl_seconds'', ''destination'',
      ''internal_destination'', ''usb_destination'', ''storage_path'', ''max_file_bytes'',
      ''max_files_per_session'', ''language'']"

fun index_of :: "string \<Rightarrow> string list \<Rightarrow> nat" where
  "index_of key [] = 0"
| "index_of key (k # ks) = (if key = k then 0 else Suc (index_of key ks))"

text \<open>The chain of branches on the key's index, after the bookkeeping of \<open>seen\<close>.\<close>

definition set_value :: "nat \<Rightarrow> string \<Rightarrow> app_config \<Rightarrow> app_config outcome" where
  "set_value index content config =
     (if index = 0 then
        (case parse_u64 content 1024 65535 of
           None \<Rightarrow> (Some ''port must be between 1024 and 65535'', config)
         | Some number \<Rightarrow> (None, config\<lparr>port := ucast number\<rparr>))
      else if index = 1 then
        (if content = ''pin'' then (None, config\<lparr>auth_mode := CONFIG_AUTH_PIN\<rparr>)
         else if content = ''none'' then (None, config\<lparr>auth_mode := CONFIG_AUTH_NONE\<rparr>)
         else (Some ''auth_mode must be pin or none'', config))
      else if index = 2 then
        (case parse_u64 content 30 600 of
           None \<Rightarrow> (Some ''pin_ttl_seconds must be between 30 and 600'', config)
         | Some number \<Rightarrow> (None, config\<lparr>cfg_pin_ttl_seconds := ucast number\<rparr>))
      else if index = 3 then
        (case parse_u64 content 60 86400 of
           None \<Rightarrow> (Some ''session_ttl_seconds must be between 60 and 86400'', config)
         | Some number \<Rightarrow> (None, config\<lparr>cfg_session_ttl_seconds := ucast number\<rparr>))
      else if index = 4 then
        (if CONFIG_DESTINATION_CAPACITY \<le> length content \<or> \<not> destination_is_safe content
         then (Some ''destination must be a safe absolute directory'', config)
         else (None, config\<lparr>destination := content\<rparr>))
      else if index = 5 then
        (if CONFIG_DESTINATION_CAPACITY \<le> length content \<or> \<not> destination_is_safe_for_root content ''/data''
         then (Some ''internal_destination must be a safe child of /data'', config)
         else (None, config\<lparr>internal_destination := content\<rparr>))
      else if index = 6 then
        (if CONFIG_DESTINATION_CAPACITY \<le> length content \<or> \<not> destination_is_safe_for_root content ''/mnt/usb0''
         then (Some ''usb_destination must be a safe child of /mnt/usb0'', config)
         else (None, config\<lparr>usb_destination := content\<rparr>))
      else if index = 7 then add_storage_target config content
      else if index = 8 then
        (case parse_u64 content 1 1099511627776 of
           None \<Rightarrow> (Some ''max_file_bytes must be between 1 and 1099511627776'', config)
         | Some number \<Rightarrow> (None, config\<lparr>max_file_bytes := number\<rparr>))
      else if index = 9 then
        (case parse_u64 content 1 1000 of
           None \<Rightarrow> (Some ''max_files_per_session must be between 1 and 1000'', config)
         | Some number \<Rightarrow> (None, config\<lparr>max_files_per_session := ucast number\<rparr>))
      else
        (if content = ''en'' then (None, config\<lparr>language := CONFIG_LANGUAGE_EN\<rparr>)
         else if content = ''ru'' then (None, config\<lparr>language := CONFIG_LANGUAGE_RU\<rparr>)
         else (Some ''language must be en or ru'', config)))"

definition apply_value :: "app_config \<Rightarrow> string \<Rightarrow> string \<Rightarrow> u32 \<Rightarrow> (app_config \<times> u32) outcome" where
  "apply_value config key content seen =
     (let index = index_of key config_keys
      in if index = length config_keys then (Some ''unknown configuration key'', config, seen)
         else if index \<noteq> 7 \<and> seen AND push_bit index 1 \<noteq> 0 then (Some ''duplicate configuration key'', config, seen)
         else let config = (if index = 7 \<and> seen AND push_bit index 1 = 0 then config\<lparr>storage_targets := []\<rparr> else config);
                  seen = seen OR push_bit index 1
              in case set_value index content config of (error, config) \<Rightarrow> (error, config, seen))"

section \<open>Reading the file\<close>

text \<open>\<open>fgets\<close> with room for \<open>n\<close> characters: the line read, with its newline if it was reached, and the rest.\<close>

fun fgets_take :: "nat \<Rightarrow> char list \<Rightarrow> char list \<times> char list" where
  "fgets_take 0 s = ([], s)"
| "fgets_take (Suc n) [] = ([], [])"
| "fgets_take (Suc n) (c # cs) =
     (if c = CHR 0x0A then ([c], cs) else case fgets_take n cs of (l, rest) \<Rightarrow> (c # l, rest))"

definition reached_eof :: "char list \<Rightarrow> char list \<Rightarrow> bool" where
  "reached_eof l rest \<longleftrightarrow> rest = [] \<and> length l < CONFIG_LINE_CAPACITY - 1 \<and> CHR 0x0A \<notin> set l"

datatype line_result = Continue | Reject "string option"

text \<open>
  The body of the loop.  \<open>Reject None\<close> is the return of \<open>CONFIG_LOAD_INVALID\<close> that leaves the caller's
  message buffer as it was.
\<close>

definition process_line :: "bool \<Rightarrow> char list \<Rightarrow> bool \<Rightarrow> app_config \<Rightarrow> u32 \<Rightarrow> line_result \<times> app_config \<times> u32" where
  "process_line first l eof config seen =
     (if first \<and> ((char_at l 0 = CHR 0xFF \<and> char_at l 1 = CHR 0xFE) \<or> (char_at l 0 = CHR 0xFE \<and> char_at l 1 = CHR 0xFF))
      then (Reject (Some ''UTF-16 config is unsupported; save config.ini as UTF-8''), config, seen)
      else let s = cstr l;
               s = (if first \<and> take 3 s = [CHR 0xEF, CHR 0xBB, CHR 0xBF] then drop 3 s else s)
           in if CHR 0x0A \<notin> set s \<and> \<not> eof then (Reject (Some ''configuration line is too long''), config, seen)
              else let key = trim s
                   in if key = [] \<or> hd key = CHR ''#'' \<or> hd key = CHR '';'' then (Continue, config, seen)
                      else case split_at_first CHR ''='' key of
                          None \<Rightarrow> (Reject (Some (''configuration line must contain '' @ [CHR 0x27, CHR ''='', CHR 0x27])), config, seen)
                        | Some (key, content) \<Rightarrow>
                            (let content = trim content; key = trim key
                             in if key = [] \<or> content = [] then (Reject None, config, seen)
                                else case apply_value config key content seen of
                                    (None, config, seen) \<Rightarrow> (Continue, config, seen)
                                  | (Some message, config, seen) \<Rightarrow> (Reject (Some message), config, seen)))"

lemma fgets_take_length: "fgets_take n s = (l, rest) \<Longrightarrow> length l + length rest = length s"
  by (induction n s arbitrary: l rule: fgets_take.induct) (auto split: if_splits prod.splits)

lemma fgets_take_shorter:
  "s \<noteq> [] \<Longrightarrow> fgets_take (Suc n) s = (l, rest) \<Longrightarrow> length rest < length s"
  by (cases s) (auto split: if_splits prod.splits dest: fgets_take_length)

text \<open>
  The loop over the characters of the file; \<open>failed\<close> says that the stream ends in a read error, which
  loses an unfinished last line.
\<close>

function config_lines :: "bool \<Rightarrow> bool \<Rightarrow> char list \<Rightarrow> app_config \<Rightarrow> u32 \<Rightarrow> line_result \<times> app_config \<times> u32" where
  "config_lines failed first content config seen =
     (if content = [] then (Continue, config, seen)
      else case fgets_take (Suc (CONFIG_LINE_CAPACITY - 2)) content of
          (l, rest) \<Rightarrow>
            (if failed \<and> reached_eof l rest then (Continue, config, seen)
             else case process_line first l (reached_eof l rest) config seen of
                 (Continue, config, seen) \<Rightarrow> config_lines failed False rest config seen
               | (Reject message, config, seen) \<Rightarrow> (Reject message, config, seen)))"
  by pat_completeness auto
termination
  by (relation "measure (\<lambda>(_, _, content, _, _). length content)")
    (auto dest: fgets_take_shorter [OF _ sym] simp del: fgets_take.simps)

declare config_lines.simps [simp del]

text \<open>What follows the loop.\<close>

definition seen_key :: "u32 \<Rightarrow> nat \<Rightarrow> bool" where
  "seen_key seen index \<longleftrightarrow> seen AND push_bit index 1 \<noteq> 0"

definition adopt_destination :: "app_config \<Rightarrow> u32 \<Rightarrow> app_config" where
  "adopt_destination config seen =
     (if \<not> seen_key seen 7 \<and> seen_key seen 4
      then if (destination_is_safe_for_root (destination config) ''/mnt/usb0'' \<or> destination config = ''/mnt/usb0'') \<and>
              \<not> seen_key seen 6
           then config\<lparr>usb_destination := destination config\<rparr>
           else if destination_is_safe_for_root (destination config) ''/data'' \<and> \<not> seen_key seen 5
           then config\<lparr>internal_destination := destination config\<rparr>
           else config
      else config)"

definition default_targets :: "app_config \<Rightarrow> u32 \<Rightarrow> app_config" where
  "default_targets config seen =
     (if \<not> seen_key seen 7
      then config\<lparr>storage_targets := (storage_targets config)
             [0 := (storage_targets config ! 0)\<lparr>st_path := internal_destination config\<rparr>,
              1 := (storage_targets config ! 1)\<lparr>st_path := usb_destination config\<rparr>]\<rparr>
      else config)"

definition settle_destination :: "app_config \<Rightarrow> app_config" where
  "settle_destination config =
     (if storage_by_path config (destination config) = None
      then config\<lparr>destination := st_path (storage_targets config ! 0)\<rparr> else config)"

text \<open>The result, the message stored (if any) and the settings, for the characters of an open file.\<close>

definition parse_config :: "bool \<Rightarrow> char list \<Rightarrow> config_load_result \<times> string option \<times> app_config" where
  "parse_config failed content =
     (case config_lines failed True content config_set_defaults 0 of
        (Reject message, config, seen) \<Rightarrow> (CONFIG_LOAD_INVALID, message, config)
      | (Continue, config, seen) \<Rightarrow>
          (if failed then (CONFIG_LOAD_IO_ERROR, Some ''error while reading configuration file'', config)
           else let config = default_targets (adopt_destination config seen) seen
                in if storage_targets config = []
                   then (CONFIG_LOAD_INVALID, Some ''at least one storage_path is required'', config)
                   else (CONFIG_LOAD_OK, Some ''ok'', settle_destination config)))"

text \<open>The stream: reads until the end of the file or an error.\<close>

function read_stream :: "nat \<Rightarrow> os \<Rightarrow> byte list \<times> bool \<times> os" where
  "read_stream fd s =
     (case sys_read fd 4096 s of
        (None, s) \<Rightarrow> ([], True, s)
      | (Some data, s) \<Rightarrow>
          (if data = [] then ([], False, s)
           else case read_stream fd s of (tail_part, failed, s) \<Rightarrow> (data @ tail_part, failed, s)))"
  by pat_completeness auto
termination
  by (relation "measure (\<lambda>(fd, s). unread fd s)") (auto dest: sys_read_unread [OF sym])

declare read_stream.simps [simp del]

definition config_load_file :: "string \<Rightarrow> os \<Rightarrow> (config_load_result \<times> string option \<times> app_config) \<times> os" where
  "config_load_file path s =
     (case sys_open_read path s of
        (None, s) \<Rightarrow>
          ((if os_errno s = ENOENT
            then (CONFIG_LOAD_NOT_FOUND, Some ''configuration file not found; using defaults'', config_set_defaults)
            else (CONFIG_LOAD_IO_ERROR, Some ''unable to open configuration file'', config_set_defaults)), s)
      | (Some fd, s) \<Rightarrow>
          (case read_stream fd s of
             (content, failed, s) \<Rightarrow>
               (parse_config failed (map (\<lambda>b. char_of (unat b)) content), snd (sys_close fd s))))"

section \<open>Writing the file\<close>

definition storage_line :: "config_storage_target \<Rightarrow> string" where
  "storage_line t = ''storage_path='' @ st_id t @ ''|'' @ st_label t @ ''|'' @ st_path t @ [CHR 0x0A]"

definition config_text :: "app_config \<Rightarrow> string" where
  "config_text config =
     ''# PS5 LocalSend configuration'' @ [CHR 0x0A] @
     ''port='' @ dec_string (unat (port config)) @ [CHR 0x0A] @
     ''auth_mode='' @ auth_mode_name (auth_mode config) @ [CHR 0x0A] @
     ''language='' @ language_name (language config) @ [CHR 0x0A] @
     ''pin_ttl_seconds='' @ dec_string (unat (cfg_pin_ttl_seconds config)) @ [CHR 0x0A] @
     ''session_ttl_seconds='' @ dec_string (unat (cfg_session_ttl_seconds config)) @ [CHR 0x0A] @
     ''destination='' @ destination config @ [CHR 0x0A] @
     concat (map storage_line (storage_targets config)) @
     ''max_file_bytes='' @ dec_string (unat (max_file_bytes config)) @ [CHR 0x0A] @
     ''max_files_per_session='' @ dec_string (unat (max_files_per_session config)) @ [CHR 0x0A]"

text \<open>
  The buffered stream: its bytes go out in as many writes as the system needs, and the first failing
  one fails the call that flushes it.
\<close>

lemma sys_write_progress:
  "sys_write fd data s = (Some n, t) \<Longrightarrow> data \<noteq> [] \<Longrightarrow>
   length (drop n data) + length (os_faults t) < length data + length (os_faults s)"
  by (auto simp: sys_write_def Let_def next_fault_def injected_def no_fd_def
      split: list.splits fault.splits option.splits if_splits)

function write_stream :: "nat \<Rightarrow> byte list \<Rightarrow> os \<Rightarrow> bool \<times> os" where
  "write_stream fd data s =
     (if data = [] then (True, s)
      else case sys_write fd data s of
          (None, s) \<Rightarrow> (False, s)
        | (Some count, s) \<Rightarrow> write_stream fd (drop count data) s)"
  by pat_completeness auto
termination
  by (relation "measure (\<lambda>(fd, data, s). length data + length (os_faults s))")
    (auto dest: sys_write_progress [OF sym])

declare write_stream.simps [simp del]

definition config_save_file :: "string \<Rightarrow> app_config \<Rightarrow> os \<Rightarrow> bool \<times> os" where
  "config_save_file path config s =
     (let temporary = path @ ''.tmp''
      in if CONFIG_DESTINATION_CAPACITY + 8 \<le> length temporary then fails ENAMETOOLONG s
         else case sys_open_trunc temporary s of
             (None, s) \<Rightarrow> (False, s)
           | (Some fd, s) \<Rightarrow>
               (case write_stream fd (map uchar (config_text config)) s of
                  (written, s1) \<Rightarrow>
                    (case sys_close fd s1 of
                       (closed, s2) \<Rightarrow>
                         (let saved = (if \<not> written then os_errno s1 else if \<not> closed then os_errno s2 else E0);
                              give_up = (\<lambda>e s. case sys_unlink temporary s of
                                 (_, s) \<Rightarrow> (False, s\<lparr>os_errno := (if e \<noteq> E0 then e else EIO)\<rparr>))
                          in if \<not> written \<or> \<not> closed then give_up saved s2
                             else case sys_rename temporary path s2 of
                                 (renamed, s3) \<Rightarrow> (if renamed then (True, s3) else give_up (os_errno s3) s3)))))"

end
