(* ===== verification/ConfigProps.thy ===== *)
theory ConfigProps
  imports Config
begin

text \<open>
  Which directories and numbers the reader of the settings accepts, as conditions on the text.
\<close>

section \<open>Numbers\<close>

text \<open>A setting's number is accepted exactly when its text is a non-empty run of decimal digits whose
  mathematical value, however long the run is, lies between the two limits; the number stored is that value,
  with no wrap-around.  (The reader passes only texts without surrounding blanks.)\<close>
theorem parse_u64_iff:
  assumes "trimmed t"
  shows "parse_u64 t lo hi = Some n \<longleftrightarrow>
    t \<noteq> [] \<and> list_all isdigit t \<and> unat lo \<le> dec_value t \<and> dec_value t \<le> unat hi \<and> n = of_nat (dec_value t)"
proof (cases "t \<noteq> [] \<and> list_all isdigit t")
  case True
  then have s: "strtoull t = (if dec_value t > 18446744073709551615 then (- 1, [], True)
      else (of_nat (dec_value t), [], False))"
    using strtoull_digits [of t "[]"] by (simp add: list_all_iff)
  from True have "isdigit (hd t)" by (cases t) auto
  then have "hd t \<noteq> CHR ''-''" "hd t \<noteq> CHR ''+''" by (auto simp: isdigit_def)
  with True s show ?thesis
    using unat_u64_bound [of hi]
    by (cases "dec_value t > 18446744073709551615") (auto simp: parse_u64_def word_nat not_less unat_of_nat)
next
  case False
  have "parse_u64 t lo hi = None"
  proof (cases "t = [] \<or> hd t = CHR ''-'' \<or> hd t = CHR ''+''")
    case signs: False
    then have "dropWhile isspace t = t" using assms by (auto simp: trimmed_def dropWhile_isspace_id)
    moreover from False signs obtain c where "c \<in> set t" "\<not> isdigit c" by (auto simp: list_all_iff)
    then have "dropWhile isdigit t \<noteq> []" by auto
    ultimately show ?thesis using signs by (auto simp: parse_u64_def strtoull_def Let_def)
  qed (simp add: parse_u64_def)
  with False show ?thesis by auto
qed

theorem parse_u64_iff_witness:
  "parse_u64 ''65535'' 1024 65535 = Some 65535 \<and> parse_u64 ''65536'' 1024 65535 \<noteq> Some 0"
  using parse_u64_iff [of "''65535''" 1024 65535 65535] parse_u64_iff [of "''65536''" 1024 65535 0]
  by (simp add: trimmed_def isspace_def isdigit_def dec_value_def of_char_def)

section \<open>Directories\<close>

text \<open>A text that starts a new path component, or is empty.\<close>

definition at_slash :: "string \<Rightarrow> bool" where
  "at_slash s \<longleftrightarrow> s = [] \<or> hd s = CHR ''/''"

lemma slash_split:
  assumes "CHR ''/'' \<notin> set a" "CHR ''/'' \<notin> set b" "at_slash x" "at_slash y"
  shows "a @ x = b @ y \<longleftrightarrow> a = b \<and> x = y"
proof -
  have "takeWhile (\<lambda>c. c \<noteq> CHR ''/'') (u @ v) = u" if "CHR ''/'' \<notin> set u" "at_slash v" for u v
    using that by (cases v) (auto simp: takeWhile_append at_slash_def takeWhile_eq_all_conv)
  with assms show ?thesis by (metis same_append_eq)
qed

lemma at_slash_Cons [simp]: "at_slash (CHR ''/'' # s)"
  by (simp add: at_slash_def)

abbreviation path_of :: "string list \<Rightarrow> string" where
  "path_of segments \<equiv> concat (map (\<lambda>s. CHR ''/'' # s) segments)"

lemma at_slash_path_of [simp]: "at_slash (path_of segments)"
  by (cases segments) (simp_all add: at_slash_def)

definition plain_segment :: "string \<Rightarrow> bool" where
  "plain_segment s \<longleftrightarrow> segment_ok s \<and> CHR ''/'' \<notin> set s"

lemma segments_ok_iff:
  "CHR ''/'' \<notin> set segment \<Longrightarrow>
   segments_ok segment cs \<longleftrightarrow> (\<exists>segments. segments \<noteq> [] \<and> CHR ''/'' # segment @ cs = path_of segments \<and> list_all plain_segment segments)"
proof (induction segment cs rule: segments_ok.induct)
  case (1 segment)
  have "CHR ''/'' # segment = path_of segments \<longleftrightarrow> segments = [segment]"
    if "segments \<noteq> []" "list_all plain_segment segments" for segments
  proof -
    obtain s ss where ss: "segments = s # ss" using \<open>segments \<noteq> []\<close> by (cases segments) auto
    with that 1 slash_split [of segment s "[]" "path_of ss"] show ?thesis
      by (cases ss) (auto simp: plain_segment_def at_slash_def)
  qed
  then have "(\<exists>segments. segments \<noteq> [] \<and> CHR ''/'' # segment = path_of segments \<and> list_all plain_segment segments) \<longleftrightarrow>
      list_all plain_segment [segment]" by (metis list.distinct(1))
  moreover have "plain_segment segment \<longleftrightarrow> segment_ok segment" using 1 by (simp add: plain_segment_def)
  ultimately show ?case by simp
next
  case (2 segment c cs)
  show ?case
  proof (cases "c = CHR ''/''")
    case True
    have split: "segment @ CHR ''/'' # cs = s @ path_of ss \<longleftrightarrow> segment = s \<and> CHR ''/'' # cs = path_of ss"
      if "plain_segment s" for s ss
      by (rule slash_split) (use that 2(3) in \<open>simp_all add: plain_segment_def\<close>)
    have "(\<exists>segments. segments \<noteq> [] \<and> CHR ''/'' # segment @ c # cs = path_of segments \<and> list_all plain_segment segments) \<longleftrightarrow>
        (\<exists>ss. plain_segment segment \<and> CHR ''/'' # cs = path_of ss \<and> list_all plain_segment ss)"
      (is "?l \<longleftrightarrow> ?r")
    proof
      assume ?l
      then obtain s ss where "segment @ CHR ''/'' # cs = s @ path_of ss" "plain_segment s" "list_all plain_segment ss"
        using True by (auto simp: neq_Nil_conv)
      then show ?r using split by blast
    next
      assume ?r
      then obtain ss where "plain_segment segment" "CHR ''/'' # cs = path_of ss" "list_all plain_segment ss" by blast
      then show ?l using True by (intro exI [of _ "segment # ss"]) simp
    qed
    also have "\<dots> \<longleftrightarrow> segments_ok segment (c # cs)"
    proof -
      have "plain_segment segment \<longleftrightarrow> segment_ok segment" using 2(3) by (simp add: plain_segment_def)
      moreover have "segments_ok [] cs \<longleftrightarrow> (\<exists>ss. ss \<noteq> [] \<and> CHR ''/'' # cs = path_of ss \<and> list_all plain_segment ss)"
        using 2(1) True by simp
      moreover have "CHR ''/'' # cs = path_of ss \<Longrightarrow> ss \<noteq> []" for ss by auto
      ultimately show ?thesis using True by auto
    qed
    finally show ?thesis by blast
  next
    case False
    with 2 show ?thesis by simp
  qed
qed

lemma below_root_iff:
  assumes "CHR ''/'' \<notin> set r" "CHR ''/'' \<notin> set s" "at_slash rest"
  shows "below_root (CHR ''/'' # r) (CHR ''/'' # s @ rest) \<longleftrightarrow> s = r"
proof
  assume b: "below_root (CHR ''/'' # r) (CHR ''/'' # s @ rest)"
  define d where "d = drop (length r) (s @ rest)"
  from b have "take (length r) (s @ rest) = r" by (simp add: below_root_def)
  then have "s @ rest = r @ d" by (metis append_take_drop_id d_def)
  moreover from b have "at_slash d" by (simp add: below_root_def at_slash_def d_def)
  ultimately show "s = r" using assms slash_split by blast
qed (use assms in \<open>auto simp: below_root_def at_slash_def\<close>)

text \<open>A directory is accepted exactly when it is an absolute path made of at least one component, no
  component being empty, '.' or '..' (so no doubled and no trailing slash and no way up), no character being a
  control character, a quote or a backslash, and the first component not one of 'dev', 'proc' and 'sys';
  '/device' is not caught by the ban on '/dev'.\<close>
theorem destination_is_safe_iff:
  "destination_is_safe path \<longleftrightarrow>
    (\<exists>segments. segments \<noteq> [] \<and> path = path_of segments \<and> hd segments \<notin> {''dev'', ''proc'', ''sys''} \<and>
      list_all (\<lambda>s. s \<notin> {'''', ''.'', ''..''} \<and> CHR ''/'' \<notin> set s \<and> list_all path_char s) segments)"
proof -
  have chars: "list_all path_char (path_of segments) \<longleftrightarrow> list_all (list_all path_char) segments" for segments
    by (induction segments) (auto simp: path_char_def of_char_def)
  have roots: "list_ex (\<lambda>root. below_root root (path_of segments)) blocked_roots \<longleftrightarrow> hd segments \<in> {''dev'', ''proc'', ''sys''}"
    if "segments \<noteq> []" "list_all plain_segment segments" for segments
    using that by (cases segments) (auto simp: blocked_roots_def plain_segment_def below_root_iff)
  have long: "tl (path_of segments) \<noteq> []" "hd (path_of segments) = CHR ''/''"
    if "segments \<noteq> []" "list_all plain_segment segments" for segments
    using that by (cases segments; auto simp: plain_segment_def segment_ok_def)+
  have "destination_is_safe path \<longleftrightarrow> (\<exists>segments. segments \<noteq> [] \<and> path = path_of segments \<and> list_all plain_segment segments) \<and>
      \<not> list_ex (\<lambda>root. below_root root path) blocked_roots \<and> list_all path_char path"
  proof (cases "path \<noteq> [] \<and> hd path = CHR ''/'' \<and> tl path \<noteq> []")
    case True
    then have "path = CHR ''/'' # tl path" by (metis list.collapse)
    then have "segments_ok [] (tl path) \<longleftrightarrow> (\<exists>segments. segments \<noteq> [] \<and> path = path_of segments \<and> list_all plain_segment segments)"
      using segments_ok_iff [of "[]" "tl path"] by simp
    with True show ?thesis by (auto simp: destination_is_safe_def destination_syntax_is_safe_def)
  next
    case False
    then have "\<not> destination_is_safe path" by (auto simp: destination_is_safe_def destination_syntax_is_safe_def)
    moreover have "path_of segments \<noteq> []" if "segments \<noteq> []" for segments using that by (cases segments) auto
    ultimately show ?thesis using long False by blast
  qed
  also have "\<dots> \<longleftrightarrow> (\<exists>segments. segments \<noteq> [] \<and> path = path_of segments \<and> hd segments \<notin> {''dev'', ''proc'', ''sys''} \<and>
      list_all plain_segment segments \<and> list_all (list_all path_char) segments)"
    using chars roots by blast
  moreover have "list_all (\<lambda>s. s \<notin> {'''', ''.'', ''..''} \<and> CHR ''/'' \<notin> set s \<and> list_all path_char s) segments \<longleftrightarrow>
      list_all plain_segment segments \<and> list_all (list_all path_char) segments" for segments
    by (auto simp: plain_segment_def segment_ok_def list_all_iff)
  ultimately show ?thesis by simp
qed

end
