(* ===== verification/ConfigFile.thy ===== *)
theory ConfigFile
  imports ConfigProps
begin

text \<open>
  The settings as a whole: the invariant of every configuration that loading produces, the round trip
  through a saved file, and what a save does to the file system.
\<close>

section \<open>The invariant of a configuration\<close>

definition safe_directory :: "string \<Rightarrow> bool" where
  "safe_directory p \<longleftrightarrow> destination_is_safe p \<and> length p < CONFIG_DESTINATION_CAPACITY \<and> trimmed p \<and> c_string p"

definition wf_target :: "config_storage_target \<Rightarrow> bool" where
  "wf_target t \<longleftrightarrow> storage_id_is_safe (st_id t) \<and> storage_label_is_safe (st_label t) \<and> trimmed (st_label t) \<and>
     safe_directory (st_path t)"

definition wf_limits :: "app_config \<Rightarrow> bool" where
  "wf_limits c \<longleftrightarrow> 1024 \<le> port c \<and>
     30 \<le> cfg_pin_ttl_seconds c \<and> cfg_pin_ttl_seconds c \<le> 600 \<and>
     60 \<le> cfg_session_ttl_seconds c \<and> cfg_session_ttl_seconds c \<le> 86400 \<and>
     1 \<le> max_file_bytes c \<and> max_file_bytes c \<le> 1099511627776 \<and>
     1 \<le> max_files_per_session c \<and> max_files_per_session c \<le> 1000"

definition wf_places :: "app_config \<Rightarrow> bool" where
  "wf_places c \<longleftrightarrow> safe_directory (destination c) \<and>
     safe_directory (internal_destination c) \<and> destination_is_safe_for_root (internal_destination c) ''/data'' \<and>
     safe_directory (usb_destination c) \<and>
     (usb_destination c = ''/mnt/usb0'' \<or> destination_is_safe_for_root (usb_destination c) ''/mnt/usb0'')"

definition wf_targets :: "app_config \<Rightarrow> bool" where
  "wf_targets c \<longleftrightarrow> list_all wf_target (storage_targets c) \<and> distinct (map st_id (storage_targets c)) \<and>
     length (storage_targets c) \<le> CONFIG_STORAGE_TARGETS_MAX"

definition wf_settings :: "app_config \<Rightarrow> bool" where
  "wf_settings c \<longleftrightarrow> wf_limits c \<and> wf_places c \<and> wf_targets c"

text \<open>A loaded configuration moreover stores into one of its targets.\<close>

definition wf_config :: "app_config \<Rightarrow> bool" where
  "wf_config c \<longleftrightarrow> wf_settings c \<and> destination c \<in> st_path ` set (storage_targets c)"

lemmas wf_defs = wf_limits_def wf_places_def wf_targets_def wf_settings_def

lemma storage_by_path_None: "storage_by_path c p = None \<longleftrightarrow> p \<notin> st_path ` set (storage_targets c)"
  by (auto simp: storage_by_path_def find_None_iff)

lemma storage_by_id_None: "storage_by_id c i = None \<longleftrightarrow> i \<notin> st_id ` set (storage_targets c)"
  by (auto simp: storage_by_id_def find_None_iff)

lemma defaults_wf: "wf_settings config_set_defaults"
  by code_simp

lemma destination_safe_for_root_safe: "destination_is_safe_for_root p r \<Longrightarrow> destination_is_safe p"
  by (simp add: destination_is_safe_for_root_def destination_is_safe_def)

lemma parse_u64_range: "parse_u64 t lo hi = Some n \<Longrightarrow> lo \<le> n \<and> n \<le> hi"
  by (auto simp: parse_u64_def Let_def split: if_splits prod.splits)

lemma parse_u64_ucast:
  assumes "parse_u64 t lo hi = Some n" "unat hi < 2 ^ LENGTH('b::len)"
  shows "(ucast lo :: 'b word) \<le> ucast n \<and> (ucast n :: 'b word) \<le> ucast hi"
proof -
  from parse_u64_range [OF assms(1)] have n: "unat lo \<le> unat n" "unat n \<le> unat hi" by (simp_all add: word_nat)
  have "unat (ucast m :: 'b word) = unat m" if "unat m \<le> unat hi" for m :: u64
    using that assms(2) by (simp add: unsigned_ucast_eq take_bit_nat_eq_self_iff)
  with n show ?thesis by (simp add: word_nat)
qed

lemma wf_update:
  assumes "wf_settings c"
  shows "1024 \<le> p \<Longrightarrow> wf_settings (c\<lparr>port := p\<rparr>)"
    and "wf_settings (c\<lparr>auth_mode := a\<rparr>)"
    and "wf_settings (c\<lparr>language := l\<rparr>)"
    and "30 \<le> n \<Longrightarrow> n \<le> 600 \<Longrightarrow> wf_settings (c\<lparr>cfg_pin_ttl_seconds := n\<rparr>)"
    and "60 \<le> n \<Longrightarrow> n \<le> 86400 \<Longrightarrow> wf_settings (c\<lparr>cfg_session_ttl_seconds := n\<rparr>)"
    and "1 \<le> m \<Longrightarrow> m \<le> 1099511627776 \<Longrightarrow> wf_settings (c\<lparr>max_file_bytes := m\<rparr>)"
    and "1 \<le> n \<Longrightarrow> n \<le> 1000 \<Longrightarrow> wf_settings (c\<lparr>max_files_per_session := n\<rparr>)"
    and "safe_directory d \<Longrightarrow> wf_settings (c\<lparr>destination := d\<rparr>)"
    and "safe_directory d \<Longrightarrow> destination_is_safe_for_root d ''/data'' \<Longrightarrow> wf_settings (c\<lparr>internal_destination := d\<rparr>)"
    and "safe_directory d \<Longrightarrow> d = ''/mnt/usb0'' \<or> destination_is_safe_for_root d ''/mnt/usb0'' \<Longrightarrow>
      wf_settings (c\<lparr>usb_destination := d\<rparr>)"
    and "list_all wf_target ts \<Longrightarrow> distinct (map st_id ts) \<Longrightarrow> length ts \<le> CONFIG_STORAGE_TARGETS_MAX \<Longrightarrow>
      wf_settings (c\<lparr>storage_targets := ts\<rparr>)"
  using assms by (simp_all add: wf_defs)

lemma set_value_wf:
  assumes "set_value index content c = (e, c')" "index \<noteq> 7" "trimmed content" "c_string content" "wf_settings c"
  shows "wf_settings c' \<and> storage_targets c' = storage_targets c"
proof -
  note numbers = parse_u64_range [of _ 1 1099511627776]
    parse_u64_ucast [where 'b = 16, of _ 1024 65535, simplified] parse_u64_ucast [where 'b = 32, of _ 30 600, simplified]
    parse_u64_ucast [where 'b = 32, of _ 60 86400, simplified] parse_u64_ucast [where 'b = 32, of _ 1 1000, simplified]
  have directory: "safe_directory content"
    if "\<not> CONFIG_DESTINATION_CAPACITY \<le> length content" "destination_is_safe content"
    using that assms by (simp add: safe_directory_def)
  show ?thesis
    using assms(1,2,5)
    by (auto simp: set_value_def split: if_splits option.splits
        intro!: wf_update directory dest: numbers destination_safe_for_root_safe)
qed

lemma split_c_string: "split_at_first x (trim s) = Some (a, b) \<Longrightarrow> c_string s \<Longrightarrow> c_string a \<and> c_string b"
  using trim_c_string [of s] by (auto simp: cstr_simps dest!: split_at_first_Some simp del: trim_c_string)

lemma add_storage_target_wf:
  assumes "add_storage_target c content = (e, c')" "c_string content" "wf_settings c"
  shows "wf_settings c'"
proof (cases "c' = c")
  case False
  then obtain i rest l p where i: "split_at_first CHR ''|'' (trim content) = Some (i, rest)"
    and l: "split_at_first CHR ''|'' (trim rest) = Some (l, p)"
    using assms(1) by (auto simp: add_storage_target_def split: if_splits option.splits)
  from split_c_string [OF l] split_c_string [OF i] have "c_string p" using assms(2) by simp
  with assms False i l show ?thesis
    by (auto simp: add_storage_target_def Let_def wf_target_def safe_directory_def storage_by_id_None image_image
        split: if_splits intro!: wf_update) (auto simp: wf_settings_def wf_targets_def)
qed (use assms in simp)

definition targets_untouched :: "app_config \<Rightarrow> u32 \<Rightarrow> bool" where
  "targets_untouched c seen \<longleftrightarrow> (\<not> seen_key seen 7 \<longrightarrow> storage_targets c = storage_targets config_set_defaults)"

lemma seen_key_or: "seen_key (a OR b) i \<longleftrightarrow> seen_key a i \<or> seen_key b i"
  by (auto simp: seen_key_def bit_eq_iff bit_simps)

lemma seen_key_push: "i < 32 \<Longrightarrow> seen_key (push_bit i 1) j \<longleftrightarrow> i = j"
  by (auto simp: seen_key_def bit_eq_iff bit_simps)

lemma seen_key_test: "seen AND push_bit i 1 \<noteq> 0 \<longleftrightarrow> seen_key seen i"
  by (simp add: seen_key_def)

lemma index_of_le: "index_of k ks \<le> length ks"
  by (induction ks) auto

lemma apply_value_wf:
  assumes "apply_value c key content seen = (e, c', seen')" "trimmed content" "c_string content"
    "wf_settings c" "targets_untouched c seen"
  shows "wf_settings c' \<and> targets_untouched c' seen'"
proof -
  define i where "i = index_of key config_keys"
  have i: "i \<le> 11" using index_of_le [of key config_keys] by (simp add: i_def config_keys_def)
  have cleared: "wf_settings (c\<lparr>storage_targets := []\<rparr>)" by (rule wf_update(11) [OF assms(4)]) simp_all
  show ?thesis
  proof (cases "c' = c \<and> seen' = seen")
    case False
    define c1 where c1: "c1 = (if i = 7 \<and> \<not> seen_key seen i then c\<lparr>storage_targets := []\<rparr> else c)"
    have apply_eq: "apply_value c key content seen =
        (if i = length config_keys then (Some ''unknown configuration key'', c, seen)
         else if i \<noteq> 7 \<and> seen_key seen i then (Some ''duplicate configuration key'', c, seen)
         else case set_value i content c1 of (e, c) \<Rightarrow> (e, c, seen OR push_bit i 1))"
      by (simp only: apply_value_def Let_def seen_key_def i_def c1 not_not)
    with assms(1) False have run: "set_value i content c1 = (e, c')" "seen' = seen OR push_bit i 1"
      by (auto split: if_splits prod.splits)
    have "wf_settings c1" using assms(4) cleared by (simp add: c1)
    show ?thesis
    proof (cases "i = 7")
      case True
      then have "add_storage_target c1 content = (e, c')" using run(1) by (simp add: set_value_def)
      then show ?thesis
        using add_storage_target_wf [OF _ assms(3) \<open>wf_settings c1\<close>] run(2) True seen_key_push [of 7 7]
        by (auto simp: targets_untouched_def seen_key_or seen_key_push)
    next
      case False
      with set_value_wf [OF run(1) False assms(2,3) \<open>wf_settings c1\<close>] assms(5) run(2) i show ?thesis
        by (simp add: c1 targets_untouched_def seen_key_or seen_key_push)
    qed
  qed (use assms in simp)
qed

lemma process_line_wf:
  assumes "process_line first l eof c seen = (r, c', seen')" "wf_settings c" "targets_untouched c seen"
  shows "wf_settings c' \<and> targets_untouched c' seen'"
proof (cases "c' = c \<and> seen' = seen")
  case False
  define s where "s = (if first \<and> take 3 (cstr l) = [CHR 0xEF, CHR 0xBB, CHR 0xBF] then drop 3 (cstr l) else cstr l)"
  have s: "c_string s" using c_string_subset [OF cstr_c_string [of l] set_drop_subset] by (simp add: s_def)
  from False obtain k v e where v: "split_at_first CHR ''='' (trim s) = Some (k, v)"
    and run: "apply_value c (trim k) (trim v) seen = (e, c', seen')"
    using assms(1) unfolding process_line_def Let_def s_def [symmetric]
    by (auto split: if_splits option.splits prod.splits)
  from split_c_string [OF v s] show ?thesis using apply_value_wf [OF run _ _ assms(2,3)] by simp
qed (use assms in simp)

lemma config_lines_wf:
  "config_lines failed first content c seen = (r, c', seen') \<Longrightarrow> wf_settings c \<Longrightarrow> targets_untouched c seen \<Longrightarrow>
   wf_settings c' \<and> targets_untouched c' seen'"
proof (induction failed first content c seen rule: config_lines.induct)
  case (1 failed first content c seen)
  obtain l rest where take: "fgets_take (Suc (CONFIG_LINE_CAPACITY - 2)) content = (l, rest)" by force
  obtain r1 c1 seen1 where step: "process_line first l (reached_eof l rest) c seen = (r1, c1, seen1)" by (metis prod_cases3)
  have "wf_settings c1 \<and> targets_untouched c1 seen1" using process_line_wf [OF step 1(3,4)] .
  moreover have "content = [] \<or> failed \<and> reached_eof l rest \<Longrightarrow> c' = c \<and> seen' = seen"
    using 1(2) take by (subst (asm) config_lines.simps) (auto split: if_splits)
  moreover have "r1 = Continue \<Longrightarrow> content \<noteq> [] \<Longrightarrow> \<not> (failed \<and> reached_eof l rest) \<Longrightarrow>
      config_lines failed False rest c1 seen1 = (r, c', seen')"
    using 1(2) take step by (subst (asm) config_lines.simps) auto
  moreover have "r1 = Reject m \<Longrightarrow> content \<noteq> [] \<Longrightarrow> \<not> (failed \<and> reached_eof l rest) \<Longrightarrow> c' = c1 \<and> seen' = seen1" for m
    using 1(2) take step by (subst (asm) config_lines.simps) auto
  moreover have "content \<noteq> [] \<Longrightarrow> \<not> (failed \<and> reached_eof l rest) \<Longrightarrow> r1 = Continue \<Longrightarrow>
      config_lines failed False rest c1 seen1 = (r, c', seen') \<Longrightarrow> wf_settings c1 \<Longrightarrow> targets_untouched c1 seen1 \<Longrightarrow>
      wf_settings c' \<and> targets_untouched c' seen'"
    using 1(1) take step by metis
  ultimately show ?case using 1(3,4) by (cases r1) metis+
qed

lemma adopt_destination_wf:
  assumes "wf_settings c" "targets_untouched c seen"
  shows "wf_settings (adopt_destination c seen) \<and> targets_untouched (adopt_destination c seen) seen"
proof -
  have "safe_directory (destination c)" using assms by (simp add: wf_defs)
  then show ?thesis
    using assms by (auto simp: adopt_destination_def targets_untouched_def intro!: wf_update)
qed

lemma default_targets_list:
  "storage_targets config_set_defaults =
    [\<lparr>st_id = ''internal'', st_label = ''Internal storage'', st_path = ''/data/ps5localsend/inbox''\<rparr>,
     \<lparr>st_id = ''usb'', st_label = ''USB drive'', st_path = ''/mnt/usb0/ps5localsend/inbox''\<rparr>]"
  by (simp add: config_set_defaults_def)

lemma default_targets_wf:
  assumes "wf_settings c" "targets_untouched c seen"
  shows "wf_settings (default_targets c seen)"
proof -
  have "wf_settings config_set_defaults" by (rule defaults_wf)
  then have "list_all wf_target (storage_targets config_set_defaults)" by (simp add: wf_defs)
  moreover have "safe_directory (internal_destination c)" "safe_directory (usb_destination c)"
    using assms(1) by (simp_all add: wf_defs)
  ultimately show ?thesis
    using assms by (auto simp: default_targets_def targets_untouched_def default_targets_list wf_target_def
        config_constants intro!: wf_update)
qed

lemma settle_destination_wf:
  assumes "wf_settings c" "storage_targets c \<noteq> []"
  shows "wf_config (settle_destination c)"
proof (cases "storage_by_path c (destination c) = None")
  case True
  have "safe_directory (st_path (storage_targets c ! 0))"
    using assms by (cases "storage_targets c") (auto simp: wf_defs wf_target_def)
  with True assms show ?thesis
    by (auto simp: settle_destination_def wf_config_def intro!: wf_update)
next
  case False
  then have "settle_destination c = c" unfolding settle_destination_def by (rule if_not_P)
  with False assms(1) show ?thesis by (simp add: wf_config_def storage_by_path_None)
qed

lemma parse_config_wf:
  assumes "parse_config failed content = (r, m, c)"
  shows "wf_settings c \<and> (r = CONFIG_LOAD_OK \<longrightarrow> wf_config c)"
proof -
  obtain lr c1 seen where run: "config_lines failed True content config_set_defaults 0 = (lr, c1, seen)" by (metis prod_cases3)
  have "wf_settings c1 \<and> targets_untouched c1 seen"
    by (rule config_lines_wf [OF run defaults_wf]) (simp add: targets_untouched_def)
  then have "wf_settings (default_targets (adopt_destination c1 seen) seen)" "wf_settings c1"
    using default_targets_wf adopt_destination_wf by blast+
  then show ?thesis
    using assms run settle_destination_wf
    by (auto simp: parse_config_def Let_def wf_config_def split: line_result.splits if_splits)
qed

text \<open>C26: Whatever the file holds and wherever the system fails, the settings that loading leaves behind
  respect every limit: port at least 1024, both lifetimes, the file size and the file count within their
  ranges, every directory (the destination, the internal and USB ones, each storage target) safe, shorter
  than its buffer and, for the internal and USB ones, below its mount point, at most eight targets with
  distinct, safe identifiers and printable labels.  When loading reports success, there is a target and the
  destination is the path of one.\<close>
theorem config_load_file_wf:
  assumes "config_load_file path s = ((r, m, c), t)"
  shows "wf_settings c \<and> (r = CONFIG_LOAD_OK \<longrightarrow> wf_config c)"
  using assms parse_config_wf defaults_wf
  by (auto simp: config_load_file_def split: prod.splits option.splits if_splits)

theorem config_load_file_wf_witness:
  "\<exists>r m c t. config_load_file ''c'' (mounted []) = ((r, m, c), t) \<and> r = CONFIG_LOAD_NOT_FOUND \<and> wf_settings c"
proof -
  have "\<exists>t m. config_load_file ''c'' (mounted []) = ((CONFIG_LOAD_NOT_FOUND, m, config_set_defaults), t)"
    by (simp add: config_load_file_def sys_open_read_def no_fd_def mounted_def next_fault_def eval_nat_numeral)
  then show ?thesis using config_load_file_wf by blast
qed

section \<open>Reading back what is written\<close>

abbreviation newline :: char where
  "newline \<equiv> CHR 0x0A"

lemma fgets_take_line:
  "newline \<notin> set l \<Longrightarrow> length l < n \<Longrightarrow> fgets_take n (l @ newline # rest) = (l @ [newline], rest)"
proof (induction l arbitrary: n)
  case Nil then show ?case by (cases n) auto
next
  case (Cons c l) then show ?case by (cases n) auto
qed

lemma trim_newline: "trimmed s \<Longrightarrow> s \<noteq> [] \<Longrightarrow> trim (s @ [newline]) = s"
proof -
  assume s: "trimmed s" "s \<noteq> []"
  then have "\<not> isspace (hd s)" "\<not> isspace (hd (rev s))" by (simp_all add: trimmed_def hd_rev)
  moreover have "isspace newline" by (simp add: isspace_def)
  ultimately show "trim (s @ [newline]) = s" using s(2) by (simp add: trim_def dropWhile_isspace_id)
qed

definition plain_value :: "string \<Rightarrow> bool" where
  "plain_value v \<longleftrightarrow> v \<noteq> [] \<and> trimmed v \<and> c_string v \<and> newline \<notin> set v \<and> length v < 1500"

lemma plain_valueI:
  assumes "v \<noteq> []" "\<forall>c \<in> set v. c \<noteq> NUL \<and> c \<noteq> newline \<and> \<not> isspace c" "length v < 1500"
  shows "plain_value v"
  using assms hd_in_set [of v] last_in_set [of v] by (auto simp: plain_value_def c_string_def trimmed_def)

definition plain_key :: "string \<Rightarrow> bool" where
  "plain_key k \<longleftrightarrow> plain_value k \<and> CHR ''='' \<notin> set k \<and> hd k \<noteq> CHR ''#'' \<and> hd k \<noteq> CHR '';'' \<and> code (hd k) < 128 \<and> length k < 100"

lemma config_keys_distinct: "distinct config_keys" "length config_keys = 11"
  by (simp_all add: config_keys_def)

lemma config_keys_plain: "list_all plain_key config_keys"
proof -
  have "list_all (\<lambda>k. k \<noteq> [] \<and> list_all (\<lambda>c. c \<noteq> NUL \<and> c \<noteq> newline \<and> \<not> isspace c) k \<and> list_all (\<lambda>c. c \<noteq> CHR ''='') k \<and>
      hd k \<noteq> CHR ''#'' \<and> hd k \<noteq> CHR '';'' \<and> code (hd k) < 128 \<and> length k < 22) config_keys"
    by code_simp
  then have k: "k \<noteq> []" "\<forall>c \<in> set k. c \<noteq> NUL \<and> c \<noteq> newline \<and> \<not> isspace c" "CHR ''='' \<notin> set k"
      "hd k \<noteq> CHR ''#''" "hd k \<noteq> CHR '';''" "code (hd k) < 128" "length k < 22"
    if "k \<in> set config_keys" for k
    using that unfolding list_all_iff by blast+
  have "plain_value k" if "k \<in> set config_keys" for k
    by (rule plain_valueI) (use k [OF that] in simp_all)
  with k show ?thesis by (simp add: list_all_iff plain_key_def less_trans [of _ 22])
qed

lemma process_setting:
  assumes k: "plain_key k" and v: "plain_value v"
  shows "process_line first (k @ CHR ''='' # v @ [newline]) eof c seen =
    (case apply_value c k v seen of (None, c, seen) \<Rightarrow> (Continue, c, seen) | (Some m, c, seen) \<Rightarrow> (Reject (Some m), c, seen))"
proof -
  let ?s = "k @ CHR ''='' # v"
  obtain x k' where kx: "k = x # k'" using k by (cases k) (auto simp: plain_key_def plain_value_def)
  have "code x < 128" using k kx by (simp add: plain_key_def)
  then have x: "x \<noteq> CHR 0xFF" "x \<noteq> CHR 0xFE" "x \<noteq> CHR 0xEF" by (auto simp: of_char_def)
  have "trimmed ?s" using k v by (simp add: plain_key_def plain_value_def trimmed_def)
  then have t: "trim (?s @ [newline]) = ?s" by (rule trim_newline) simp
  have "c_string (?s @ [newline])" using k v by (simp add: plain_key_def plain_value_def cstr_simps)
  then have c: "cstr (?s @ [newline]) = ?s @ [newline]" by simp
  have b: "take 3 (?s @ [newline]) \<noteq> [CHR 0xEF, CHR 0xBB, CHR 0xBF]" using x by (simp add: kx)
  have a: "char_at (?s @ [newline]) 0 = x" by (simp add: char_at_def kx)
  have "split_at_first CHR ''='' ?s = Some (k, v)" using k by (simp add: plain_key_def cstr_simps)
  then show ?thesis
    using k v t c b a x
    by (simp add: process_line_def Let_def plain_key_def plain_value_def trim_id del: take_append split: option.splits)
qed

definition seen_with :: "u32 \<Rightarrow> nat \<Rightarrow> u32" where
  "seen_with seen i = seen OR push_bit i 1"

lemma seen_with_iff: "i < 32 \<Longrightarrow> seen_key (seen_with seen i) j \<longleftrightarrow> seen_key seen j \<or> i = j"
  unfolding seen_with_def seen_key_or using seen_key_push by blast

lemma seen_key_0 [simp]: "\<not> seen_key 0 i"
  by (simp add: seen_key_def)

lemma index_of_nth: "distinct ks \<Longrightarrow> i < length ks \<Longrightarrow> index_of (ks ! i) ks = i"
proof (induction ks arbitrary: i)
  case (Cons k ks) then show ?case by (cases i) auto
qed simp

lemma apply_fresh:
  assumes "i < 11" "i \<noteq> 7" "\<not> seen_key seen i"
  shows "apply_value c (config_keys ! i) v seen = (case set_value i v c of (e, c) \<Rightarrow> (e, c, seen_with seen i))"
proof -
  have i: "index_of (config_keys ! i) config_keys = i" "length config_keys = 11"
    using config_keys_distinct assms by (auto intro!: index_of_nth)
  show ?thesis
    using assms unfolding apply_value_def Let_def i seen_key_def seen_with_def by simp
qed

lemma read_line:
  assumes "plain_key k" "plain_value v"
  shows "config_lines False first (k @ CHR ''='' # v @ newline # rest) c seen =
    (case apply_value c k v seen of (None, c, seen) \<Rightarrow> config_lines False False rest c seen
     | (Some m, c, seen) \<Rightarrow> (Reject (Some m), c, seen))"
proof -
  let ?s = "k @ CHR ''='' # v"
  have "newline \<notin> set ?s" using assms by (auto simp: plain_key_def plain_value_def)
  moreover have "length ?s < Suc (CONFIG_LINE_CAPACITY - 2)"
    using assms by (simp add: plain_key_def plain_value_def config_constants)
  ultimately have take: "fgets_take (Suc (CONFIG_LINE_CAPACITY - 2)) (?s @ newline # rest) = (?s @ [newline], rest)"
    by (rule fgets_take_line)
  then show ?thesis
    using process_setting [OF assms, of first _ c seen]
    by (subst config_lines.simps) (auto simp del: fgets_take.simps split: option.splits prod.splits)
qed

lemma read_setting:
  assumes "set_value i v c = (None, c')" "plain_value v" "i < 11" "i \<noteq> 7" "\<not> seen_key seen i"
  shows "config_lines False first (config_keys ! i @ CHR ''='' # v @ newline # rest) c seen =
    config_lines False False rest c' (seen_with seen i)"
proof -
  have "plain_key (config_keys ! i)" using config_keys_plain config_keys_distinct assms(3) by (simp add: list_all_length)
  then show ?thesis using read_line [OF _ assms(2)] apply_fresh [OF assms(3-5)] assms(1) by simp
qed

text \<open>The numbers.\<close>

lemma length_dec_string: "n < 10 ^ k \<Longrightarrow> 0 < k \<Longrightarrow> length (dec_string n) \<le> k"
proof (induction k arbitrary: n)
  case (Suc k)
  show ?case
  proof (cases "n < 10")
    case True then show ?thesis by (subst dec_string.simps) simp
  next
    case False
    with Suc.prems have k: "0 < k" by (cases k) auto
    have "n div 10 < 10 ^ k" using Suc.prems(1) by (simp add: div_less_iff_less_mult mult.commute)
    with Suc.IH k have "length (dec_string (n div 10)) \<le> k" by blast
    with False show ?thesis by (subst dec_string.simps) simp
  qed
qed simp

lemma isdigit_plain: "isdigit c \<Longrightarrow> c \<noteq> NUL \<and> c \<noteq> newline \<and> \<not> isspace c"
  by (auto simp: isdigit_def of_char_def)

lemma dec_string_plain:
  assumes "n < 18446744073709551616"
  shows "plain_value (dec_string n)"
proof -
  have "length (dec_string n) \<le> 20" using assms by (intro length_dec_string) simp_all
  moreover have "\<forall>c \<in> set (dec_string n). c \<noteq> NUL \<and> c \<noteq> newline \<and> \<not> isspace c"
    using dec_string_digits isdigit_plain by blast
  ultimately show ?thesis by (intro plain_valueI) simp_all
qed

lemma parse_u64_dec_string:
  assumes "unat lo \<le> n" "n \<le> unat hi"
  shows "parse_u64 (dec_string n) lo hi = Some (of_nat n)"
proof -
  have "trimmed (dec_string n)"
    using dec_string_plain [of n] assms(2) unat_u64_bound [of hi] by (simp add: plain_value_def)
  moreover have "list_all isdigit (dec_string n)" using dec_string_digits by (auto simp: list_all_iff)
  ultimately show ?thesis using assms by (simp add: parse_u64_iff)
qed

lemma ucast_back:
  assumes "LENGTH('a::len) \<le> 64"
  shows "(ucast (of_nat (unat (x :: 'a word)) :: u64) :: 'a word) = x"
proof -
  have "unat x < 2 ^ LENGTH('a)" by (rule unsigned_less)
  also have "\<dots> \<le> 2 ^ 64" using assms by (rule power_increasing) simp
  finally have t: "take_bit 64 (unat x) = unat x" by (rule take_bit_nat_eq_self)
  have "LENGTH(64) = 64" by simp
  then have u: "unat (ucast x :: u64) = unat x" by (simp only: unsigned_ucast_eq t)
  have "take_bit LENGTH('a) (unat x) = unat x" by (rule take_bit_nat_eq_self) (rule unsigned_less)
  moreover have "unat (ucast (ucast x :: u64) :: 'a word) = take_bit LENGTH('a) (unat (ucast x :: u64))"
    by (rule unsigned_ucast_eq)
  ultimately show ?thesis by (simp only: word_eq_unat u of_nat_unat)
qed

text \<open>The texts.\<close>

lemma safe_directory_plain:
  assumes "safe_directory p"
  shows "plain_value p"
proof -
  from assms have p: "p \<noteq> []" "list_all path_char p" "trimmed p" "c_string p" "length p < 1024"
    by (auto simp: safe_directory_def destination_is_safe_def destination_syntax_is_safe_def config_constants split: if_splits)
  then have "newline \<notin> set p" by (auto simp: list_all_iff path_char_def of_char_def)
  with p show ?thesis by (simp add: plain_value_def)
qed

definition target_text :: "config_storage_target \<Rightarrow> string" where
  "target_text t = st_id t @ CHR ''|'' # st_label t @ CHR ''|'' # st_path t"

lemma isalnum_plain: "isalnum c \<or> c = CHR ''_'' \<or> c = CHR ''-'' \<Longrightarrow> c \<noteq> NUL \<and> c \<noteq> newline \<and> c \<noteq> CHR ''|'' \<and> \<not> isspace c"
  by (auto simp: isalnum_def isdigit_def isspace_def of_char_Char)

lemma label_safe:
  assumes "storage_label_is_safe s"
  shows "s \<noteq> []" "length s < 96" "\<forall>c \<in> set s. 32 \<le> code c \<and> c \<noteq> CHR ''|''"
proof -
  have a: "\<not> (length s = 0 \<or> CONFIG_STORAGE_LABEL_CAPACITY \<le> length s)"
    "list_all (\<lambda>c. \<not> (code c < 0x20 \<or> code c = 0x7f \<or> code c = 34 \<or> code c = 92 \<or> c = CHR ''|'')) s"
    using assms unfolding storage_label_is_safe_def by (simp_all split: if_split_asm)
  from a(1) show "s \<noteq> []" "length s < 96" by (simp_all add: config_constants)
  from a(2) show "\<forall>c \<in> set s. 32 \<le> code c \<and> c \<noteq> CHR ''|''" unfolding list_all_iff not_less [symmetric] by blast
qed

lemma target_parts:
  assumes "wf_target t"
  shows "plain_value (st_id t)" "CHR ''|'' \<notin> set (st_id t)" "plain_value (st_label t)" "CHR ''|'' \<notin> set (st_label t)"
    "plain_value (st_path t)" "length (target_text t) < 1500" "st_id t \<noteq> []"
proof -
  have i: "st_id t \<noteq> []" "length (st_id t) < 32" "\<forall>c \<in> set (st_id t). isalnum c \<or> c = CHR ''_'' \<or> c = CHR ''-''"
    using assms by (auto simp: wf_target_def storage_id_is_safe_def config_constants list_all_iff split: if_splits)
  from i(3) isalnum_plain have c: "\<forall>c \<in> set (st_id t). c \<noteq> NUL \<and> c \<noteq> newline \<and> c \<noteq> CHR ''|'' \<and> \<not> isspace c" by blast
  have "\<forall>c \<in> set (st_id t). c \<noteq> NUL \<and> c \<noteq> newline \<and> \<not> isspace c" using c by blast
  then show "plain_value (st_id t)" by (rule plain_valueI [OF i(1)]) (use i(2) in linarith)
  show "CHR ''|'' \<notin> set (st_id t)" "st_id t \<noteq> []" using c i(1) by blast+
  have "storage_label_is_safe (st_label t)" and lt: "trimmed (st_label t)" using assms by (simp_all add: wf_target_def)
  note l = label_safe [OF this(1)]
  have "code NUL < 32" "code newline < 32" by (simp_all add: of_char_Char)
  with l(3) have "NUL \<notin> set (st_label t)" "newline \<notin> set (st_label t)" by (meson not_le)+
  with l(1,2) lt show "plain_value (st_label t)" by (simp add: plain_value_def c_string_def)
  show "CHR ''|'' \<notin> set (st_label t)" using l(3) by blast
  have "safe_directory (st_path t)" using assms by (simp add: wf_target_def)
  then show p: "plain_value (st_path t)" by (rule safe_directory_plain)
  show "length (target_text t) < 1500"
    using i(2) l(2) \<open>safe_directory (st_path t)\<close> by (simp add: target_text_def safe_directory_def config_constants)
qed

lemma target_text_plain:
  assumes "wf_target t"
  shows "plain_value (target_text t)"
  using target_parts [OF assms] by (simp add: target_text_def plain_value_def trimmed_def cstr_simps)

lemma add_target:
  assumes "wf_target t" "CHR ''|'' \<notin> set (st_path t)" "st_id t \<notin> st_id ` set (storage_targets c)"
    "length (storage_targets c) < CONFIG_STORAGE_TARGETS_MAX"
  shows "add_storage_target c (target_text t) = (None, c\<lparr>storage_targets := storage_targets c @ [t]\<rparr>)"
proof -
  note parts = target_parts [OF assms(1)]
  have rest: "trim (st_label t @ CHR ''|'' # st_path t) = st_label t @ CHR ''|'' # st_path t"
    by (rule trim_id) (use parts in \<open>simp add: trimmed_def plain_value_def\<close>)
  have "trim (target_text t) = target_text t" using target_text_plain [OF assms(1)] by (simp add: plain_value_def trim_id)
  then show ?thesis
    using assms parts rest
    by (simp add: add_storage_target_def Let_def target_text_def cstr_simps trim_id plain_value_def wf_target_def
        safe_directory_def storage_by_id_None config_constants)
qed

lemma storage_line_text: "storage_line t @ rest = config_keys ! 7 @ CHR ''='' # target_text t @ newline # rest"
  by (simp add: storage_line_def target_text_def config_keys_def)

definition listed_targets :: "app_config \<Rightarrow> u32 \<Rightarrow> config_storage_target list" where
  "listed_targets c seen = (if seen_key seen 7 then storage_targets c else [])"

lemma read_target:
  assumes "wf_target t" "CHR ''|'' \<notin> set (st_path t)" "st_id t \<notin> st_id ` set (listed_targets c seen)"
    "length (listed_targets c seen) < CONFIG_STORAGE_TARGETS_MAX"
  shows "config_lines False first (storage_line t @ rest) c seen =
    config_lines False False rest (c\<lparr>storage_targets := listed_targets c seen @ [t]\<rparr>) (seen_with seen 7)"
proof -
  define c1 where "c1 = (if (7 :: nat) = 7 \<and> seen AND push_bit 7 1 = 0 then c\<lparr>storage_targets := []\<rparr> else c)"
  have c1: "storage_targets c1 = listed_targets c seen"
    by (simp only: c1_def listed_targets_def seen_key_def) simp
  have i: "index_of (config_keys ! 7) config_keys = 7" "length config_keys = 11"
    using config_keys_distinct by (auto intro!: index_of_nth)
  have "set_value 7 (target_text t) c1 = (None, c1\<lparr>storage_targets := listed_targets c seen @ [t]\<rparr>)"
    using add_target [OF assms(1,2), of c1] assms(3,4) c1 by (simp add: set_value_def)
  moreover have "c1\<lparr>storage_targets := ts\<rparr> = c\<lparr>storage_targets := ts\<rparr>" for ts by (simp add: c1_def)
  moreover have "apply_value c (config_keys ! 7) (target_text t) seen =
      (case set_value 7 (target_text t) c1 of (e, c) \<Rightarrow> (e, c, seen_with seen 7))"
    unfolding apply_value_def Let_def i c1_def seen_with_def by simp
  ultimately have "apply_value c (config_keys ! 7) (target_text t) seen =
      (None, c\<lparr>storage_targets := listed_targets c seen @ [t]\<rparr>, seen_with seen 7)" by simp
  moreover have "plain_key (config_keys ! 7)" using config_keys_plain config_keys_distinct by (simp add: list_all_length)
  ultimately show ?thesis
    using read_line [OF _ target_text_plain [OF assms(1)]] by (simp only: storage_line_text) simp
qed

lemma seen_with_idem: "seen_key seen i \<Longrightarrow> i < 32 \<Longrightarrow> seen_with seen i = seen"
  by (rule bit_word_eqI) (auto simp: seen_with_def seen_key_def and_exp_eq_0_iff_not_bit bit_simps)

lemma read_targets:
  assumes "list_all wf_target ts" "\<forall>t \<in> set ts. CHR ''|'' \<notin> set (st_path t)" "seen_key seen 7"
    "distinct (map st_id (storage_targets c @ ts))" "length (storage_targets c @ ts) \<le> CONFIG_STORAGE_TARGETS_MAX"
  shows "config_lines False False (concat (map storage_line ts) @ rest) c seen =
    config_lines False False rest (c\<lparr>storage_targets := storage_targets c @ ts\<rparr>) seen"
  using assms
proof (induction ts arbitrary: c)
  case Nil then show ?case by simp
next
  case (Cons t ts)
  have "config_lines False False (storage_line t @ concat (map storage_line ts) @ rest) c seen =
      config_lines False False (concat (map storage_line ts) @ rest) (c\<lparr>storage_targets := storage_targets c @ [t]\<rparr>) seen"
    using Cons.prems read_target [of t c seen] by (auto simp: listed_targets_def seen_with_idem)
  also have "\<dots> = config_lines False False rest (c\<lparr>storage_targets := storage_targets c @ t # ts\<rparr>) seen"
    using Cons.prems by (subst Cons.IH) auto
  finally show ?case by simp
qed

lemma read_all_targets:
  assumes "list_all wf_target ts" "\<forall>t \<in> set ts. CHR ''|'' \<notin> set (st_path t)" "\<not> seen_key seen 7" "ts \<noteq> []"
    "distinct (map st_id ts)" "length ts \<le> CONFIG_STORAGE_TARGETS_MAX"
  shows "config_lines False False (concat (map storage_line ts) @ rest) c seen =
    config_lines False False rest (c\<lparr>storage_targets := ts\<rparr>) (seen_with seen 7)"
proof -
  obtain t us where ts: "ts = t # us" using assms(4) by (cases ts) auto
  have "config_lines False False (storage_line t @ concat (map storage_line us) @ rest) c seen =
      config_lines False False (concat (map storage_line us) @ rest) (c\<lparr>storage_targets := [t]\<rparr>) (seen_with seen 7)"
    using assms read_target [of t c seen] by (auto simp: listed_targets_def ts config_constants)
  also have "\<dots> = config_lines False False rest (c\<lparr>storage_targets := ts\<rparr>) (seen_with seen 7)"
    using assms by (subst read_targets) (auto simp: ts seen_with_iff)
  finally show ?thesis by (simp add: ts)
qed

definition header_line :: string where
  "header_line = ''# PS5 LocalSend configuration''"

lemma read_header: "config_lines False True (header_line @ newline # rest) c seen = config_lines False False rest c seen"
proof -
  have "fgets_take (Suc (CONFIG_LINE_CAPACITY - 2)) (header_line @ newline # rest) = (header_line @ [newline], rest)"
    by (rule fgets_take_line) (simp_all add: header_line_def config_constants)
  moreover have "process_line True (header_line @ [newline]) eof c seen = (Continue, c, seen)" for eof
  proof -
    have t: "trim (header_line @ [newline]) = header_line" by (rule trim_newline) (simp_all add: trimmed_def header_line_def isspace_def)
    have "c_string (header_line @ [newline])" by (simp add: header_line_def c_string_def)
    then have "cstr (header_line @ [newline]) = header_line @ [newline]" by simp
    then show ?thesis using t by (simp add: process_line_def Let_def char_at_def) (simp add: header_line_def)
  qed
  ultimately show ?thesis
    by (subst config_lines.simps) (simp del: fgets_take.simps)
qed

lemma config_text_lines:
  "config_text c = header_line @ newline #
     config_keys ! 0 @ CHR ''='' # dec_string (unat (port c)) @ newline #
     config_keys ! 1 @ CHR ''='' # auth_mode_name (auth_mode c) @ newline #
     config_keys ! 10 @ CHR ''='' # language_name (language c) @ newline #
     config_keys ! 2 @ CHR ''='' # dec_string (unat (cfg_pin_ttl_seconds c)) @ newline #
     config_keys ! 3 @ CHR ''='' # dec_string (unat (cfg_session_ttl_seconds c)) @ newline #
     config_keys ! 4 @ CHR ''='' # destination c @ newline #
     concat (map storage_line (storage_targets c)) @
     config_keys ! 8 @ CHR ''='' # dec_string (unat (max_file_bytes c)) @ newline #
     config_keys ! 9 @ CHR ''='' # dec_string (unat (max_files_per_session c)) @ newline # []"
  by (simp add: config_text_def config_keys_def header_line_def)

lemma set_number:
  "1024 \<le> (p :: u16) \<Longrightarrow> set_value 0 (dec_string (unat p)) c = (None, c\<lparr>port := p\<rparr>)"
  "30 \<le> (n :: u32) \<Longrightarrow> n \<le> 600 \<Longrightarrow> set_value 2 (dec_string (unat n)) c = (None, c\<lparr>cfg_pin_ttl_seconds := n\<rparr>)"
  "60 \<le> n \<Longrightarrow> n \<le> 86400 \<Longrightarrow> set_value 3 (dec_string (unat n)) c = (None, c\<lparr>cfg_session_ttl_seconds := n\<rparr>)"
  "1 \<le> (m :: u64) \<Longrightarrow> m \<le> 1099511627776 \<Longrightarrow> set_value 8 (dec_string (unat m)) c = (None, c\<lparr>max_file_bytes := m\<rparr>)"
  "1 \<le> n \<Longrightarrow> n \<le> 1000 \<Longrightarrow> set_value 9 (dec_string (unat n)) c = (None, c\<lparr>max_files_per_session := n\<rparr>)"
proof -
  have p: "unat p \<le> 65535" for p :: u16 using unsigned_less [of p, where 'a = nat] by simp
  have b: "ucast (word_of_nat (unat (x :: u16)) :: u64) = x" for x by (rule ucast_back) simp
  have d: "ucast (word_of_nat (unat (x :: u32)) :: u64) = x" for x by (rule ucast_back) simp
  show "1024 \<le> (p :: u16) \<Longrightarrow> set_value 0 (dec_string (unat p)) c = (None, c\<lparr>port := p\<rparr>)"
    using p [of p] by (simp add: set_value_def parse_u64_dec_string b word_nat del: of_nat_unat)
  show "30 \<le> (n :: u32) \<Longrightarrow> n \<le> 600 \<Longrightarrow> set_value 2 (dec_string (unat n)) c = (None, c\<lparr>cfg_pin_ttl_seconds := n\<rparr>)"
    by (simp add: set_value_def parse_u64_dec_string d word_nat del: of_nat_unat)
  show "60 \<le> n \<Longrightarrow> n \<le> 86400 \<Longrightarrow> set_value 3 (dec_string (unat n)) c = (None, c\<lparr>cfg_session_ttl_seconds := n\<rparr>)"
    by (simp add: set_value_def parse_u64_dec_string d word_nat del: of_nat_unat)
  show "1 \<le> (m :: u64) \<Longrightarrow> m \<le> 1099511627776 \<Longrightarrow> set_value 8 (dec_string (unat m)) c = (None, c\<lparr>max_file_bytes := m\<rparr>)"
    by (simp add: set_value_def parse_u64_dec_string word_nat)
  show "1 \<le> n \<Longrightarrow> n \<le> 1000 \<Longrightarrow> set_value 9 (dec_string (unat n)) c = (None, c\<lparr>max_files_per_session := n\<rparr>)"
    by (simp add: set_value_def parse_u64_dec_string d word_nat del: of_nat_unat)
qed

lemma set_name:
  "set_value 1 (auth_mode_name a) c = (None, c\<lparr>auth_mode := a\<rparr>)"
  "set_value 10 (language_name l) c = (None, c\<lparr>language := l\<rparr>)"
  "safe_directory p \<Longrightarrow> set_value 4 p c = (None, c\<lparr>destination := p\<rparr>)"
  by (cases a; cases l; simp add: set_value_def auth_mode_name_def language_name_def safe_directory_def)+

lemma names_plain: "plain_value (auth_mode_name a)" "plain_value (language_name l)"
  by (simp_all add: auth_mode_name_def language_name_def plain_value_def trimmed_def isspace_def c_string_def)

lemma number_plain: "plain_value (dec_string (unat (x :: 'a::len word)))" if "LENGTH('a) \<le> 64"
proof (rule dec_string_plain)
  have "unat x < 2 ^ LENGTH('a)" by (rule unsigned_less)
  also have "\<dots> \<le> 2 ^ 64" using that by (rule power_increasing) simp
  finally show "unat x < 18446744073709551616" by simp
qed

text \<open>The keys seen after a list of lines.\<close>

definition seen_all :: "nat list \<Rightarrow> u32" where
  "seen_all keys = foldl seen_with 0 keys"

lemma seen_all_key: "list_all (\<lambda>i. i < 32) keys \<Longrightarrow> seen_key (seen_all keys) j \<longleftrightarrow> j \<in> set keys"
  by (induction keys rule: rev_induct) (auto simp: seen_all_def seen_with_iff)

lemma seen_all_snoc: "seen_with (seen_all keys) i = seen_all (keys @ [i])"
  by (simp add: seen_all_def)

lemma read_step:
  assumes "set_value i v e = (None, e')" "plain_value v" "i < 11 \<and> i \<noteq> 7 \<and> i \<notin> set keys \<and> list_all (\<lambda>i. i < 32) keys"
  shows "config_lines False False (config_keys ! i @ CHR ''='' # v @ newline # r) e (seen_all keys) =
    config_lines False False r e' (seen_all (keys @ [i]))"
  using read_setting [OF assms(1,2)] assms(3) seen_all_key [of keys i] seen_all_snoc by simp

abbreviation forget_legacy :: "app_config \<Rightarrow> app_config" where
  "forget_legacy c \<equiv> c\<lparr>internal_destination := internal_destination config_set_defaults,
     usb_destination := usb_destination config_set_defaults\<rparr>"

text \<open>The settings after the lines before the targets, and the lines after the targets.\<close>

definition before_targets :: "app_config \<Rightarrow> app_config" where
  "before_targets c = config_set_defaults\<lparr>port := port c, auth_mode := auth_mode c, language := language c,
     cfg_pin_ttl_seconds := cfg_pin_ttl_seconds c, cfg_session_ttl_seconds := cfg_session_ttl_seconds c,
     destination := destination c\<rparr>"

definition after_targets :: "app_config \<Rightarrow> string" where
  "after_targets c =
     config_keys ! 8 @ CHR ''='' # dec_string (unat (max_file_bytes c)) @ newline #
     config_keys ! 9 @ CHR ''='' # dec_string (unat (max_files_per_session c)) @ newline # []"

lemmas numbers_plain =
  number_plain [where 'a = 16, simplified] number_plain [where 'a = 32, simplified] number_plain [where 'a = 64, simplified]

lemma read_before_targets:
  assumes "wf_limits c" "safe_directory (destination c)"
  shows "config_lines False True (config_text c) config_set_defaults 0 =
    config_lines False False (concat (map storage_line (storage_targets c)) @ after_targets c) (before_targets c)
      (seen_all [0, 1, 10, 2, 3, 4])"
proof -
  have none: "0 = seen_all []" by (simp add: seen_all_def)
  note limits = assms(1) [unfolded wf_limits_def]
  show ?thesis
    unfolding config_text_lines read_header none after_targets_def
    apply (subst read_step [OF set_number(1) numbers_plain(1)]; (simp add: limits; fail)?)
    apply (subst read_step [OF set_name(1) names_plain(1)]; (simp; fail)?)
    apply (subst read_step [OF set_name(2) names_plain(2)]; (simp; fail)?)
    apply (subst read_step [OF set_number(2) numbers_plain(2)]; (simp add: limits; fail)?)
    apply (subst read_step [OF set_number(3) numbers_plain(2)]; (simp add: limits; fail)?)
    apply (subst read_step [OF set_name(3) safe_directory_plain]; (simp add: assms(2); fail)?)
    by (unfold append.simps before_targets_def) (rule refl)
qed

lemma read_config_text:
  assumes "wf_limits c" "safe_directory (destination c)" "wf_targets c" "storage_targets c \<noteq> []"
    "\<forall>t \<in> set (storage_targets c). CHR ''|'' \<notin> set (st_path t)"
  shows "config_lines False True (config_text c) config_set_defaults 0 =
    config_lines False False [] (forget_legacy c) (seen_all [0, 1, 10, 2, 3, 4, 7, 8, 9])"
proof -
  note limits = assms(1) [unfolded wf_limits_def]
  have "list_all wf_target (storage_targets c)" "distinct (map st_id (storage_targets c))"
    "length (storage_targets c) \<le> CONFIG_STORAGE_TARGETS_MAX" "\<not> seen_key (seen_all [0, 1, 10, 2, 3, 4]) 7"
    using assms(3) by (simp_all add: wf_targets_def seen_all_key)
  note targets = read_all_targets [OF this(1) assms(5) this(4) assms(4) this(2,3), unfolded seen_all_snoc]
  show ?thesis
    unfolding read_before_targets [OF assms(1,2)] targets after_targets_def
    apply (subst read_step [OF set_number(4) numbers_plain(3)]; (simp add: limits; fail)?)
    apply (subst read_step [OF set_number(5) numbers_plain(2)]; (simp add: limits; fail)?)
    by (cases c) (simp add: config_set_defaults_def before_targets_def)
qed

lemma read_config_text_ok:
  assumes "wf_config c" "\<forall>t \<in> set (storage_targets c). CHR ''|'' \<notin> set (st_path t)"
  shows "parse_config False (config_text c) =
    (CONFIG_LOAD_OK, Some ''ok'',
     c\<lparr>internal_destination := internal_destination config_set_defaults,
       usb_destination := usb_destination config_set_defaults\<rparr>)"
proof -
  have used: "destination c \<in> st_path ` set (storage_targets c)" using assms(1) by (simp add: wf_config_def)
  then have some: "storage_targets c \<noteq> []" by auto
  have "config_lines False True (config_text c) config_set_defaults 0 =
      (Continue, forget_legacy c, seen_all [0, 1, 10, 2, 3, 4, 7, 8, 9])"
    using assms some by (subst read_config_text)
      (simp_all add: wf_config_def wf_settings_def wf_places_def config_lines.simps)
  moreover have "seen_key (seen_all [0, 1, 10, 2, 3, 4, 7, 8, 9]) 7" by (simp add: seen_all_key)
  moreover have "settle_destination (forget_legacy c) = forget_legacy c"
    unfolding settle_destination_def using used by (intro if_not_P) (simp add: storage_by_path_None)
  ultimately show ?thesis
    using some by (simp add: parse_config_def Let_def adopt_destination_def default_targets_def)
qed

text \<open>A configuration that satisfies the invariant, and none of whose target paths holds the separator
  '|', survives a save and a load: every setting comes back as it was, at its full width, except the two
  legacy directories, which a saved file does not mention and which return to their defaults.\<close>
theorem config_roundtrip:
  assumes "wf_config c" "\<forall>t \<in> set (storage_targets c). CHR ''|'' \<notin> set (st_path t)"
  shows "parse_config False (config_text c) =
    (CONFIG_LOAD_OK, Some ''ok'',
     c\<lparr>internal_destination := internal_destination config_set_defaults,
       usb_destination := usb_destination config_set_defaults\<rparr>)"
  using assms by (rule read_config_text_ok)

theorem config_roundtrip_witness:
  "parse_config False (config_text (config_set_defaults\<lparr>port := 8080\<rparr>)) =
    (CONFIG_LOAD_OK, Some ''ok'', config_set_defaults\<lparr>port := 8080\<rparr>)"
proof -
  have "wf_config (config_set_defaults\<lparr>port := 8080\<rparr>)"
    using defaults_wf by (simp add: wf_config_def wf_update(1)) (simp add: config_set_defaults_def)
  moreover have "\<forall>t \<in> set (storage_targets (config_set_defaults\<lparr>port := 8080\<rparr>)). CHR ''|'' \<notin> set (st_path t)"
    by (simp add: config_set_defaults_def)
  ultimately show ?thesis using config_roundtrip by fastforce
qed

end
