(* ===== verification/ConfigSave.thy ===== *)
theory ConfigSave
  imports ConfigFile
begin

text \<open>
  The settings on disk: a save writes the whole text to a temporary file and renames it over the old one,
  so that a failing save leaves the old settings in place, and a later load finds what was saved.
\<close>

section \<open>Streams\<close>

lemma write_stream_append:
  "write_stream fd data s = (ok, t) \<Longrightarrow> os_fds s fd = Some (n, length (inode_bytes (os_files s n))) \<Longrightarrow>
   only_file n s t \<and> (ok \<longrightarrow> inode_bytes (os_files t n) = inode_bytes (os_files s n) @ data)"
proof (induction fd data s rule: write_stream.induct)
  case (1 fd data s)
  show ?case
  proof (cases "data = []")
    case True
    with 1 show ?thesis by (simp add: write_stream.simps only_file_def)
  next
    case False
    obtain r u where w: "sys_write fd data s = (r, u)" by force
    show ?thesis
    proof (cases r)
      case None
      with 1 False w sys_write_append(1) [OF w] show ?thesis by (simp add: write_stream.simps)
    next
      case (Some count)
      with 1(2) False w have rest: "write_stream fd (drop count data) u = (ok, t)" by (simp add: write_stream.simps)
      note w1 = sys_write_append [OF w 1(3)]
      from 1(1) [OF False w [symmetric] Some rest] w1(2) [OF Some] only_file_trans [OF w1(1)] show ?thesis
        by auto
    qed
  qed
qed

lemma read_stream_all:
  "benign (os_faults s) \<Longrightarrow> os_fds s fd = Some (n, offset) \<Longrightarrow>
   \<exists>t. read_stream fd s = (drop offset (inode_bytes (os_files s n)), False, t)"
proof (induction fd s arbitrary: offset rule: read_stream.induct)
  case (1 fd s)
  from sys_read_benign [OF 1(2,3), of 4096] obtain data t where r: "sys_read fd 4096 s = (Some data, t)"
    "benign (os_faults t)" "os_files t = os_files s" "os_fds t fd = Some (n, offset + length data)"
    "data @ drop (offset + length data) (inode_bytes (os_files s n)) = drop offset (inode_bytes (os_files s n))"
    "data = [] \<longleftrightarrow> drop offset (inode_bytes (os_files s n)) = []" by auto
  show ?case
  proof (cases "data = []")
    case True
    with r show ?thesis by (subst read_stream.simps) simp
  next
    case False
    from 1(1) [OF r(1) [symmetric] _ False r(2,4)] obtain u
      where "read_stream fd t = (drop (offset + length data) (inode_bytes (os_files t n)), False, u)" by auto
    with r False show ?thesis by (subst read_stream.simps) simp
  qed
qed

section \<open>Saving\<close>

lemma config_save_steps:
  assumes "config_save_file path c s = (ok, t)" "no_link (path @ ''.tmp'') s"
    "os_names s path \<noteq> Some (Regular (temporary_inode (path @ ''.tmp'') s))"
  defines "n \<equiv> temporary_inode (path @ ''.tmp'') s"
  shows "\<not> ok \<Longrightarrow> only_temporary (path @ ''.tmp'') n s t"
    and "ok \<Longrightarrow> os_names t path = Some (Regular n) \<and> inode_bytes (os_files t n) = map uchar (config_text c)"
proof -
  let ?p = "path @ ''.tmp''"
  obtain r u where opened: "sys_open_trunc ?p s = (r, u)" by force
  note o = sys_open_trunc_temporary [OF opened assms(2), folded n_def]
  have "(\<not> ok \<longrightarrow> only_temporary ?p n s t) \<and>
      (ok \<longrightarrow> os_names t path = Some (Regular n) \<and> inode_bytes (os_files t n) = map uchar (config_text c))"
  proof (cases "CONFIG_DESTINATION_CAPACITY + 8 \<le> length ?p \<or> r = None")
    case True
    then show ?thesis
      using assms(1) opened o(1) by (auto simp: config_save_file_def Let_def fails_def only_temporary_def split: if_splits)
  next
    case False
    then obtain fd where fd: "r = Some fd" and short: "\<not> CONFIG_DESTINATION_CAPACITY + 8 \<le> length ?p" by auto
    note o2 = o(2) [OF fd]
    obtain written s1 where w: "write_stream fd (map uchar (config_text c)) u = (written, s1)" by force
    have s1: "only_file n u s1" "written \<longrightarrow> inode_bytes (os_files s1 n) = map uchar (config_text c)"
      using write_stream_append [OF w, of n] o2 by simp_all
    obtain closed s2 where cl: "sys_close fd s1 = (closed, s2)" by force
    note s2 = sys_close_store [OF cl]
    obtain renamed s3 where rn: "sys_rename ?p path s2 = (renamed, s3)" by force
    have upto: "only_temporary ?p n s s2"
      using o(1) only_file_temporary [OF s1(1)] s2 by (auto simp: only_temporary_def)
    have p2: "os_names s2 ?p = Some (Regular n)" using o2 s1(1) s2 by (simp add: only_file_def)
    have path2: "os_names s2 path \<noteq> Some (Regular n)" using upto assms(3) by (simp add: only_temporary_def n_def)
    note s3 = sys_rename_outcome [OF rn _ p2 path2, simplified]
    have give_up: "only_temporary ?p n s (v\<lparr>os_errno := e\<rparr>)" if "sys_unlink ?p u = (b, v)" "only_temporary ?p n s u" for b u v e
      using only_temporary_trans [OF that(2) sys_unlink_temporary [OF that(1)]] by simp
    have "only_temporary ?p n s s3" if "\<not> renamed" using upto s3 that by (simp add: only_temporary_def)
    then show ?thesis
      using assms(1) opened fd short w cl rn s1(2) s2 s3 give_up [OF _ upto] give_up [of s3]
      by (auto simp: config_save_file_def Let_def split: prod.splits if_splits)
  qed
  then show "\<not> ok \<Longrightarrow> only_temporary ?p n s t"
    and "ok \<Longrightarrow> os_names t path = Some (Regular n) \<and> inode_bytes (os_files t n) = map uchar (config_text c)" by blast+
qed

text \<open>What a reader of \<open>path\<close> finds: the entry there and, for a regular file, its bytes.\<close>

definition stored_at :: "os \<Rightarrow> string \<Rightarrow> node option \<times> byte list" where
  "stored_at s p = (os_names s p, case os_names s p of Some (Regular n) \<Rightarrow> inode_bytes (os_files s n) | _ \<Rightarrow> [])"

text \<open>The temporary name is free for use: not a symbolic link, and not a second name of the settings file.\<close>

definition own_temporary :: "string \<Rightarrow> os \<Rightarrow> bool" where
  "own_temporary path s \<longleftrightarrow> no_link (path @ ''.tmp'') s \<and>
     (\<forall>n. os_names s path = Some (Regular n) \<longrightarrow> n < os_next s \<and> os_names s (path @ ''.tmp'') \<noteq> Some (Regular n))"

lemma own_temporary_inode:
  "own_temporary path s \<Longrightarrow> os_names s path \<noteq> Some (Regular (temporary_inode (path @ ''.tmp'') s))"
  by (auto simp: own_temporary_def temporary_inode_def split: option.splits node.splits)

text \<open>C38: A save is all or nothing.  Whatever fails on the way (opening, any of the writes, short writes
  included, closing, renaming), the settings file afterwards is the one from before, byte for byte, unless
  the save reports success; then it holds exactly the text of the configuration.\<close>
theorem config_save_file_atomic:
  assumes "config_save_file path c s = (ok, t)" "own_temporary path s"
  shows "if ok then \<exists>n. stored_at t path = (Some (Regular n), map uchar (config_text c))
         else stored_at t path = stored_at s path"
proof -
  note steps = config_save_steps [OF assms(1) _ own_temporary_inode [OF assms(2)]]
  have "no_link (path @ ''.tmp'') s" using assms(2) by (simp add: own_temporary_def)
  note steps = steps [OF this]
  show ?thesis
  proof (cases ok)
    case True
    with steps show ?thesis by (simp add: stored_at_def)
  next
    case False
    with steps(1) own_temporary_inode [OF assms(2)] show ?thesis
      by (auto simp: stored_at_def only_temporary_def split: option.splits node.splits)
  qed
qed

theorem config_save_file_atomic_witness:
  "\<exists>t. config_save_file ''/data/c'' config_set_defaults (mounted [''/data'']\<lparr>os_faults := [Fail ENOSPC]\<rparr>) = (False, t) \<and>
    stored_at t ''/data/c'' = (None, [])"
proof -
  let ?s = "mounted [''/data'']\<lparr>os_faults := [Fail ENOSPC]\<rparr>"
  have "\<exists>t. config_save_file ''/data/c'' config_set_defaults ?s = (False, t)"
    by (simp add: config_save_file_def sys_open_trunc_def next_fault_def injected_def no_fd_def mounted_def config_constants)
  moreover have "own_temporary ''/data/c'' ?s" by (simp add: own_temporary_def no_link_def mounted_def)
  ultimately show ?thesis
    using config_save_file_atomic [of "''/data/c''" config_set_defaults ?s False]
    by (auto simp: stored_at_def mounted_def)
qed

lemma config_load_stored:
  assumes "stored_at s path = (Some (Regular n), data)" "benign (os_faults s)"
  shows "fst (config_load_file path s) = parse_config False (map (\<lambda>b. char_of (unat b)) data)"
proof -
  have path: "os_names s path = Some (Regular n)" and data: "data = inode_bytes (os_files s n)"
    using assms(1) by (auto simp: stored_at_def)
  obtain f u where u: "next_fault s = (f, u)" by force
  have store: "same_store s u" and b: "benign (os_faults u)" and f: "f \<noteq> Fail e" for e
    using u assms(2) by (auto simp: next_fault_def same_store_def benign_def injected_def split: list.splits if_splits)
  have p: "resolve 41 u path = Inr path"
    using path store resolve_no_link [of path u 40] by (simp add: no_link_def same_store_def)
  obtain fd v where v: "sys_open_read path s = (Some fd, v)" "os_fds v fd = Some (n, 0)" "os_files v = os_files s" "benign (os_faults v)"
    using f path store b unfolding sys_open_read_def u by (cases f) (auto simp: p same_store_def)
  from read_stream_all [OF v(4,2)] v(3) data obtain w where "read_stream fd v = (data, False, w)" by auto
  with v(1) show ?thesis by (simp add: config_load_file_def)
qed

lemma bytes_back [simp]: "map (\<lambda>b. char_of (unat b)) (map uchar s) = s"
  by (induction s) (simp_all add: uchar_code del: uchar_char_of_byte)

text \<open>C27: What a successful save leaves on the disk is what the next load returns: the load succeeds, from
  any system state that stores the same bytes at that path and whose reads do not fail (they may be short),
  with every setting of the saved configuration except the two legacy directories.\<close>
theorem config_save_then_load:
  assumes "config_save_file path c s = (True, t)" "own_temporary path s" "wf_config c"
    "\<forall>x \<in> set (storage_targets c). CHR ''|'' \<notin> set (st_path x)"
    "stored_at u path = stored_at t path" "benign (os_faults u)"
  shows "fst (config_load_file path u) =
    (CONFIG_LOAD_OK, Some ''ok'',
     c\<lparr>internal_destination := internal_destination config_set_defaults,
       usb_destination := usb_destination config_set_defaults\<rparr>)"
proof -
  note steps = config_save_steps [OF assms(1) _ own_temporary_inode [OF assms(2)]]
  have "no_link (path @ ''.tmp'') s" using assms(2) by (simp add: own_temporary_def)
  from steps(2) [OF this] obtain n where "stored_at u path = (Some (Regular n), map uchar (config_text c))"
    using assms(5) by (auto simp: stored_at_def)
  with config_load_stored [OF this assms(6)] show ?thesis
    using read_config_text_ok [OF assms(3,4)] by (simp only: bytes_back)
qed

lemma write_stream_faultless:
  assumes "os_faults s = []" "os_fds s fd = Some p" "data \<noteq> []"
  shows "\<exists>t. sys_write fd data s = (Some (length data), t) \<and> os_faults t = [] \<and> os_fds t fd \<noteq> None \<and> os_names t = os_names s
    \<and> write_stream fd data s = (True, t)"
  using assms by (cases p) (auto simp: sys_write_def Let_def write_stream.simps)

lemma config_save_faultless:
  assumes "os_faults s = []" "os_names s path = None" "os_names s (path @ ''.tmp'') = None"
    "parent_exists s path" "parent_exists s (path @ ''.tmp'')" "length path < 1000"
  shows "\<exists>t. config_save_file path c s = (True, t) \<and> os_faults t = []"
proof -
  let ?p = "path @ ''.tmp''"
  have r: "resolve 41 s ?p = Inr ?p" using assms(3) by (simp add: resolve_absent)
  obtain fd u where o: "sys_open_trunc ?p s = (Some fd, u)" "os_faults u = []" "os_fds u fd \<noteq> None"
    "os_names u = (os_names s)(?p \<mapsto> Regular fd)"
    using assms(1,3,5) r by (auto simp: sys_open_trunc_def new_file_def Let_def)
  have "map uchar (config_text c) \<noteq> []" by (simp add: config_text_def)
  moreover obtain q where "os_fds u fd = Some q" using o(3) by blast
  ultimately obtain v
    where v: "write_stream fd (map uchar (config_text c)) u = (True, v)" "os_faults v = []" "os_fds v fd \<noteq> None" "os_names v = os_names u"
    using write_stream_faultless [OF o(2), of fd] by blast
  obtain w where w: "sys_close fd v = (True, w)" "os_faults w = []" "os_names w = os_names u"
    using v(2-4) by (simp add: sys_close_def)
  have "parent_exists w path"
    using assms(3,4) w(3) o(4) by (auto simp: parent_exists_def split: option.splits)
  then obtain x where "sys_rename ?p path w = (True, x)" "os_faults x = []"
    using w o(4) assms(2) by (auto simp: sys_rename_def)
  with o v w assms(6) show ?thesis by (auto simp: config_save_file_def Let_def config_constants)
qed

theorem config_save_then_load_witness:
  "\<exists>t. config_save_file ''c'' config_set_defaults (mounted []) = (True, t) \<and>
    fst (config_load_file ''c'' t) = (CONFIG_LOAD_OK, Some ''ok'', config_set_defaults)"
proof -
  obtain t where t: "config_save_file ''c'' config_set_defaults (mounted []) = (True, t)" "os_faults t = []"
    using config_save_faultless [of "mounted []" "''c''" config_set_defaults]
    by (auto simp: mounted_def parent_exists_def split_at_last_def)
  have "own_temporary ''c'' (mounted [])" by (simp add: own_temporary_def no_link_def mounted_def)
  moreover have "wf_config config_set_defaults"
    using defaults_wf by (simp add: wf_config_def) (simp add: config_set_defaults_def)
  moreover have "\<forall>x \<in> set (storage_targets config_set_defaults). CHR ''|'' \<notin> set (st_path x)"
    by (simp add: config_set_defaults_def)
  ultimately have "fst (config_load_file ''c'' t) = (CONFIG_LOAD_OK, Some ''ok'',
      config_set_defaults\<lparr>internal_destination := internal_destination config_set_defaults,
        usb_destination := usb_destination config_set_defaults\<rparr>)"
    using config_save_then_load [OF t(1) _ _ _ refl] t(2) by (simp add: benign_def)
  then show ?thesis using t(1) by auto
qed

text \<open>
  Two gaps.  A line without a value is refused without a message, and a directory with the separator in
  its name can be configured but not saved.
\<close>

text \<open>C39: A first line that names a key but gives it no value makes the load fail as invalid, and no message is
  stored: the caller's buffer keeps whatever it held, which the caller then prints.\<close>
theorem config_empty_value_silent:
  assumes "plain_key k"
  shows "parse_config failed (k @ CHR ''='' # newline # rest) = (CONFIG_LOAD_INVALID, None, config_set_defaults)"
proof -
  let ?s = "k @ [CHR ''='']"
  have k: "k \<noteq> []" "trimmed k" "c_string k" "newline \<notin> set k" "length k < 100" "CHR ''='' \<notin> set k"
    "hd k \<noteq> CHR ''#''" "hd k \<noteq> CHR '';''" "code (hd k) < 128"
    using assms by (simp_all add: plain_key_def plain_value_def)
  have take: "fgets_take (Suc (CONFIG_LINE_CAPACITY - 2)) (?s @ newline # rest) = (?s @ [newline], rest)"
    by (rule fgets_take_line) (use k in \<open>simp_all add: config_constants\<close>)
  have t: "trim (?s @ [newline]) = ?s"
    by (rule trim_newline) (use k in \<open>simp_all add: trimmed_def isspace_def\<close>)
  have "c_string (?s @ [newline])" using k by (simp add: cstr_simps)
  then have c: "cstr (?s @ [newline]) = ?s @ [newline]" by simp
  obtain x k' where kx: "k = x # k'" using k by (cases k) auto
  have x: "x \<noteq> CHR 0xFF" "x \<noteq> CHR 0xFE" "x \<noteq> CHR 0xEF" using k(9) kx by (auto simp: of_char_def)
  have split: "split_at_first CHR ''='' ?s = Some (k, [])" using k by (simp add: cstr_simps)
  have "process_line True (?s @ [newline]) eof c0 seen = (Reject None, c0, seen)" for eof c0 seen
    using t c split k x by (simp add: process_line_def Let_def kx char_at_def trim_id trim_def [of "[]"])
  with take show ?thesis
    by (simp add: parse_config_def config_lines.simps reached_eof_def del: fgets_take.simps)
qed

theorem config_empty_value_silent_witness:
  "parse_config False (''port'' @ CHR ''='' # newline # []) = (CONFIG_LOAD_INVALID, None, config_set_defaults)"
proof -
  have "plain_key (config_keys ! 0)" using config_keys_plain config_keys_distinct by (simp add: list_all_length)
  then have "plain_key ''port''" by (simp add: config_keys_def)
  from config_empty_value_silent [OF this] show ?thesis by simp
qed

lemma add_target_separator:
  assumes "wf_target t" "CHR ''|'' \<in> set (st_path t)"
  shows "add_storage_target c (target_text t) = (Some ''invalid storage_path entry'', c)"
proof -
  note parts = target_parts [OF assms(1)]
  have rest: "trim (st_label t @ CHR ''|'' # st_path t) = st_label t @ CHR ''|'' # st_path t"
    by (rule trim_id) (use parts in \<open>simp add: trimmed_def plain_value_def\<close>)
  have "trim (target_text t) = target_text t" using target_text_plain [OF assms(1)] by (simp add: plain_value_def trim_id)
  then show ?thesis
    using assms parts rest
    by (simp add: add_storage_target_def Let_def target_text_def cstr_simps trim_id plain_value_def config_constants)
qed

text \<open>The converse of the round trip's proviso: when the path of the first target holds the separator
  '|', which a 'destination' line can bring about in an otherwise valid configuration, the file that a save
  writes is refused by the next load.\<close>
theorem config_separator_breaks_save:
  assumes "wf_config c" "CHR ''|'' \<in> set (st_path (hd (storage_targets c)))"
  shows "\<exists>d. parse_config False (config_text c) = (CONFIG_LOAD_INVALID, Some ''invalid storage_path entry'', d)"
proof -
  have wf: "wf_limits c" "safe_directory (destination c)" "wf_targets c" "storage_targets c \<noteq> []"
    using assms(1) by (auto simp: wf_config_def wf_settings_def wf_places_def)
  then obtain t ts where ts: "storage_targets c = t # ts" by (cases "storage_targets c") auto
  have t: "wf_target t" "CHR ''|'' \<in> set (st_path t)" using wf(3) assms(2) ts by (simp_all add: wf_targets_def)
  have i: "index_of (config_keys ! 7) config_keys = 7" "length config_keys = 11"
    using config_keys_distinct by (auto intro!: index_of_nth)
  have set7: "set_value 7 (target_text t) e = (Some ''invalid storage_path entry'', e)" for e
    using add_target_separator [OF t] by (simp add: set_value_def)
  let ?e = "before_targets c" and ?seen = "seen_all [0, 1, 10, 2, 3, 4]"
  obtain d seen' where "apply_value ?e (config_keys ! 7) (target_text t) ?seen = (Some ''invalid storage_path entry'', d, seen')"
    unfolding apply_value_def Let_def i by (simp add: set7)
  moreover have "plain_key (config_keys ! 7)" using config_keys_plain config_keys_distinct by (simp add: list_all_length)
  ultimately have "config_lines False False (storage_line t @ r) ?e ?seen = (Reject (Some ''invalid storage_path entry''), d, seen')" for r
    using read_line [OF _ target_text_plain [OF t(1)]] unfolding storage_line_text by simp
  then have "config_lines False True (config_text c) config_set_defaults 0 =
      (Reject (Some ''invalid storage_path entry''), d, seen')"
    unfolding read_before_targets [OF wf(1,2)] ts by simp
  then show ?thesis by (simp add: parse_config_def)
qed

theorem config_separator_breaks_save_witness:
  "\<exists>c d. parse_config False (''destination'' @ CHR ''='' # ''/data/a|b'' @ newline # []) = (CONFIG_LOAD_OK, Some ''ok'', c) \<and>
    parse_config False (config_text c) = (CONFIG_LOAD_INVALID, Some ''invalid storage_path entry'', d)"
proof -
  let ?p = "''/data/a|b''"
  have safe: "safe_directory ?p" "destination_is_safe_for_root ?p ''/data''"
    "\<not> destination_is_safe_for_root ?p ''/mnt/usb0''"
    by code_simp+
  have key: "''destination'' = config_keys ! 4" by (simp add: config_keys_def)
  let ?c1 = "config_set_defaults\<lparr>destination := ?p\<rparr>"
  have run: "config_lines False True (''destination'' @ CHR ''='' # ?p @ newline # []) config_set_defaults 0 = (Continue, ?c1, seen_with 0 4)"
    unfolding key by (subst read_setting [OF set_name(3) [OF safe(1)] safe_directory_plain [OF safe(1)]]) (simp_all add: config_lines.simps)
  have seen: "seen_key (seen_with 0 4) j \<longleftrightarrow> j = 4" for j by (auto simp: seen_with_iff)
  let ?c2 = "default_targets (?c1\<lparr>internal_destination := ?p\<rparr>) (seen_with 0 4)"
  have adopt: "adopt_destination ?c1 (seen_with 0 4) = ?c1\<lparr>internal_destination := ?p\<rparr>"
    using safe(2,3) by (simp add: adopt_destination_def seen)
  have targets: "storage_targets ?c2 =
      [\<lparr>st_id = ''internal'', st_label = ''Internal storage'', st_path = ?p\<rparr>,
       \<lparr>st_id = ''usb'', st_label = ''USB drive'', st_path = ''/mnt/usb0/ps5localsend/inbox''\<rparr>]"
    "destination ?c2 = ?p"
    by (simp_all add: default_targets_def seen default_targets_list config_set_defaults_def)
  have "settle_destination ?c2 = ?c2" by (simp add: settle_destination_def storage_by_path_def targets)
  then have loaded: "parse_config False (''destination'' @ CHR ''='' # ?p @ newline # []) = (CONFIG_LOAD_OK, Some ''ok'', ?c2)"
    using run by (simp add: parse_config_def Let_def adopt targets)
  have "wf_config ?c2" using parse_config_wf [OF loaded] by simp
  from config_separator_breaks_save [OF this] loaded show ?thesis by (auto simp: targets)
qed

end
