(* ===== verification/UploadJson.thy ===== *)
theory UploadJson
  imports SafePath
begin

text \<open>
  \<^verbatim>\<open>src/src/upload.c\<close>, the part that reads a request: the metadata of an upload (a JSON object with the
  members \<open>name\<close>, \<open>size\<close>, \<open>type\<close> and optionally \<open>sha256\<close>) and the test for names of temporary files.
  The cursor into the body is the list of the bytes that are left; a return of -1 is \<open>None\<close>.
\<close>

section \<open>Names of temporary files\<close>

definition UPLOAD_ID_HEX_BYTES :: nat where "UPLOAD_ID_HEX_BYTES = 32"
definition UPLOAD_METADATA_BYTES :: nat where "UPLOAD_METADATA_BYTES = 1024"
definition SHA256_HEX_BYTES :: nat where "SHA256_HEX_BYTES = 64"

lemmas metadata_constants = UPLOAD_ID_HEX_BYTES_def UPLOAD_METADATA_BYTES_def SHA256_HEX_BYTES_def

definition part_marker :: string where "part_marker = ''.ps5localsend-''"
definition part_suffix :: string where "part_suffix = ''.part''"

definition managed_part_name :: "string \<Rightarrow> bool" where
  "managed_part_name name \<longleftrightarrow>
     (if length name \<noteq> length part_marker + UPLOAD_ID_HEX_BYTES + length part_suffix then False
      else if take (length part_marker) name \<noteq> part_marker then False
      else if \<not> list_all lower_hex (take UPLOAD_ID_HEX_BYTES (drop (length part_marker) name)) then False
      else drop (length part_marker + UPLOAD_ID_HEX_BYTES) name = part_suffix)"

section \<open>Tokens\<close>

definition byte_space :: "byte \<Rightarrow> bool" where
  "byte_space b \<longleftrightarrow> b = 32 \<or> b = 9 \<or> b = 10 \<or> b = 13"

definition skip_ws :: "byte list \<Rightarrow> byte list" where
  "skip_ws bs = dropWhile byte_space bs"

definition byte_char :: "byte \<Rightarrow> char" where
  "byte_char b = char_of (unat b)"

fun take_byte :: "byte \<Rightarrow> byte list \<Rightarrow> byte list option" where
  "take_byte b [] = None"
| "take_byte b (c # cs) = (if c = b then Some cs else None)"

text \<open>
  The loop over the characters of a string, after its opening quote: what is stored and what follows the
  closing quote.  \<open>capacity\<close> is the room left, the terminating NUL included.
\<close>

fun json_chars :: "nat \<Rightarrow> byte list \<Rightarrow> (string \<times> byte list) option" where
  "json_chars capacity [] = None"
| "json_chars capacity (c # cs) =
     (if c = 0x22 then Some ([], cs)
      else if c = 0x5C
      then (case cs of
              [] \<Rightarrow> None
            | d # ds \<Rightarrow>
                (if d \<noteq> 0x22 \<and> d \<noteq> 0x5C \<and> d \<noteq> 0x2F then None
                 else if d < 0x20 \<or> capacity \<le> 1 then None
                 else map_option (\<lambda>(s, rest). (byte_char d # s, rest)) (json_chars (capacity - 1) ds)))
      else if c < 0x20 \<or> capacity \<le> 1 then None
      else map_option (\<lambda>(s, rest). (byte_char c # s, rest)) (json_chars (capacity - 1) cs))"

definition json_string :: "nat \<Rightarrow> byte list \<Rightarrow> (string \<times> byte list) option" where
  "json_string capacity bs = (case take_byte 0x22 bs of None \<Rightarrow> None | Some cs \<Rightarrow> json_chars capacity cs)"

definition byte_digit :: "byte \<Rightarrow> bool" where
  "byte_digit b \<longleftrightarrow> 0x30 \<le> b \<and> b \<le> 0x39"

text \<open>The loop over the digits: \<open>number > (UINT64_MAX - digit) / 10\<close> is the test for overflow.\<close>

fun json_digits :: "u64 \<Rightarrow> byte list \<Rightarrow> (u64 \<times> byte list) option" where
  "json_digits number [] = Some (number, [])"
| "json_digits number (c # cs) =
     (if byte_digit c
      then (let digit = ucast (c - 0x30) :: u64
            in if (- 1 - digit) div 10 < number then None else json_digits (number * 10 + digit) cs)
      else Some (number, c # cs))"

definition json_u64 :: "byte list \<Rightarrow> (u64 \<times> byte list) option" where
  "json_u64 bs =
     (case json_digits 0 bs of
        None \<Rightarrow> None
      | Some (number, rest) \<Rightarrow>
          (if length rest = length bs then None
           else if 1 < length bs - length rest \<and> hd bs = 0x30 then None
           else Some (number, rest)))"

section \<open>The object\<close>

record metadata =
  md_seen :: u32
  md_name :: string
  md_size :: u64
  md_type :: string
  md_hash :: string

text \<open>One member, its key read; the branches on the key.  \<open>seen\<close> has one bit per member.\<close>

definition metadata_value :: "string \<Rightarrow> nat \<Rightarrow> metadata \<Rightarrow> byte list \<Rightarrow> (metadata \<times> byte list) option" where
  "metadata_value key name_size m bs =
     (if key = ''name'' \<and> md_seen m AND 1 = 0 then
        map_option (\<lambda>(v, rest). (m\<lparr>md_name := v, md_seen := md_seen m OR 1\<rparr>, rest)) (json_string name_size bs)
      else if key = ''size'' \<and> md_seen m AND 2 = 0 then
        map_option (\<lambda>(v, rest). (m\<lparr>md_size := v, md_seen := md_seen m OR 2\<rparr>, rest)) (json_u64 bs)
      else if key = ''type'' \<and> md_seen m AND 4 = 0 then
        map_option (\<lambda>(v, rest). (m\<lparr>md_type := v, md_seen := md_seen m OR 4\<rparr>, rest)) (json_string 128 bs)
      else if key = ''sha256'' \<and> md_seen m AND 8 = 0 then
        (case json_string (SHA256_HEX_BYTES + 1) bs of
           None \<Rightarrow> None
         | Some (v, rest) \<Rightarrow>
             (if length v \<noteq> SHA256_HEX_BYTES \<or> \<not> list_all lower_hex v then None
              else Some (m\<lparr>md_hash := v, md_seen := md_seen m OR 8\<rparr>, rest)))
      else None)"

definition metadata_member :: "nat \<Rightarrow> metadata \<Rightarrow> byte list \<Rightarrow> (metadata \<times> byte list) option" where
  "metadata_member name_size m bs =
     (case json_string 16 bs of
        None \<Rightarrow> None
      | Some (key, bs) \<Rightarrow>
          (case take_byte 0x3A (skip_ws bs) of
             None \<Rightarrow> None
           | Some bs \<Rightarrow> metadata_value key name_size m (skip_ws bs)))"

lemma take_byte_Some [simp]: "take_byte b bs = Some cs \<longleftrightarrow> bs = b # cs"
  by (cases bs) auto

lemma length_skip_ws: "length (skip_ws bs) \<le> length bs"
  by (simp add: skip_ws_def length_dropWhile_le)

lemma json_chars_shorter: "json_chars n bs = Some (s, rest) \<Longrightarrow> length rest < length bs"
proof (induction n bs arbitrary: s rule: json_chars.induct)
  case (2 n c cs)
  show ?case
  proof (cases "c = 0x22 \<or> c \<noteq> 0x5C")
    case True
    with 2(2,3) show ?thesis by (auto split: if_splits)
  next
    case False
    with 2(3) obtain d ds v where "cs = d # ds" "json_chars (n - 1) ds = Some (v, rest)"
      by (auto split: list.splits if_splits)
    moreover from this False 2(3) have "length rest < length ds" by (intro 2(1)) (auto split: if_splits)
    ultimately show ?thesis by simp
  qed
qed simp

lemma json_string_shorter: "json_string n bs = Some (s, rest) \<Longrightarrow> length rest < length bs"
  by (auto simp: json_string_def dest!: json_chars_shorter split: option.splits)

lemma json_digits_length: "json_digits n bs = Some (v, rest) \<Longrightarrow> length rest \<le> length bs"
  by (induction n bs rule: json_digits.induct) (auto simp: Let_def split: if_splits)

lemma json_u64_shorter: "json_u64 bs = Some (v, rest) \<Longrightarrow> length rest < length bs"
proof -
  assume "json_u64 bs = Some (v, rest)"
  then have "json_digits 0 bs = Some (v, rest)" "length rest \<noteq> length bs"
    by (auto simp: json_u64_def split: option.splits if_splits)
  with json_digits_length [of 0 bs v rest] show "length rest < length bs" by simp
qed

lemma if_SomeE: "(if P then a else b) = Some x \<Longrightarrow> (P \<Longrightarrow> a = Some x \<Longrightarrow> Q) \<Longrightarrow> (\<not> P \<Longrightarrow> b = Some x \<Longrightarrow> Q) \<Longrightarrow> Q"
  by (cases P) simp_all

lemma metadata_value_shorter: "metadata_value key n m bs = Some (m', rest) \<Longrightarrow> length rest < length bs"
  unfolding metadata_value_def
  by (elim if_SomeE) (auto dest: json_string_shorter json_u64_shorter split: option.splits if_splits)

lemma metadata_member_shorter:
  assumes "metadata_member n m bs = Some (m', rest)"
  shows "length rest < length bs"
proof -
  from assms obtain key cs ds where k: "json_string 16 bs = Some (key, cs)" "skip_ws cs = 0x3A # ds"
    and v: "metadata_value key n m (skip_ws ds) = Some (m', rest)"
    by (auto simp: metadata_member_def split: option.splits)
  have "length rest < length (skip_ws ds)" by (rule metadata_value_shorter [OF v])
  also have "\<dots> \<le> length (skip_ws cs)" using length_skip_ws [of ds] k(2) by simp
  also have "\<dots> < length bs" using length_skip_ws [of cs] json_string_shorter [OF k(1)] by simp
  finally show ?thesis .
qed

text \<open>The loop over the members, after the opening brace: the fields and what follows the closing one.\<close>

function metadata_members :: "nat \<Rightarrow> metadata \<Rightarrow> byte list \<Rightarrow> (metadata \<times> byte list) option" where
  "metadata_members name_size m bs =
     (let bs = skip_ws bs
      in if bs \<noteq> [] \<and> hd bs = 0x7D then Some (m, tl bs)
         else case metadata_member name_size m bs of
             None \<Rightarrow> None
           | Some (m, bs) \<Rightarrow>
               (case skip_ws bs of
                  [] \<Rightarrow> None
                | c # cs \<Rightarrow>
                    (if c = 0x2C
                     then (let cs = skip_ws cs in if cs = [] \<or> hd cs = 0x7D then None else metadata_members name_size m cs)
                     else if c = 0x7D then Some (m, cs)
                     else None)))"
  by pat_completeness auto
termination
proof (relation "measure (\<lambda>(_, _, bs). length bs)", goal_cases)
  case (2 n m bs bs' x m' rest c cs cs')
  then have "length rest < length (skip_ws bs)" by (auto dest: metadata_member_shorter)
  moreover have "length (c # cs) \<le> length rest" using 2 length_skip_ws [of rest] by simp
  ultimately show ?case using 2 length_skip_ws [of bs] length_skip_ws [of cs] by simp
qed simp

declare metadata_members.simps [simp del]

text \<open>The whole body: the name, the size and the hash (empty when absent).\<close>

definition parse_metadata :: "nat \<Rightarrow> byte list option \<Rightarrow> (string \<times> u64 \<times> string) option" where
  "parse_metadata name_size json =
     (case json of
        None \<Rightarrow> None
      | Some body \<Rightarrow>
          (if body = [] then None
           else case take_byte 0x7B (skip_ws body) of
               None \<Rightarrow> None
             | Some bs \<Rightarrow>
                 (case metadata_members name_size \<lparr>md_seen = 0, md_name = [], md_size = 0, md_type = [], md_hash = []\<rparr> bs of
                    None \<Rightarrow> None
                  | Some (m, rest) \<Rightarrow>
                      (if skip_ws rest = [] \<and> md_seen m AND 7 = 7 \<and> validate_filename (md_name m) \<and>
                          \<not> managed_part_name (md_name m) \<and> md_type m \<noteq> []
                       then Some (md_name m, md_size m, md_hash m) else None))))"

section \<open>Numbers\<close>

lemma byte_digit_code: "byte_digit (uchar c) \<longleftrightarrow> isdigit c"
  by (simp add: byte_digit_def isdigit_def word_nat uchar_code)

lemma digit_value: "isdigit c \<Longrightarrow> unat (ucast (uchar c - 0x30) :: u64) = code c - 48"
proof -
  assume c: "isdigit c"
  then have "0x30 \<le> uchar c" by (simp add: isdigit_def word_nat uchar_code)
  then have "unat (uchar c - 0x30) = code c - 48" by (simp add: unat_diff_le uchar_code)
  moreover have "code c - 48 < 2 ^ LENGTH(64)" using c by (simp add: isdigit_def) linarith
  ultimately show ?thesis by (simp only: unsigned_ucast_eq take_bit_nat_eq_self)
qed

lemma overflow_test:
  assumes "unat digit < 10"
  shows "(- 1 - digit) div 10 < (number :: u64) \<longleftrightarrow> 18446744073709551615 < 10 * unat number + unat digit"
proof -
  have "unat (- 1 - digit :: u64) = 18446744073709551615 - unat digit"   proof -
    have "unat (18446744073709551615 - digit :: u64) = unat (18446744073709551615 :: u64) - unat digit"
      by (rule unat_diff_le) (use assms in \<open>simp add: word_nat\<close>)
    moreover have "(- 1 :: u64) = 18446744073709551615" "unat (18446744073709551615 :: u64) = 18446744073709551615" by simp_all
    ultimately show ?thesis by (simp only:)
  qed
  then have "unat ((- 1 - digit) div 10) = (18446744073709551615 - unat digit) div 10" by (simp add: unat_div)
  then show ?thesis using assms by (simp add: word_nat) linarith
qed

text \<open>The loop computes the value of the digits, without overflow, and stops behind them.\<close>

lemma json_digits_iff:
  assumes "list_all isdigit ds" "rest = [] \<or> \<not> byte_digit (hd rest)"
  shows "json_digits number (map uchar ds @ rest) =
    (let n = foldl (\<lambda>n c. 10 * n + (code c - 48)) (unat number) ds
     in if n \<le> 18446744073709551615 then Some (of_nat n, rest) else None)"
  using assms(1)
proof (induction ds arbitrary: number)
  case Nil
  have "unat number \<le> 18446744073709551615" using unat_u64_bound [of number] by simp
  moreover have "json_digits number rest = Some (number, rest)" using assms(2) by (cases rest) auto
  ultimately show ?case by simp
next
  case (Cons c ds)
  then have c: "isdigit c" and rest: "list_all isdigit ds" by simp_all
  define digit where "digit = (ucast (uchar c - 0x30) :: u64)"
  have d: "unat digit = code c - 48" unfolding digit_def by (rule digit_value [OF c])
  have small: "unat digit < 10" using c by (simp add: d isdigit_def) linarith
  let ?n = "10 * unat number + (code c - 48)"
  have mono: "m \<le> foldl (\<lambda>n c. 10 * n + (code c - 48)) m xs" for m xs
  proof (induction xs arbitrary: m)
    case (Cons x xs)
    from Cons [of "10 * m + (code x - 48)"] show ?case by simp
  qed simp
  show ?case
  proof (cases "18446744073709551615 < ?n")
    case True
    moreover from True have "json_digits number (map uchar (c # ds) @ rest) = None"
      using overflow_test [OF small, of number] c by (simp add: byte_digit_code Let_def digit_def [symmetric] d)
    moreover have "\<not> foldl (\<lambda>n c. 10 * n + (code c - 48)) ?n ds \<le> 18446744073709551615" using mono [of ?n ds] True by linarith
    ultimately show ?thesis by (simp add: Let_def)
  next
    case False
    then have "unat (number * 10 + digit) = ?n"
    proof -
      have "unat (number * 10) = unat number * unat (10 :: u64)"
        by (rule iffD1 [OF unat_mult_lem]) (use False in simp)
      then have "unat (number * 10) = unat number * 10" by simp
      then show ?thesis using False d by (subst unat_add_no_wrap) simp_all
    qed
    moreover have "json_digits number (map uchar (c # ds) @ rest) = json_digits (number * 10 + digit) (map uchar ds @ rest)"
      using overflow_test [OF small, of number] c False by (simp add: byte_digit_code Let_def digit_def [symmetric] d)
    ultimately show ?thesis using Cons.IH [OF rest, of "number * 10 + digit"] by simp
  qed
qed

lemma code_zero: "code c = 48 \<longleftrightarrow> c = CHR ''0''"
proof -
  have "code (CHR ''0'') = 48" by simp
  then show ?thesis by (metis code_inject)
qed

text \<open>Digits without a leading zero are what printing their value gives.\<close>

lemma canonical_digits:
  assumes "ds \<noteq> []" "list_all isdigit ds" "length ds = 1 \<or> hd ds \<noteq> CHR ''0''"
  shows "ds = dec_string (dec_value ds) \<and> (hd ds \<noteq> CHR ''0'' \<longrightarrow> 0 < dec_value ds)"
  using assms
proof (induction ds rule: rev_induct)
  case (snoc c ds)
  then have c: "48 \<le> code c" "code c \<le> 57" by (auto simp: isdigit_def)
  have digit: "char_of (48 + (code c - 48)) = c" using c(1) by simp
  show ?case
  proof (cases "ds = []")
    case True
    have "c \<noteq> CHR ''0'' \<Longrightarrow> 48 < code c" using c(1) code_zero [of c] by linarith
    with c digit show ?thesis unfolding True by (subst dec_string.simps) (auto simp: dec_value_def)
  next
    case False
    have ih: "ds = dec_string (dec_value ds)" "0 < dec_value ds"
      using snoc False by (auto simp: hd_append)
    obtain k where k: "code c - 48 = k" "k < 10" using c by fastforce
    then have "dec_value (ds @ [c]) div 10 = dec_value ds" "dec_value (ds @ [c]) mod 10 = code c - 48" "\<not> dec_value (ds @ [c]) < 10"
      using ih(2) unfolding dec_value_snoc k(1) by auto
    then have "dec_string (dec_value (ds @ [c])) = ds @ [c]" by (subst dec_string.simps) (simp add: digit ih(1) [symmetric])
    then show ?thesis using ih(2) by (simp add: dec_value_snoc)
  qed
qed simp

lemma dec_string_no_leading_zero: "\<not> (1 < length (dec_string n) \<and> hd (dec_string n) = CHR ''0'')"
proof (induction n rule: dec_string.induct)
  case (1 n)
  show ?case
  proof (cases "n < 10")
    case True then show ?thesis by (subst (1 2) dec_string.simps) simp
  next
    case False
    show ?thesis
    proof (cases "n div 10 < 10")
      case True
      have "char_of (48 + n div 10) \<noteq> CHR ''0''"
        using True False code_digit [OF True] by (auto simp flip: code_zero)
      then show ?thesis using False True by (subst (1 2) dec_string.simps, subst (1 2) dec_string.simps) simp
    next
      case long: False
      have "1 < length (dec_string (n div 10))" using long by (subst dec_string.simps) simp
      with 1 False have "hd (dec_string (n div 10)) \<noteq> CHR ''0''" by simp
      then show ?thesis using False by (subst (2) dec_string.simps) (simp add: hd_append)
    qed
  qed
qed

lemma digit_text: "bs = map uchar (map byte_char bs)"
  by (induction bs) (simp_all add: byte_char_def)

lemma json_u64_canonical:
  "json_u64 bs = Some (n, rest) \<longleftrightarrow> bs = map uchar (dec_string (unat n)) @ rest \<and> (rest = [] \<or> \<not> byte_digit (hd rest))"
proof -
  define ds where "ds = map byte_char (takeWhile byte_digit bs)"
  define r where "r = dropWhile byte_digit bs"
  have bs: "bs = map uchar ds @ r" unfolding ds_def r_def by (metis digit_text takeWhile_dropWhile_id)
  have digits: "list_all isdigit ds"
    by (auto simp: ds_def list_all_iff byte_digit_code [symmetric] byte_char_def dest: set_takeWhileD)
  have r: "r = [] \<or> \<not> byte_digit (hd r)" unfolding r_def by (metis hd_dropWhile)
  have run: "json_digits 0 bs = (if dec_value ds \<le> 18446744073709551615 then Some (of_nat (dec_value ds), r) else None)"
    unfolding bs using json_digits_iff [OF digits r, of 0] by (simp add: dec_value_def Let_def)
  have first: "hd bs = 0x30 \<longleftrightarrow> hd ds = CHR ''0''" if "ds \<noteq> []"
    using that by (cases ds) (auto simp: bs word_eq_unat uchar_code code_zero)
  have len: "length bs = length ds + length r" by (simp add: bs)
  have outcome: "json_u64 bs = (if dec_value ds \<le> 18446744073709551615 \<and> ds \<noteq> [] \<and> \<not> (1 < length ds \<and> hd ds = CHR ''0'')
      then Some (of_nat (dec_value ds), r) else None)"
    using first by (auto simp: json_u64_def run len)
  have unique: "map uchar ds = map uchar (dec_string (unat n)) \<and> r = rest"
    if "bs = map uchar (dec_string (unat n)) @ rest" "rest = [] \<or> \<not> byte_digit (hd rest)"
  proof -
    have "list_all byte_digit (map uchar (dec_string (unat n)))"
      using dec_string_digits by (auto simp: list_all_iff byte_digit_code)
    then have "takeWhile byte_digit bs = map uchar (dec_string (unat n))" "dropWhile byte_digit bs = rest"
      using that by (cases rest; auto simp: list_all_iff takeWhile_append dropWhile_append)+
    then show ?thesis using digit_text by (metis ds_def r_def)
  qed
  show ?thesis
  proof
    assume "json_u64 bs = Some (n, rest)"
    then have n: "dec_value ds \<le> 18446744073709551615" "n = of_nat (dec_value ds)" "rest = r" and ne: "ds \<noteq> []"
      and lead: "length ds = 1 \<or> hd ds \<noteq> CHR ''0''"
      by (cases ds; auto simp: outcome split: if_splits)+
    have "ds = dec_string (dec_value ds)" using canonical_digits [OF ne digits lead] by blast
    moreover have "unat n = dec_value ds" using n(1,2) by (simp add: unat_of_nat)
    ultimately show "bs = map uchar (dec_string (unat n)) @ rest \<and> (rest = [] \<or> \<not> byte_digit (hd rest))"
      using bs n(3) r by metis
  next
    assume a: "bs = map uchar (dec_string (unat n)) @ rest \<and> (rest = [] \<or> \<not> byte_digit (hd rest))"
    with unique have u: "ds = dec_string (unat n)" "r = rest" by (auto simp: map_injective inj_def)
    have ne: "ds \<noteq> []" by (simp add: u(1))
    have "unat n \<le> 18446744073709551615" using unat_u64_bound [of n] by simp
    moreover have "\<not> (1 < length ds \<and> hd ds = CHR ''0'')"
      unfolding u(1) by (rule dec_string_no_leading_zero)
    ultimately show "json_u64 bs = Some (n, rest)" using ne by (simp add: outcome u)
  qed
qed

text \<open>A JSON number is read exactly when the text starts with the canonical decimal form of a 64-bit number
  (no sign, no leading zero, no digit following); every number up to 2^64 - 1 is read with its exact value, and a
  larger one is refused rather than wrapped.\<close>
theorem json_u64_iff:
  "json_u64 bs = Some (n, rest) \<longleftrightarrow> bs = map uchar (dec_string (unat n)) @ rest \<and> takeWhile byte_digit rest = []"
  by (cases rest) (simp_all add: json_u64_canonical)

lemma json_u64_reads:
  "rest = [] \<or> \<not> byte_digit (hd rest) \<Longrightarrow> json_u64 (map uchar (dec_string (unat n)) @ rest) = Some (n, rest)"
  by (simp add: json_u64_canonical)

section \<open>Accepted metadata\<close>

lemma json_chars_length: "json_chars n bs = Some (s, rest) \<Longrightarrow> 0 < n \<Longrightarrow> length s < n"
proof (induction n bs arbitrary: s rule: json_chars.induct)
  case (2 n c cs)
  show ?case
  proof (cases "c = 0x22 \<or> c \<noteq> 0x5C")
    case True
    with 2(2-4) show ?thesis by (fastforce split: if_splits)
  next
    case False
    with 2(3) obtain d ds v where "cs = d # ds" "json_chars (n - 1) ds = Some (v, rest)" "s = byte_char d # v" "1 < n"
      by (auto split: list.splits if_splits)
    moreover from this False 2(3) have "length v < n - 1" by (intro 2(1)) (auto split: if_splits)
    ultimately show ?thesis by simp
  qed
qed simp

lemma json_string_length: "json_string n bs = Some (s, rest) \<Longrightarrow> 0 < n \<Longrightarrow> length s < n"
  by (auto simp: json_string_def dest!: json_chars_length split: option.splits)

definition metadata_ok :: "metadata \<Rightarrow> bool" where
  "metadata_ok m \<longleftrightarrow> length (md_type m) < 128 \<and>
     (md_hash m = [] \<or> length (md_hash m) = SHA256_HEX_BYTES \<and> list_all lower_hex (md_hash m))"

lemma metadata_value_ok: "metadata_value key n m bs = Some (m', rest) \<Longrightarrow> metadata_ok m \<Longrightarrow> metadata_ok m'"
  unfolding metadata_value_def metadata_ok_def
  by (elim if_SomeE) (auto dest: json_string_length split: option.splits if_splits)

lemma metadata_member_ok: "metadata_member n m bs = Some (m', rest) \<Longrightarrow> metadata_ok m \<Longrightarrow> metadata_ok m'"
  by (auto simp: metadata_member_def dest: metadata_value_ok split: option.splits)

lemma metadata_members_ok: "metadata_members n m bs = Some (m', rest) \<Longrightarrow> metadata_ok m \<Longrightarrow> metadata_ok m'"
proof (induction n m bs rule: metadata_members.induct)
  case (1 n m bs)
  show ?case
  proof (cases "skip_ws bs \<noteq> [] \<and> hd (skip_ws bs) = 0x7D")
    case True
    with 1(2,3) show ?thesis by (subst (asm) metadata_members.simps) (simp add: Let_def)
  next
    case False
    then obtain m1 bs1 where m: "metadata_member n m (skip_ws bs) = Some (m1, bs1)"
      using 1(2) by (subst (asm) metadata_members.simps) (auto simp: Let_def split: option.splits)
    with False 1(2) obtain c cs where c: "skip_ws bs1 = c # cs"
      by (subst (asm) metadata_members.simps) (auto simp: Let_def split: list.splits)
    have m1: "metadata_ok m1" using metadata_member_ok [OF m 1(3)] .
    show ?thesis
    proof (cases "c = 0x2C")
      case True
      with False m c 1(2) have "\<not> (skip_ws cs = [] \<or> hd (skip_ws cs) = 0x7D)" "metadata_members n m1 (skip_ws cs) = Some (m', rest)"
        by (subst (asm) metadata_members.simps, simp add: Let_def split: if_splits)+
      with 1(1) [OF refl False m refl c True refl] m1 show ?thesis by blast
    next
      case False
      with \<open>\<not> (skip_ws bs \<noteq> [] \<and> hd (skip_ws bs) = 0x7D)\<close> m c 1(2) m1 show ?thesis
        by (subst (asm) metadata_members.simps) (auto simp: Let_def split: if_splits)
    qed
  qed
qed

text \<open>C28: Whatever bytes a client sends, metadata that is accepted names a file with a valid name (no separator, no
  control character, at most 255 bytes, valid UTF-8) that is not a name for temporary files, and its hash is either
  absent or 64 lower-case hexadecimal digits.\<close>
theorem parse_metadata_sound:
  assumes "parse_metadata n json = Some (name, amount, hash)"
  shows "validate_filename name \<and> \<not> managed_part_name name \<and>
    (hash = [] \<or> length hash = SHA256_HEX_BYTES \<and> list_all lower_hex hash)"
proof -
  from assms obtain bs m rest where
    m: "metadata_members n \<lparr>md_seen = 0, md_name = [], md_size = 0, md_type = [], md_hash = []\<rparr> bs = Some (m, rest)"
    and "validate_filename (md_name m)" "\<not> managed_part_name (md_name m)" "name = md_name m" "hash = md_hash m"
    by (auto simp: parse_metadata_def split: option.splits if_splits)
  moreover from metadata_members_ok [OF m] have "metadata_ok m" by (simp add: metadata_ok_def)
  ultimately show ?thesis by (simp add: metadata_ok_def)
qed

section \<open>Round trip\<close>

text \<open>The text that the web page's \<open>JSON.stringify\<close> sends.\<close>

definition dquote :: char where "dquote = CHR 0x22"

definition escape_char :: "char \<Rightarrow> string" where
  "escape_char c = (if c = dquote \<or> c = CHR 0x5C then [CHR 0x5C, c] else [c])"

definition json_quote :: "string \<Rightarrow> string" where
  "json_quote s = dquote # concat (map escape_char s) @ [dquote]"

definition json_member :: "string \<Rightarrow> string \<Rightarrow> string" where
  "json_member key v = json_quote key @ CHR '':'' # v"

definition metadata_text :: "string \<Rightarrow> u64 \<Rightarrow> string \<Rightarrow> string \<Rightarrow> string" where
  "metadata_text name amount type_name hash =
     CHR ''{'' # json_member ''name'' (json_quote name) @ CHR '','' # json_member ''size'' (dec_string (unat amount)) @
     CHR '','' # json_member ''type'' (json_quote type_name) @
     (if hash = [] then [] else CHR '','' # json_member ''sha256'' (json_quote hash)) @ [CHR ''}'']"

lemma byte_char_uchar [simp]: "byte_char (uchar c) = c"
  by (simp add: byte_char_def uchar_code)

lemma json_chars_quote:
  "list_all (\<lambda>c. 0x20 \<le> code c) s \<Longrightarrow> length s < n \<Longrightarrow>
   json_chars n (map uchar (concat (map escape_char s)) @ 0x22 # rest) = Some (s, rest)"
proof (induction s arbitrary: n)
  case (Cons c s)
  have c: "\<not> uchar c < 0x20" using Cons.prems by (simp add: word_nat uchar_code not_less)
  have special: "uchar c = 0x22 \<longleftrightarrow> c = dquote" "uchar c = 0x5C \<longleftrightarrow> c = CHR 0x5C"
    using uchar_inject [of c dquote] uchar_inject [of c "CHR 0x5C"] by (simp_all add: dquote_def)
  define t where "t = map uchar (concat (map escape_char s)) @ 0x22 # rest"
  have t: "json_chars (n - 1) t = Some (s, rest)" using Cons by (simp add: t_def)
  have n: "\<not> n \<le> 1" using Cons.prems by simp
  show ?case
  proof (cases "c = dquote \<or> c = CHR 0x5C")
    case True
    then have e: "escape_char c = [CHR 0x5C, c]" by (simp add: escape_char_def)
    have "json_chars n (0x5C # uchar c # t) = Some (byte_char (uchar c) # s, rest)"
      using True special c n t by auto
    then show ?thesis by (simp add: e t_def)
  next
    case False
    then have e: "escape_char c = [c]" by (simp add: escape_char_def)
    have "json_chars n (uchar c # t) = Some (byte_char (uchar c) # s, rest)"
      using False special c n t by auto
    then show ?thesis by (simp add: e t_def)
  qed
qed simp

lemma json_string_quote:
  assumes "list_all (\<lambda>c. 0x20 \<le> code c) s" "length s < n"
  shows "json_string n (map uchar (json_quote s) @ rest) = Some (s, rest)"
  using json_chars_quote [OF assms, of rest] by (simp add: json_string_def json_quote_def dquote_def)

lemma skip_ws_id: "bs = [] \<or> \<not> byte_space (hd bs) \<Longrightarrow> skip_ws bs = bs"
  by (cases bs) (auto simp: skip_ws_def)

lemma member_key:
  assumes "list_all (\<lambda>c. 0x20 \<le> code c) key" "length key < 16" "bs = [] \<or> \<not> byte_space (hd bs)"
  shows "metadata_member n m (map uchar (json_quote key) @ 0x3A # bs) = metadata_value key n m bs"
  using json_string_quote [OF assms(1,2), of "0x3A # bs"] assms(3)
  by (simp add: metadata_member_def skip_ws_id byte_space_def)

text \<open>One member, with what follows it.\<close>

lemma members_step:
  assumes "metadata_member n m bs = Some (m', c # rest)" "bs \<noteq> []" "hd bs = 0x22"
    "c = 0x2C \<Longrightarrow> rest \<noteq> [] \<and> hd rest = 0x22" "c = 0x2C \<or> c = 0x7D"
  shows "metadata_members n m bs = (if c = 0x2C then metadata_members n m' rest else Some (m', rest))"
proof -
  have "skip_ws bs = bs" using assms(3) by (intro skip_ws_id) (simp add: byte_space_def)
  moreover have "skip_ws (c # rest) = c # rest" using assms(5) by (intro skip_ws_id) (auto simp: byte_space_def)
  moreover have "c = 0x2C \<Longrightarrow> skip_ws rest = rest" using assms(4) by (intro skip_ws_id) (auto simp: byte_space_def)
  ultimately show ?thesis
    using assms by (subst metadata_members.simps) (auto simp: Let_def)
qed

lemma read_member:
  assumes "metadata_value key n m (map uchar v @ rest) = Some r" "list_all (\<lambda>c. 0x20 \<le> code c) key" "length key < 16"
    "v \<noteq> []" "\<not> byte_space (uchar (hd v))"
  shows "metadata_member n m (map uchar (json_member key v) @ rest) = Some r"
proof -
  have "map uchar v @ rest = [] \<or> \<not> byte_space (hd (map uchar v @ rest))" using assms(4,5) by (cases v) auto
  from member_key [OF assms(2,3) this, of n m] assms(1) show ?thesis by (simp add: json_member_def)
qed

lemma quote_first: "json_quote s \<noteq> []" "\<not> byte_space (uchar (hd (json_quote s)))"
  by (simp_all add: json_quote_def dquote_def byte_space_def)

lemma number_first: "\<not> byte_space (uchar (hd (dec_string n)))"
  using dec_string_digits [of "hd (dec_string n)" n] by (auto simp: byte_space_def word_eq_unat uchar_code isdigit_def)

lemma read_name:
  assumes "md_seen m AND 1 = 0" "list_all (\<lambda>c. 0x20 \<le> code c) v" "length v < n"
  shows "metadata_member n m (map uchar (json_member ''name'' (json_quote v)) @ rest) =
    Some (m\<lparr>md_name := v, md_seen := md_seen m OR 1\<rparr>, rest)"
  by (rule read_member)
    (unfold metadata_value_def json_string_quote [OF assms(2,3)], use assms(1) quote_first in simp_all)

lemma read_size:
  assumes "md_seen m AND 2 = 0" "rest = [] \<or> \<not> byte_digit (hd rest)"
  shows "metadata_member n m (map uchar (json_member ''size'' (dec_string (unat v))) @ rest) =
    Some (m\<lparr>md_size := v, md_seen := md_seen m OR 2\<rparr>, rest)"
proof -
  have "json_u64 (map uchar (dec_string (unat v)) @ rest) = Some (v, rest)" using assms(2) by (simp add: json_u64_reads)
  then show ?thesis
    by (intro read_member) (unfold metadata_value_def, use assms(1) number_first in simp_all)
qed

lemma read_type:
  assumes "md_seen m AND 4 = 0" "list_all (\<lambda>c. 0x20 \<le> code c) v" "length v < 128"
  shows "metadata_member n m (map uchar (json_member ''type'' (json_quote v)) @ rest) =
    Some (m\<lparr>md_type := v, md_seen := md_seen m OR 4\<rparr>, rest)"
  by (rule read_member)
    (unfold metadata_value_def json_string_quote [OF assms(2,3)], use assms(1) quote_first in simp_all)

lemma lower_hex_printable: "lower_hex c \<Longrightarrow> 0x20 \<le> code c"
  by (auto simp: lower_hex_def isdigit_def)

lemma read_hash:
  assumes "md_seen m AND 8 = 0" "list_all lower_hex v" "length v = SHA256_HEX_BYTES"
  shows "metadata_member n m (map uchar (json_member ''sha256'' (json_quote v)) @ rest) =
    Some (m\<lparr>md_hash := v, md_seen := md_seen m OR 8\<rparr>, rest)"
proof -
  have "list_all (\<lambda>c. 0x20 \<le> code c) v" using assms(2) lower_hex_printable by (auto simp: list_all_iff)
  from json_string_quote [OF this, of "SHA256_HEX_BYTES + 1"] assms(3)
  have "json_string (SHA256_HEX_BYTES + 1) (map uchar (json_quote v) @ rest) = Some (v, rest)" by simp
  then show ?thesis
    by (intro read_member) (unfold metadata_value_def, use assms quote_first in simp_all)
qed

lemma parse_metadata_text:
  assumes "validate_filename name" "\<not> managed_part_name name"
    "type_name \<noteq> []" "length type_name < 128" "list_all (\<lambda>c. 0x20 \<le> code c) type_name"
    "hash = [] \<or> length hash = SHA256_HEX_BYTES \<and> list_all lower_hex hash"
  shows "parse_metadata (SAFE_PATH_NAME_BYTES + 1) (Some (map uchar (metadata_text name amount type_name hash))) =
    Some (name, amount, hash)"
proof -
  let ?n = "SAFE_PATH_NAME_BYTES + 1"
  let ?m = "\<lparr>md_seen = 0, md_name = [], md_size = 0, md_type = [], md_hash = []\<rparr>"
  have "list_all name_char name" and length: "length name < ?n"
    using assms(1) by (simp_all add: validate_filename_def split: if_split_asm)
  then have name: "list_all (\<lambda>c. 0x20 \<le> code c) name" by (auto simp: name_char_def elim: list.pred_mono_strong)
  let ?member = "\<lambda>k v. map uchar (json_member k v)"
  define hash_part where "hash_part = (if hash = [] then [0x7D] else 0x2C # ?member ''sha256'' (json_quote hash) @ [0x7D])"
  define type_part where "type_part = ?member ''type'' (json_quote type_name) @ hash_part"
  define size_part where "size_part = ?member ''size'' (dec_string (unat amount)) @ 0x2C # type_part"
  have text_bytes: "map uchar (metadata_text name amount type_name hash) =
      0x7B # ?member ''name'' (json_quote name) @ 0x2C # size_part"
    by (simp add: metadata_text_def size_part_def type_part_def hash_part_def)
  let ?m1 = "?m\<lparr>md_name := name, md_seen := 1\<rparr>"
  let ?m2 = "?m1\<lparr>md_size := amount, md_seen := 3\<rparr>"
  let ?m3 = "?m2\<lparr>md_type := type_name, md_seen := 7\<rparr>"
  have first: "?member k v @ r \<noteq> []" "hd (?member k v @ r) = 0x22" for k v r
    by (simp_all add: json_member_def json_quote_def dquote_def)
  have "metadata_members ?n ?m (?member ''name'' (json_quote name) @ 0x2C # size_part) = metadata_members ?n ?m1 size_part"
    using members_step [OF read_name [of ?m name ?n "0x2C # size_part"]] name length first
    by (simp add: size_part_def)
  also have "\<dots> = metadata_members ?n ?m2 type_part"
    using members_step [OF read_size [of ?m1 "0x2C # type_part" ?n amount]] first
    by (simp add: size_part_def type_part_def byte_digit_def word_nat)
  also have "\<dots> = Some (?m3\<lparr>md_hash := hash, md_seen := (if hash = [] then 7 else 15)\<rparr>, [])"
  proof (cases "hash = []")
    case True
    then show ?thesis
      using members_step [OF read_type [of ?m2 type_name ?n "[0x7D]"]] first assms(4,5)
      by (simp add: type_part_def hash_part_def)
  next
    case False
    have "metadata_members ?n ?m2 type_part = metadata_members ?n ?m3 (?member ''sha256'' (json_quote hash) @ [0x7D])"
      using members_step [OF read_type [of ?m2 type_name ?n "0x2C # ?member ''sha256'' (json_quote hash) @ [0x7D]"]]
        first assms(4,5) False by (simp add: type_part_def hash_part_def)
    also have "\<dots> = Some (?m3\<lparr>md_hash := hash, md_seen := 15\<rparr>, [])"
      using members_step [OF read_hash [of ?m3 hash ?n "[0x7D]"]] first assms(6) False by simp
    finally show ?thesis using False by simp
  qed
  finally show ?thesis
    using assms unfolding text_bytes by (simp add: parse_metadata_def skip_ws_def byte_space_def)
qed

text \<open>C30: The body that the web page sends is read back exactly: for every valid file name that is not a
  temporary name, every 64-bit size, every non-empty type of fewer than 128 printable bytes (quotes and
  backslashes are escaped) and every hash or none.\<close>
theorem parse_metadata_roundtrip:
  assumes "validate_filename name" "\<not> managed_part_name name"
    "type_name \<noteq> []" "length type_name < 128" "list_all (\<lambda>c. 0x20 \<le> code c) type_name"
    "hash = [] \<or> length hash = SHA256_HEX_BYTES \<and> list_all lower_hex hash"
  shows "parse_metadata (SAFE_PATH_NAME_BYTES + 1) (Some (map uchar (metadata_text name amount type_name hash))) =
    Some (name, amount, hash)"
  using assms by (rule parse_metadata_text)

theorem parse_metadata_roundtrip_witness:
  "parse_metadata (SAFE_PATH_NAME_BYTES + 1) (Some (map uchar (metadata_text ''a.pkg'' 5 ''text/plain'' []))) =
    Some (''a.pkg'', 5, [])"
  by (rule parse_metadata_roundtrip)
    (simp_all add: validate_filename_def name_char_def valid_utf8_ascii managed_part_name_def part_marker_def part_suffix_def
      SAFE_PATH_NAME_BYTES_def metadata_constants)

theorem parse_metadata_sound_witness:
  "\<exists>b. parse_metadata (SAFE_PATH_NAME_BYTES + 1) (Some b) = Some (''a.pkg'', 5, []) \<and> validate_filename ''a.pkg''"
proof -
  have "parse_metadata (SAFE_PATH_NAME_BYTES + 1) (Some (map uchar (metadata_text ''a.pkg'' 5 ''text/plain'' []))) =
      Some (''a.pkg'', 5, [])"
    by (rule parse_metadata_text)
      (simp_all add: validate_filename_def name_char_def valid_utf8_ascii managed_part_name_def part_marker_def part_suffix_def
        SAFE_PATH_NAME_BYTES_def metadata_constants)
  then show ?thesis using parse_metadata_sound by blast
qed

end
