(* ===== verification/RouterText.thy ===== *)
theory RouterText
  imports UploadJson Config Auth
begin

text \<open>
  The texts that \<^verbatim>\<open>src/src/router.c\<close> reads and writes: the escapes of JSON strings, the comparison of
  \<open>Origin\<close> with \<open>Host\<close>, the media type, the body of a storage request, the paths that carry an upload's
  identifier, and \<open>Content-Range\<close>.  A cursor into a buffer is the rest of the buffer; an output buffer of
  a given size is the string written so far.  A header that is absent is \<open>None\<close>.
\<close>

section \<open>Requests and responses\<close>

definition ROUTER_MAX_METHOD_BYTES :: nat where "ROUTER_MAX_METHOD_BYTES = 16"
definition ROUTER_MAX_PATH_BYTES :: nat where "ROUTER_MAX_PATH_BYTES = 2048"
definition ROUTER_MAX_AUTH_BODY_BYTES :: nat where "ROUTER_MAX_AUTH_BODY_BYTES = 512"
definition ROUTER_MAX_METADATA_BODY_BYTES :: nat where "ROUTER_MAX_METADATA_BODY_BYTES = UPLOAD_METADATA_BYTES"
definition RESPONSE_STORAGE_BYTES :: nat where "RESPONSE_STORAGE_BYTES = 16384"

lemmas router_constants = ROUTER_MAX_METHOD_BYTES_def ROUTER_MAX_PATH_BYTES_def ROUTER_MAX_AUTH_BODY_BYTES_def
  ROUTER_MAX_METADATA_BODY_BYTES_def RESPONSE_STORAGE_BYTES_def UPLOAD_METADATA_BYTES_def

record router_request =
  rq_method :: string
  rq_path :: string
  rq_body :: "byte list option"
  rq_body_size :: nat
  rq_client_address :: string
  rq_host :: "string option"
  rq_origin :: "string option"
  rq_content_type :: "string option"
  rq_authorization :: "string option"
  rq_content_range :: "string option"

text \<open>The body of a response is the bytes its pointer and size denote, in its own storage or in an asset.\<close>

record router_response =
  rs_status :: nat
  rs_content_type :: "string option"
  rs_cache_control :: "string option"
  rs_allow :: "string option"
  rs_body :: "byte list"

text \<open>The response after \<open>memset\<close>.\<close>

definition no_response :: router_response where
  "no_response = \<lparr>rs_status = 0, rs_content_type = None, rs_cache_control = None, rs_allow = None, rs_body = []\<rparr>"

text \<open>The first \<open>body_size\<close> bytes of the body, which is what its readers look at.\<close>

definition request_body :: "router_request \<Rightarrow> byte list option" where
  "request_body request = map_option (take (rq_body_size request)) (rq_body request)"

section \<open>Writing JSON\<close>

definition json_response :: "router_response \<Rightarrow> nat \<Rightarrow> string \<Rightarrow> router_response" where
  "json_response response status content =
     response\<lparr>rs_status := status, rs_content_type := Some ''application/json; charset=utf-8'',
       rs_cache_control := Some ''no-store'', rs_body := map uchar content\<rparr>"

definition error_text :: "string \<Rightarrow> string \<Rightarrow> string" where
  \<open>error_text error_code message = ''{"error":{"code":"'' @ error_code @ ''","message":"'' @ message @ ''"}}'' @ [CHR 0x0A]\<close>

definition set_json_error :: "router_response \<Rightarrow> nat \<Rightarrow> string \<Rightarrow> string \<Rightarrow> router_response" where
  "set_json_error response status error_code message =
     json_response response status
       (if RESPONSE_STORAGE_BYTES \<le> length (error_text error_code message) then [] else error_text error_code message)"

text \<open>How every handler ends: the text is stored if it fits, or else there is an internal error.\<close>

definition reply :: "router_response \<Rightarrow> nat \<Rightarrow> string \<Rightarrow> router_response" where
  "reply response status content =
     (if RESPONSE_STORAGE_BYTES \<le> length content
      then set_json_error response 500 ''internal_error'' ''Unable to create response''
      else json_response response status content)"

fun escape_filename :: "nat \<Rightarrow> string \<Rightarrow> string \<Rightarrow> string option" where
  "escape_filename capacity out [] = Some out"
| "escape_filename capacity out (c # cs) =
     (if c = CHR 0x22 \<or> c = CHR 0x5C
      then (if capacity \<le> length out + 1 then None
            else let out = out @ [CHR 0x5C]
                 in if capacity \<le> length out + 1 then None else escape_filename capacity (out @ [c]) cs)
      else if capacity \<le> length out + 1 then None else escape_filename capacity (out @ [c]) cs)"

definition json_escape_filename :: "string \<Rightarrow> nat \<Rightarrow> string option" where
  "json_escape_filename input capacity = (if capacity = 0 then None else escape_filename capacity [] input)"

fun escape_string :: "nat \<Rightarrow> string \<Rightarrow> string \<Rightarrow> string option" where
  "escape_string capacity out [] = Some out"
| "escape_string capacity out (c # cs) =
     (if c = CHR 0x22 \<or> c = CHR 0x5C
      then (if capacity \<le> length out + 2 then None else escape_string capacity (out @ [CHR 0x5C, c]) cs)
      else if code c < 0x20
      then (if capacity \<le> length out + 6 then None
            else escape_string capacity (out @ CHR 0x5C # ''u00'' @ hex_pair (uchar c)) cs)
      else if capacity \<le> length out + 1 then None else escape_string capacity (out @ [c]) cs)"

definition json_escape_string :: "string \<Rightarrow> nat \<Rightarrow> string option" where
  "json_escape_string input capacity = (if capacity = 0 then None else escape_string capacity [] input)"

section \<open>Origin, host and media type\<close>

definition valid_host :: "string option \<Rightarrow> bool" where
  "valid_host host =
     (case host of
        None \<Rightarrow> False
      | Some h \<Rightarrow> h \<noteq> [] \<and> length h \<le> 255 \<and>
          list_all (\<lambda>c. \<not> (code c \<le> 0x20 \<or> code c = 0x7f \<or> c = CHR ''/'' \<or> c = CHR 0x5C \<or> c = CHR ''@'' \<or> c = CHR ''#'')) h)"

definition same_origin :: "router_request \<Rightarrow> bool" where
  "same_origin request \<longleftrightarrow> valid_host (rq_host request) \<and> rq_origin request \<noteq> None \<and>
     (let expected = ''http://'' @ the (rq_host request)
      in length expected < 263 \<and> the (rq_origin request) = expected)"

definition is_json_content_type :: "string option \<Rightarrow> bool" where
  "is_json_content_type content_type =
     (case content_type of
        None \<Rightarrow> False
      | Some t \<Rightarrow>
          take 16 t = ''application/json'' \<and>
          (let suffix = drop 16 t
           in suffix = [] \<or> dropWhile isspace suffix = ''; charset=utf-8'' \<or> dropWhile isspace suffix = '';charset=utf-8''))"

section \<open>The body of a storage request\<close>

definition skip_json_whitespace :: "byte list \<Rightarrow> byte list" where
  "skip_json_whitespace cursor = dropWhile (\<lambda>b. isspace (byte_char b)) cursor"

fun token_chars :: "nat \<Rightarrow> string \<Rightarrow> byte list \<Rightarrow> (string \<times> byte list) option" where
  "token_chars capacity out [] = None"
| "token_chars capacity out (b # cursor) =
     (if b = 0x22 then Some (out, cursor)
      else if b = 0x5C \<or> b < 0x20 \<or> capacity \<le> length out + 1 then None
      else token_chars capacity (out @ [byte_char b]) cursor)"

definition parse_json_string_token :: "nat \<Rightarrow> byte list \<Rightarrow> (string \<times> byte list) option" where
  "parse_json_string_token capacity cursor = do { cursor \<leftarrow> take_byte 0x22 cursor; token_chars capacity [] cursor }"

definition storage_target_char :: "char \<Rightarrow> bool" where
  "storage_target_char c \<longleftrightarrow> isalnum c \<or> c = CHR ''_'' \<or> c = CHR ''-''"

definition parse_storage_target :: "byte list option \<Rightarrow> string option" where
  "parse_storage_target body =
     (case body of
        None \<Rightarrow> None
      | Some cursor \<Rightarrow>
          (if cursor = [] then None
           else do {
             cursor \<leftarrow> take_byte 0x7B (skip_json_whitespace cursor);
             (key, cursor) \<leftarrow> parse_json_string_token 16 (skip_json_whitespace cursor);
             if key \<noteq> ''target'' then None
             else do {
               cursor \<leftarrow> take_byte 0x3A (skip_json_whitespace cursor);
               (target, cursor) \<leftarrow> parse_json_string_token CONFIG_STORAGE_ID_CAPACITY (skip_json_whitespace cursor);
               cursor \<leftarrow> take_byte 0x7D (skip_json_whitespace cursor);
               if skip_json_whitespace cursor \<noteq> [] \<or> target = [] \<or> \<not> list_all storage_target_char target then None
               else Some target } }))"

section \<open>Paths\<close>

definition uploads_prefix :: string where "uploads_prefix = ''/api/v1/uploads/''"
definition complete_suffix :: string where "complete_suffix = ''/complete''"

definition upload_id_from_path :: "string \<Rightarrow> string option" where
  "upload_id_from_path path =
     (let rest = drop (length uploads_prefix) path
      in if take (length uploads_prefix) path \<noteq> uploads_prefix \<or> length rest \<noteq> UPLOAD_ID_HEX_BYTES then None
         else if list_all lower_hex rest then Some rest else None)"

definition upload_complete_from_path :: "string \<Rightarrow> string option" where
  "upload_complete_from_path path =
     (if length path \<noteq> length uploads_prefix + UPLOAD_ID_HEX_BYTES + length complete_suffix \<or>
         take (length uploads_prefix) path \<noteq> uploads_prefix \<or>
         drop (length uploads_prefix + UPLOAD_ID_HEX_BYTES) path \<noteq> complete_suffix then None
      else let upload_id = take UPLOAD_ID_HEX_BYTES (drop (length uploads_prefix) path)
           in if list_all lower_hex upload_id then Some upload_id else None)"

section \<open>Content-Range\<close>

definition parse_range_number :: "string \<Rightarrow> (u64 \<times> string) option" where
  "parse_range_number cursor =
     (if cursor = [] \<or> \<not> isdigit (hd cursor) then None
      else case strtoull cursor of
          (parsed, rest, range_error) \<Rightarrow> (if range_error \<or> rest = cursor then None else Some (parsed, rest)))"

fun take_char :: "char \<Rightarrow> string \<Rightarrow> string option" where
  "take_char c [] = None"
| "take_char c (d # cursor) = (if d = c then Some cursor else None)"

text \<open>The offset, the length and the total.\<close>

definition parse_content_range :: "string option \<Rightarrow> (u64 \<times> u64 \<times> u64) option" where
  "parse_content_range content =
     (case content of
        None \<Rightarrow> None
      | Some t \<Rightarrow>
          (if take 6 t \<noteq> ''bytes '' then None
           else do {
             (offset, cursor) \<leftarrow> parse_range_number (drop 6 t);
             cursor \<leftarrow> take_char CHR ''-'' cursor;
             (last_byte, cursor) \<leftarrow> parse_range_number cursor;
             cursor \<leftarrow> take_char CHR ''/'' cursor;
             (whole, cursor) \<leftarrow> parse_range_number cursor;
             if cursor \<noteq> [] \<or> last_byte < offset \<or> whole = 0 \<or> whole \<le> last_byte then None
             else Some (offset, last_byte - offset + 1, whole) }))"

end
