(* ===== verification/UploadFile.thy ===== *)
theory UploadFile
  imports UploadJson Sha256
begin

text \<open>
  \<^verbatim>\<open>src/src/upload.c\<close>, the operations on files: opening, reserving, writing, flushing, hashing and publishing
  the temporary file of an upload, and the care of the destination directory.  The two builds of the
  sources, for the host and for the console, are the values of \<open>build\<close>; messages to \<open>stderr\<close> and the flags
  that limit them are left out.  A loop that retries ends because the script of faults is finite.
\<close>

section \<open>Names and clocks\<close>

definition random_id :: "os \<Rightarrow> string option \<times> os" where
  "random_id s =
     (case secure_random (UPLOAD_ID_HEX_BYTES div 2) s of (bytes, s) \<Rightarrow> (map_option hex_encode bytes, s))"

definition part_path_text :: "string \<Rightarrow> string \<Rightarrow> string" where
  "part_path_text directory upload_id = directory @ ''/'' @ part_marker @ upload_id @ part_suffix"

definition elapsed_nanoseconds :: "u64 \<Rightarrow> u64 \<Rightarrow> u64" where
  "elapsed_nanoseconds start finish = (if start \<le> finish \<and> start \<noteq> 0 then finish - start else 0)"

definition nanoseconds_to_milliseconds :: "u64 \<Rightarrow> u64" where
  "nanoseconds_to_milliseconds nanoseconds = (nanoseconds + 999999) div 1000000"

section \<open>Error numbers that mean that an operation is absent\<close>

definition link_unsupported_errno :: "errno \<Rightarrow> bool" where
  "link_unsupported_errno e \<longleftrightarrow> e = EPERM \<or> e = EXDEV \<or> e = ENOSYS \<or> e = EOPNOTSUPP \<or> e = ENOTSUP"

definition sync_unsupported_errno :: "errno \<Rightarrow> bool" where
  "sync_unsupported_errno e \<longleftrightarrow> e = EINVAL \<or> e = EPERM \<or> e = ENOSYS \<or> e = EOPNOTSUPP \<or> e = ENOTSUP"

section \<open>The temporary file\<close>

definition open_part_file :: "build \<Rightarrow> string \<Rightarrow> os \<Rightarrow> nat option \<times> os" where
  "open_part_file b path s =
     (case sys_open_excl path s of
        (Some fd, s) \<Rightarrow> (Some fd, s)
      | (None, s) \<Rightarrow>
          (case b of
             Host \<Rightarrow> (if \<not> sync_unsupported_errno (os_errno s) then (None, s) else sys_open_excl path s)
           | PS5 \<Rightarrow>
               (if os_errno s = EEXIST \<or> \<not> sync_unsupported_errno (os_errno s) then (None, s)
                else sys_open_trunc path s)))"

definition reserve_upload_space :: "build \<Rightarrow> nat \<Rightarrow> u64 \<Rightarrow> os \<Rightarrow> bool \<times> os" where
  "reserve_upload_space b fd amount s =
     (case b of
        Host \<Rightarrow> (True, s)
      | PS5 \<Rightarrow>
          (if 9223372036854775807 < amount then fails EFBIG s
           else case sys_fallocate fd (unat amount) s of
               (e, s) \<Rightarrow>
                 (if e = E0 \<or> e = EINVAL \<or> e = ENOSYS \<or> e = EOPNOTSUPP \<or> e = ENOTSUP then (True, s) else fails e s)))"

lemma sys_write_shorter:
  "sys_write fd data s = (Some n, t) \<Longrightarrow> n \<noteq> 0 \<Longrightarrow> length (os_faults t) \<le> length (os_faults s)"
  by (auto simp: sys_write_def Let_def next_fault_def no_fd_def split: list.splits fault.splits option.splits)

lemma sys_write_EINTR:
  "sys_write fd data s = (None, t) \<Longrightarrow> os_errno t = EINTR \<Longrightarrow> length (os_faults t) < length (os_faults s)"
  by (auto simp: sys_write_def Let_def next_fault_def no_fd_def split: list.splits fault.splits option.splits)

text \<open>Zero or the error number; the descriptor is the manager's, \<open>None\<close> when it is -1.\<close>

function write_all :: "nat option \<Rightarrow> byte list \<Rightarrow> os \<Rightarrow> errno \<times> os" where
  "write_all fd data s =
     (if data = [] then (E0, s)
      else case fd of
          None \<Rightarrow> (EBADF, s)
        | Some d \<Rightarrow>
            (case sys_write d data s of
               (None, s) \<Rightarrow> (if os_errno s = EINTR then write_all fd data s else (os_errno s, s))
             | (Some count, s) \<Rightarrow> (if count = 0 then (EIO, s) else write_all fd (drop count data) s)))"
  by pat_completeness auto
termination
  by (relation "measure (\<lambda>(_, data, s). length data + length (os_faults s))")
    (auto dest: sys_write_EINTR [OF sym] sys_write_shorter [OF sym] intro!: add_less_le_mono)

declare write_all.simps [simp del]

lemma sys_fsync_EINTR:
  "sys_fsync fd s = (False, t) \<Longrightarrow> os_errno t = EINTR \<Longrightarrow> length (os_faults t) < length (os_faults s)"
  by (auto simp: sys_fsync_def next_fault_def fails_def split: list.splits fault.splits if_splits)

text \<open>The loop that flushes on the host; a console relies on closing the file.\<close>

function sync_loop :: "nat \<Rightarrow> os \<Rightarrow> bool \<times> os" where
  "sync_loop fd s =
     (case sys_fsync fd s of
        (True, s) \<Rightarrow> (True, s)
      | (False, s) \<Rightarrow>
          (if os_errno s = EINTR then sync_loop fd s
           else if \<not> sync_unsupported_errno (os_errno s) then (False, s) else (True, s)))"
  by pat_completeness auto
termination
  by (relation "measure (\<lambda>(_, s). length (os_faults s))") (auto dest: sys_fsync_EINTR [OF sym])

declare sync_loop.simps [simp del]

definition sync_for_publication :: "build \<Rightarrow> nat option \<Rightarrow> os \<Rightarrow> bool \<times> os" where
  "sync_for_publication b fd s =
     (case b of
        Host \<Rightarrow> (case fd of None \<Rightarrow> fails EBADF s | Some d \<Rightarrow> sync_loop d s)
      | PS5 \<Rightarrow> (True, s))"

text \<open>0 for a hard link, 1 for a rename, \<open>None\<close> for a failure.\<close>

definition rename_new :: "string \<Rightarrow> string \<Rightarrow> os \<Rightarrow> nat option \<times> os" where
  "rename_new part_path final_path s =
     (case sys_lstat final_path s of
        (Some _, s) \<Rightarrow> (None, s\<lparr>os_errno := EEXIST\<rparr>)
      | (None, s) \<Rightarrow>
          (if os_errno s \<noteq> ENOENT then (None, s)
           else case sys_rename part_path final_path s of (ok, s) \<Rightarrow> (if ok then Some 1 else None, s)))"

definition publish_part :: "build \<Rightarrow> string \<Rightarrow> string \<Rightarrow> os \<Rightarrow> nat option \<times> os" where
  "publish_part b part_path final_path s =
     (case b of
        Host \<Rightarrow>
          (case sys_link part_path final_path s of
             (True, s) \<Rightarrow> (Some 0, s)
           | (False, s) \<Rightarrow>
               (if os_errno s = EEXIST \<or> \<not> link_unsupported_errno (os_errno s) then (None, s)
                else rename_new part_path final_path s))
      | PS5 \<Rightarrow> rename_new part_path final_path s)"

section \<open>Hashing the file\<close>

lemma sys_read_EINTR:
  "sys_read fd n s = (None, t) \<Longrightarrow> os_errno t = EINTR \<Longrightarrow> unread fd t \<le> unread fd s \<and> length (os_faults t) < length (os_faults s)"
  by (auto simp: sys_read_def Let_def next_fault_def unread_def split: list.splits fault.splits option.splits)

lemma sys_read_progress:
  "sys_read fd n s = (Some data, t) \<Longrightarrow> data \<noteq> [] \<Longrightarrow> unread fd t + length (os_faults t) < unread fd s + length (os_faults s)"
  using sys_read_unread sys_read_end by (intro add_less_le_mono)

lemma sys_read_retry:
  "sys_read fd n s = (None, t) \<Longrightarrow> os_errno t = EINTR \<Longrightarrow> unread fd t + length (os_faults t) < unread fd s + length (os_faults s)"
  using sys_read_EINTR [of fd n s t] by linarith

text \<open>The reading loop: the hash context at the end of the file, or an error.\<close>

function hash_loop :: "nat \<Rightarrow> sha256_context \<Rightarrow> os \<Rightarrow> sha256_context option \<times> os" where
  "hash_loop fd c s =
     (case sys_read fd 1048576 s of
        (None, s) \<Rightarrow> (if os_errno s = EINTR then hash_loop fd c s else (None, s))
      | (Some data, s) \<Rightarrow> (if data = [] then (Some c, s) else hash_loop fd (sha256_update c data) s))"
  by pat_completeness auto
termination
  by (relation "measure (\<lambda>(fd, _, s). unread fd s + length (os_faults s))")
    (auto dest: sys_read_retry [OF sym] sys_read_progress [OF sym])

declare hash_loop.simps [simp del]

definition hash_part_file :: "string \<Rightarrow> os \<Rightarrow> string option \<times> os" where
  "hash_part_file path s =
     (case sys_open_read path s of
        (None, s) \<Rightarrow> (None, s)
      | (Some fd, s) \<Rightarrow>
          (case (case allocate s of
                   (False, s) \<Rightarrow> (None, ENOMEM, s)
                 | (True, s) \<Rightarrow>
                     (case hash_loop fd sha256_init s of
                        (None, s) \<Rightarrow> (None, os_errno s, s)
                      | (Some c, s) \<Rightarrow> (Some (sha256_hex (fst (sha256_final c))), E0, s)))
           of (digest, saved, s) \<Rightarrow>
             (case sys_close fd s of
                (closed, s) \<Rightarrow>
                  (let saved = (if \<not> closed \<and> saved = E0 then os_errno s else saved)
                   in if saved \<noteq> E0 then (None, s\<lparr>os_errno := saved\<rparr>) else (digest, s)))))"

section \<open>The destination\<close>

definition anchor_size :: "string \<Rightarrow> nat" where
  "anchor_size path =
     (let end_at = (\<lambda>start. start + length (takeWhile (\<lambda>c. c \<noteq> CHR ''/'') (drop start path)))
      in if take 5 path = ''/mnt/'' then end_at 5 else end_at 1)"

definition ensure_destination_directory :: "string \<Rightarrow> os \<Rightarrow> bool \<times> os" where
  "ensure_destination_directory path s =
     (if path = [] \<or> hd path \<noteq> CHR ''/'' then safe_path_ensure_directory path s
      else if anchor_size path < 2 \<or> 1024 \<le> anchor_size path then fails EINVAL s
      else case sys_lstat (take (anchor_size path) path) s of
          (status, s) \<Rightarrow>
            (if status \<noteq> Some Directory then fails ENOENT s else safe_path_ensure_directory path s))"

text \<open>The modification time that \<open>lstat\<close> reports, for a regular file.\<close>

definition regular_mtime :: "os \<Rightarrow> node option \<Rightarrow> int option" where
  "regular_mtime s n = (case n of Some (Regular i) \<Rightarrow> Some (inode_mtime (os_files s i)) | _ \<Rightarrow> None)"

fun cleanup_entries :: "string \<Rightarrow> int \<Rightarrow> string list \<Rightarrow> os \<Rightarrow> os" where
  "cleanup_entries directory now [] s = s"
| "cleanup_entries directory now (name # names) s =
     cleanup_entries directory now names
       (case safe_path_join directory name SAFE_PATH_FULL_BYTES of
          None \<Rightarrow> s
        | Some path \<Rightarrow>
            (if \<not> managed_part_name name then s
             else case sys_lstat path s of
                 (status, s) \<Rightarrow>
                   (case regular_mtime s status of
                      None \<Rightarrow> s
                    | Some mtime \<Rightarrow> (if now - 86400 < mtime then s else snd (sys_unlink path s)))))"

definition cleanup_stale_parts :: "string \<Rightarrow> os \<Rightarrow> os" where
  "cleanup_stale_parts directory s =
     (case sys_listing s of
        (names, s) \<Rightarrow>
          (if os_seconds s = [] then s
           else case read_seconds s of
               (now, s) \<Rightarrow> (case names of None \<Rightarrow> s | Some names \<Rightarrow> cleanup_entries directory (uint now) names s)))"

section \<open>What the operations do\<close>

text \<open>
  \<open>stored d n amount data s\<close>: the descriptor stands after the \<open>data\<close> at the start of the file \<open>n\<close>, which
  may have been preallocated up to \<open>amount\<close> bytes.
\<close>

definition stored :: "nat \<Rightarrow> nat \<Rightarrow> nat \<Rightarrow> byte list \<Rightarrow> os \<Rightarrow> bool" where
  "stored d n amount data s \<longleftrightarrow> os_fds s d = Some (n, length data) \<and> take (length data) (inode_bytes (os_files s n)) = data \<and>
     length data \<le> length (inode_bytes (os_files s n)) \<and> length (inode_bytes (os_files s n)) \<le> max amount (length data)"

lemma stored_complete: "stored d n amount data s \<Longrightarrow> length data = amount \<Longrightarrow> inode_bytes (os_files s n) = data"
  by (auto simp: stored_def)

lemma stored_cong: "os_fds t d = os_fds s d \<Longrightarrow> os_files t n = os_files s n \<Longrightarrow> stored d n amount data t = stored d n amount data s"
  by (simp add: stored_def)

lemma stored_overwrite:
  assumes "stored d n amount data s" "os_fds t d = Some (n, length data + length x)"
    "inode_bytes (os_files t n) = overwrite (inode_bytes (os_files s n)) (length data) x"
  shows "stored d n amount (data @ x) t"
  using assms by (auto simp: stored_def overwrite_def)

lemma sys_write_stored:
  assumes "sys_write d x s = (Some count, t)" "stored d n amount data s"
  shows "count \<le> length x \<and> stored d n amount (data @ take count x) t \<and> only_file n s t"
proof -
  obtain f u where u: "next_fault s = (f, u)" by force
  have store: "same_store s u" by (rule next_fault_store [OF u])
  have fd: "os_fds u d = Some (n, length data)" using assms(2) store by (simp add: stored_def same_store_def)
  have "count \<le> length x \<and> os_fds t d = Some (n, length data + count) \<and>
      inode_bytes (os_files t n) = overwrite (inode_bytes (os_files s n)) (length data) (take count x) \<and> only_file n s t"
    using assms(1) store fd unfolding sys_write_def u
    by (cases f) (auto simp: no_fd_def Let_def same_store_def only_file_def)
  with stored_overwrite [OF assms(2), of t "take count x"] show ?thesis by simp
qed

lemma write_all_stored:
  "write_all (Some d) x s = (e, t) \<Longrightarrow> stored d n amount data s \<Longrightarrow>
   \<exists>k \<le> length x. stored d n amount (data @ take k x) t \<and> only_file n s t \<and> (e = E0 \<longrightarrow> k = length x)"
proof (induction "Some d" x s arbitrary: data e t rule: write_all.induct)
  case (1 x s)
  show ?case
  proof (cases "x = []")
    case True
    with 1 show ?thesis by (simp add: write_all.simps only_file_def)
  next
    case False
    obtain r u where w: "sys_write d x s = (r, u)" by force
    show ?thesis
    proof (cases r)
      case None
      note fails = sys_write_fails [OF w [unfolded None]]
      then have kept: "stored d n amount data u" "only_file n s u"
        using 1(4) by (simp_all add: stored_def same_store_def only_file_def)
      show ?thesis
      proof (cases "os_errno u = EINTR")
        case True
        with 1(3) False w None have "write_all (Some d) x u = (e, t)" by (subst (asm) write_all.simps) simp
        from 1(1) [OF False refl w [symmetric] None True this kept(1)] show ?thesis using kept(2) only_file_trans by blast
      next
        case errno: False
        with 1(3) False w None have "t = u" "e \<noteq> E0" using fails by (subst (asm) write_all.simps; simp)+
        then show ?thesis using kept by (intro exI [of _ 0]) simp
      qed
    next
      case (Some count)
      note step = sys_write_stored [OF w [unfolded Some] 1(4)]
      show ?thesis
      proof (cases "count = 0")
        case True
        with 1(3) False w Some have "t = u" "e = EIO" by (subst (asm) write_all.simps; simp)+
        with step True show ?thesis by (intro exI [of _ 0]) simp
      next
        case nonzero: False
        with 1(3) False w Some have "write_all (Some d) (drop count x) u = (e, t)" by (subst (asm) write_all.simps) simp
        from 1(2) [OF False refl w [symmetric] Some nonzero this, of "data @ take count x"] step obtain k where
          k: "k \<le> length x - count" "stored d n amount (data @ take count x @ take k (drop count x)) t"
            "only_file n u t" "e = E0 \<longrightarrow> k = length x - count"
          by auto
        with step show ?thesis
          by (intro exI [of _ "count + k"]) (auto simp: take_add dest: only_file_trans)
      qed
    qed
  qed
qed

text \<open>Without faults everything is written at once.\<close>

lemma write_all_faultless:
  assumes "os_faults s = []" "os_fds s d = Some (n, offset)" "write_all (Some d) x s = (e, t)"
  shows "e = E0 \<and> os_faults t = [] \<and> os_seconds t = os_seconds s \<and> os_nanos t = os_nanos s"
proof (cases "x = []")
  case False
  then have w: "fst (sys_write d x s) = Some (length x)" and frame: "os_faults (snd (sys_write d x s)) = []"
    "os_seconds (snd (sys_write d x s)) = os_seconds s" "os_nanos (snd (sys_write d x s)) = os_nanos s"
    using assms(1,2) by (simp_all add: sys_write_def Let_def)
  then obtain u where u: "sys_write d x s = (Some (length x), u)" by (cases "sys_write d x s") auto
  have "write_all (Some d) x s = write_all (Some d) [] u"
    using False u by (subst write_all.simps) simp
  then show ?thesis using assms(3) frame u by (simp add: write_all.simps)
qed (use assms in \<open>simp add: write_all.simps\<close>)

text \<open>Reading feeds the hash the whole of the file.\<close>

lemma hash_loop_reads:
  "hash_loop fd c s = (Some c', t) \<Longrightarrow> os_fds s fd = Some (n, offset) \<Longrightarrow>
   \<exists>pieces. c' = foldl sha256_update c pieces \<and> concat pieces = drop offset (inode_bytes (os_files s n)) \<and>
    os_names t = os_names s \<and> os_files t = os_files s"
proof (induction fd c s arbitrary: offset rule: hash_loop.induct)
  case (1 fd c s)
  obtain r u where r: "sys_read fd 1048576 s = (r, u)" by force
  note read = sys_read_outcome [OF r 1(4), simplified]
  show ?case
  proof (cases r)
    case None
    with 1(3) r have "os_errno u = EINTR" "hash_loop fd c u = (Some c', t)"
      by (subst (asm) hash_loop.simps; simp split: if_splits)+
    with 1(1) [OF r [symmetric] None] read(1) None 1(4) show ?thesis by (simp add: same_store_def)
  next
    case (Some data)
    show ?thesis
    proof (cases "data = []")
      case True
      with 1(3) r Some have "c' = c" "t = u" by (subst (asm) hash_loop.simps; simp)+
      with read(2) [OF Some] True show ?thesis by (intro exI [of _ "[]"]) auto
    next
      case False
      with 1(3) r Some have "hash_loop fd (sha256_update c data) u = (Some c', t)" by (subst (asm) hash_loop.simps) simp
      from 1(2) [OF r [symmetric] Some False this] read(2) [OF Some] obtain pieces where
        "c' = foldl sha256_update (sha256_update c data) pieces"
        "concat pieces = drop (offset + length data) (inode_bytes (os_files s n))"
        "os_names t = os_names s \<and> os_files t = os_files s" by auto
      with read(2) [OF Some] show ?thesis by (intro exI [of _ "data # pieces"]) auto
    qed
  qed
qed

lemma hash_part_file_digest:
  assumes "hash_part_file path s = (Some digest, t)" "os_names s path = Some (Regular n)"
  shows "digest = sha256_hex (sha256_spec (inode_bytes (os_files s n))) \<and> os_names t = os_names s \<and> os_files t = os_files s"
proof -
  obtain r u where o: "sys_open_read path s = (r, u)" by force
  obtain f v where v: "next_fault s = (f, v)" by force
  have p: "resolve 41 v path = Inr path"
    using assms(2) next_fault_store [OF v] resolve_no_link [of path v 40] by (simp add: no_link_def same_store_def)
  from assms(1) o obtain fd where fd: "r = Some fd" by (cases r) (auto simp: hash_part_file_def)
  have open_state: "os_fds u fd = Some (n, 0)" "os_files u = os_files s" "os_names u = os_names s"
    using o fd assms(2) next_fault_store [OF v] unfolding sys_open_read_def v
    by (auto simp: p no_fd_def same_store_def split: fault.splits)
  obtain ok w where a: "allocate u = (ok, w)" by force
  have store: "same_store u w" using a next_fault_store by (auto simp: allocate_def split: prod.splits)
  obtain c x where h: "hash_loop fd sha256_init w = (c, x)" by force
  obtain closed y where y: "sys_close fd x = (closed, y)" by force
  obtain closed' y' where y': "sys_close fd w = (closed', y')" by force
  from assms(1) o fd a h y y' have "ok" and c: "c \<noteq> None" and digest: "digest = sha256_hex (fst (sha256_final (the c)))" and t: "t = y"
    by (cases ok; cases c; auto simp: hash_part_file_def Let_def split: if_splits)+
  from c obtain c' where c': "c = Some c'" by auto
  have "os_fds w fd = Some (n, 0)" using store open_state by (simp add: same_store_def)
  from hash_loop_reads [OF h [unfolded c'] this] obtain pieces where
    pieces: "c' = foldl sha256_update sha256_init pieces" "concat pieces = inode_bytes (os_files w n)"
    "os_names x = os_names w" "os_files x = os_files w" by auto
  have "fst (sha256_final c') = sha256_spec (inode_bytes (os_files s n))"
    using pieces sha256.finish_chunks [of pieces] store open_state by (simp add: same_store_def)
  then show ?thesis
    using digest c' t pieces(3,4) store open_state sys_close_store [OF y] by (simp add: same_store_def)
qed

text \<open>A digest that the server computes from a stored file is the SHA-256 digest, in hexadecimal, of exactly the
  bytes of the file that the path names, however the reads are cut and interrupted; the files and names are
  untouched.\<close>
theorem hash_part_file_correct:
  assumes "hash_part_file path s = (Some digest, t)" "os_names s path = Some (Regular n)"
  shows "digest = sha256_hex (sha256_spec (inode_bytes (os_files s n))) \<and> os_names t = os_names s \<and> os_files t = os_files s"
  by (rule hash_part_file_digest [OF assms])

lemma hash_loop_faultless:
  "os_faults s = [] \<Longrightarrow> os_fds s fd = Some (n, offset) \<Longrightarrow>
   \<exists>c' t. hash_loop fd c s = (Some c', t) \<and> os_faults t = [] \<and> os_fds t fd \<noteq> None"
proof (induction fd c s arbitrary: offset rule: hash_loop.induct)
  case (1 fd c s)
  obtain data t where r: "sys_read fd 1048576 s = (Some data, t)"
    "os_faults t = []" "os_fds t fd = Some (n, offset + length data)"
    using 1(3,4) by (simp add: sys_read_def Let_def)
  show ?case
  proof (cases "data = []")
    case True
    with r show ?thesis by (subst hash_loop.simps) simp
  next
    case False
    from 1(2) [OF r(1) [symmetric] refl False r(2,3)] r(1) False show ?thesis by (subst hash_loop.simps) simp
  qed
qed

theorem hash_part_file_correct_witness:
  "let s = (mounted [])\<lparr>os_names := [''p'' \<mapsto> Regular 0], os_files := (\<lambda>_. \<lparr>inode_bytes = [97], inode_mtime = 0\<rparr>)\<rparr>
   in \<exists>t. hash_part_file ''p'' s = (Some (sha256_hex (sha256_spec [97])), t)"
proof -
  let ?s = "(mounted [])\<lparr>os_names := [''p'' \<mapsto> Regular 0], os_files := (\<lambda>_. \<lparr>inode_bytes = [97], inode_mtime = 0\<rparr>)\<rparr>"
  obtain u where u: "sys_open_read ''p'' ?s = (Some 3, u)" "os_faults u = []" "os_fds u 3 = Some (0, 0)"
    by (simp add: sys_open_read_def mounted_def eval_nat_numeral)
  then obtain c t where h: "hash_loop 3 sha256_init u = (Some c, t)" "os_faults t = []" "os_fds t 3 \<noteq> None"
    using hash_loop_faultless [of u 3 0 0 sha256_init] by blast
  moreover from h(2,3) have "\<exists>v. sys_close 3 t = (True, v)" by (auto simp: sys_close_def)
  ultimately have "\<exists>d t. hash_part_file ''p'' ?s = (Some d, t)"
    using u by (auto simp: hash_part_file_def allocate_def Let_def)
  then obtain d t where "hash_part_file ''p'' ?s = (Some d, t)" by blast
  with hash_part_file_correct [OF this, of 0] show ?thesis by (auto simp: Let_def)
qed

section \<open>Publication\<close>

lemma rename_new_outcome:
  assumes "rename_new p q s = (r, t)" "p \<noteq> q" "os_names s p = Some (Regular n)"
  shows "r \<noteq> None \<Longrightarrow> os_names s q = None \<and> os_names t = (os_names s)(p := None, q \<mapsto> Regular n) \<and> os_files t = os_files s"
    and "r = None \<Longrightarrow> os_names t = os_names s \<and> os_files t = os_files s"
    and "r \<noteq> Some 0"
proof -
  obtain status u where l: "sys_lstat q s = (status, u)" by force
  note u = sys_lstat_outcome [OF l]
  obtain ok v where rn: "sys_rename p q u = (ok, v)" by force
  have "(status \<noteq> None \<or> os_errno u \<noteq> ENOENT) \<and> r = None \<and> os_names t = os_names u \<and> os_files t = os_files u \<or>
      status = None \<and> os_errno u = ENOENT \<and> r = (if ok then Some 1 else None) \<and> t = v"
    using assms(1) l rn by (auto simp: rename_new_def split: option.splits if_splits)
  moreover have "os_names s q = None" if "status = None" "os_errno u = ENOENT" using u that by blast
  moreover have "os_names u = os_names s" "os_files u = os_files s" using u(1) by (simp_all add: same_store_def)
  ultimately show "r \<noteq> None \<Longrightarrow> os_names s q = None \<and> os_names t = (os_names s)(p := None, q \<mapsto> Regular n) \<and> os_files t = os_files s"
    and "r = None \<Longrightarrow> os_names t = os_names s \<and> os_files t = os_files s" and "r \<noteq> Some 0"
    using sys_rename_outcome [OF rn assms(2), of n] assms(3) by (auto split: if_splits)
qed

lemma sys_link_outcome:
  assumes "sys_link p q s = (ok, t)" "os_names s p = Some (Regular n)"
  shows "os_files t = os_files s" and "\<not> ok \<Longrightarrow> os_names t = os_names s"
    and "ok \<Longrightarrow> os_names s q = None \<and> os_names t = (os_names s)(q \<mapsto> Regular n)"
proof -
  obtain f u where u: "next_fault s = (f, u)" by force
  from next_fault_store [OF u] have store: "os_names u = os_names s" "os_files u = os_files s" by (simp_all add: same_store_def)
  have "os_files t = os_files s \<and> (if ok then os_names s q = None \<and> os_names t = (os_names s)(q \<mapsto> Regular n)
      else os_names t = os_names s)"
    using assms store unfolding sys_link_def u by (cases f) (auto simp: fails_def split: if_splits)
  then show "os_files t = os_files s" and "\<not> ok \<Longrightarrow> os_names t = os_names s"
    and "ok \<Longrightarrow> os_names s q = None \<and> os_names t = (os_names s)(q \<mapsto> Regular n)" by simp_all
qed

lemma publish_part_cases:
  assumes "publish_part b part final s = (r, t)" "part \<noteq> final" "os_names s part = Some (Regular n)"
  shows "os_files t = os_files s \<and>
    (case r of
       None \<Rightarrow> os_names t = os_names s
     | Some k \<Rightarrow> os_names s final = None \<and>
         os_names t = (if k = 0 then (os_names s)(final \<mapsto> Regular n) else (os_names s)(part := None, final \<mapsto> Regular n)))"
proof (cases b)
  case PS5
  then have "rename_new part final s = (r, t)" using assms(1) by (simp add: publish_part_def)
  from rename_new_outcome [OF this assms(2,3)] show ?thesis by (cases r) auto
next
  case Host
  obtain ok u where l: "sys_link part final s = (ok, u)" by force
  note link = sys_link_outcome [OF l assms(3)]
  show ?thesis
  proof (cases "ok \<or> os_errno u = EEXIST \<or> \<not> link_unsupported_errno (os_errno u)")
    case True
    with Host assms(1) l have "r = (if ok then Some 0 else None) \<and> t = u"
      by (auto simp: publish_part_def split: bool.splits if_splits)
    with link show ?thesis by (cases ok) auto
  next
    case False
    with Host assms(1) l have "rename_new part final u = (r, t)" by (simp add: publish_part_def)
    moreover have "os_names u part = Some (Regular n)" using link(2) False assms(3) by simp
    ultimately show ?thesis using rename_new_outcome [of part final u r t n] assms(2) link(1,2) False by (cases r) auto
  qed
qed

lemma publish_part_self:
  assumes "publish_part b part part s = (r, t)" "os_names s part = Some (Regular n)"
  shows "r = None \<and> os_files t = os_files s \<and> os_names t = os_names s"
proof -
  have self: "r = None \<and> os_files t = os_files s \<and> os_names t = os_names s"
    if "rename_new part part s = (r, t)" "os_names s part = Some (Regular n)" for s r t
  proof -
    obtain status u where l: "sys_lstat part s = (status, u)" by force
    from sys_lstat_outcome [OF l] l that show ?thesis
      by (auto simp: rename_new_def same_store_def split: option.splits if_splits)
  qed
  obtain ok u where l: "sys_link part part s = (ok, u)" by force
  note link = sys_link_outcome [OF l assms(2)]
  with assms(2) have "\<not> ok" by auto
  with assms l link self [of s r t] self [of u r t] show ?thesis
    by (auto simp: publish_part_def split: build.splits if_splits)
qed

lemma publish_part_effect:
  assumes "publish_part b part final s = (r, t)" "os_names s part = Some (Regular n)"
  shows "os_files t = os_files s \<and>
    (case r of
       None \<Rightarrow> os_names t = os_names s
     | Some k \<Rightarrow> os_names s final = None \<and>
         os_names t = (if k = 0 then (os_names s)(final \<mapsto> Regular n) else (os_names s)(part := None, final \<mapsto> Regular n)))"
  using publish_part_cases [OF assms(1) _ assms(2)] publish_part_self [of b part s r t n] assms by (cases "part = final") auto

text \<open>Publication never replaces anything: when it succeeds, the final name was free, it now names the very file
  that was uploaded, and no other name and no byte of any file has changed (the temporary name stays after a hard
  link and is gone after a rename); when it fails, every name and every file is as before.\<close>
theorem publish_part_outcome:
  assumes "publish_part b part final s = (r, t)" "os_names s part = Some (Regular n)"
  shows "os_files t = os_files s \<and>
    (case r of
       None \<Rightarrow> os_names t = os_names s
     | Some k \<Rightarrow> os_names s final = None \<and>
         os_names t = (if k = 0 then (os_names s)(final \<mapsto> Regular n) else (os_names s)(part := None, final \<mapsto> Regular n)))"
  by (rule publish_part_effect [OF assms])

theorem publish_part_outcome_witness:
  "let s = (mounted [])\<lparr>os_names := [''p'' \<mapsto> Regular 7]\<rparr>
   in \<exists>t. publish_part PS5 ''p'' ''f'' s = (Some 1, t) \<and> os_names t = [''f'' \<mapsto> Regular 7]"
proof -
  let ?s = "(mounted [])\<lparr>os_names := [''p'' \<mapsto> Regular 7]\<rparr>"
  have "\<exists>t. publish_part PS5 ''p'' ''f'' ?s = (Some 1, t)"
    by (simp add: publish_part_def rename_new_def sys_lstat_def sys_rename_def mounted_def parent_exists_def split_at_last_def)
  then obtain t where t: "publish_part PS5 ''p'' ''f'' ?s = (Some 1, t)" by blast
  from publish_part_outcome [OF this, of 7] have "os_names t = [''f'' \<mapsto> Regular 7]" by (auto simp: fun_eq_iff)
  with t show ?thesis by (simp add: Let_def)
qed

section \<open>Stale files\<close>

text \<open>The only change: some stale temporary files of the directory have lost their name.\<close>

definition stale :: "string \<Rightarrow> int \<Rightarrow> os \<Rightarrow> string \<Rightarrow> bool" where
  "stale directory now s p \<longleftrightarrow> (\<exists>name n. p = directory @ ''/'' @ name \<and> managed_part_name name \<and>
     os_names s p = Some (Regular n) \<and> inode_mtime (os_files s n) \<le> now - 86400)"

definition only_stale_removed :: "string \<Rightarrow> int \<Rightarrow> os \<Rightarrow> os \<Rightarrow> bool" where
  "only_stale_removed directory now s t \<longleftrightarrow> os_files t = os_files s \<and>
     (\<forall>p. os_names t p = os_names s p \<or> os_names t p = None \<and> stale directory now s p)"

lemma only_stale_removed_trans:
  "only_stale_removed d now s t \<Longrightarrow> only_stale_removed d now t u \<Longrightarrow> only_stale_removed d now s u"
  unfolding only_stale_removed_def stale_def by metis

lemma same_store_stale: "same_store s t \<Longrightarrow> only_stale_removed d now s t"
  by (simp add: same_store_def only_stale_removed_def)

lemma sys_unlink_outcome:
  assumes "sys_unlink p s = (ok, t)"
  shows "os_files t = os_files s \<and> os_fds t = os_fds s \<and> os_names t = (if ok then (os_names s)(p := None) else os_names s)"
proof -
  obtain f u where u: "next_fault s = (f, u)" by force
  show ?thesis
    using assms next_fault_store [OF u] unfolding sys_unlink_def u
    by (cases f) (auto simp: fails_def same_store_def split: option.splits node.splits)
qed

lemma cleanup_entry:
  assumes "safe_path_join d name SAFE_PATH_FULL_BYTES = Some path" "managed_part_name name"
    "sys_lstat path s = (status, u)" "regular_mtime u status = Some mtime" "\<not> now - 86400 < mtime"
  shows "only_stale_removed d now s (snd (sys_unlink path u))"
proof -
  obtain ok t where t: "sys_unlink path u = (ok, t)" by force
  note store = sys_lstat_outcome [OF assms(3)]
  obtain n where n: "status = Some (Regular n)" "inode_mtime (os_files u n) = mtime"
    using assms(4) by (auto simp: regular_mtime_def split: option.splits node.splits)
  have "path = d @ ''/'' @ name" using assms(1) by (simp add: safe_path_join_Some)
  then have "stale d now s path"
    using store(1) store(3) [OF n(1)] n(2) assms(2,5) unfolding stale_def same_store_def by (metis not_less)
  then show ?thesis
    using sys_unlink_outcome [OF t] t store(1) by (auto simp: only_stale_removed_def same_store_def)
qed

lemma cleanup_entries_stale: "only_stale_removed d now s (cleanup_entries d now names s)"
proof (induction d now names s rule: cleanup_entries.induct)
  case (1 d now s)
  show ?case by (simp add: same_store_stale)
next
  case (2 d now name names s)
  let ?t = "(case safe_path_join d name SAFE_PATH_FULL_BYTES of
          None \<Rightarrow> s
        | Some path \<Rightarrow>
            (if \<not> managed_part_name name then s
             else case sys_lstat path s of
                 (status, s) \<Rightarrow>
                   (case regular_mtime s status of
                      None \<Rightarrow> s
                    | Some mtime \<Rightarrow> (if now - 86400 < mtime then s else snd (sys_unlink path s)))))"
  have "only_stale_removed d now s ?t"
    using cleanup_entry [of d name _ s] sys_lstat_outcome(1)
    by (auto simp: same_store_stale split: option.split prod.split)
  then show ?case using 2 only_stale_removed_trans by simp
qed

text \<open>C29: The sweep of the destination deletes nothing but abandoned temporary files: every name that is gone
  afterwards was directly inside the directory, had the exact form of a temporary name, and was a regular file last
  modified at least 24 hours before the clock reading; every other name and every file's content is untouched,
  whatever the directory lists and whatever fails.\<close>
theorem cleanup_stale_parts_safe:
  assumes "cleanup_stale_parts directory s = t" "os_names t p \<noteq> os_names s p"
  shows "os_names t p = None \<and> (\<exists>name n. p = directory @ ''/'' @ name \<and> managed_part_name name \<and>
    os_names s p = Some (Regular n) \<and> inode_mtime (os_files s n) \<le> uint (hd (os_seconds s)) - 86400)"
proof -
  obtain names u where l: "sys_listing s = (names, u)" by force
  then have u: "os_names u = os_names s" "os_files u = os_files s" "os_seconds u = os_seconds s"
    by (auto simp: sys_listing_def split: list.splits)
  obtain now v where r: "read_seconds u = (now, v)" by force
  then have v: "same_store u v" "os_seconds u \<noteq> [] \<Longrightarrow> now = hd (os_seconds u)"
    by (auto simp: read_seconds_def same_store_def split: list.splits)
  have "os_seconds u \<noteq> []" "only_stale_removed directory (uint now) u t"
    using assms l r u v only_stale_removed_trans [OF same_store_stale cleanup_entries_stale]
    by (auto simp: cleanup_stale_parts_def same_store_def same_store_stale split: option.splits if_splits)
  with assms(2) u v show ?thesis unfolding only_stale_removed_def stale_def by metis
qed

theorem cleanup_stale_parts_safe_witness:
  "let name = part_marker @ replicate 32 CHR ''0'' @ part_suffix;
       s = (mounted [])\<lparr>os_names := [''d'' @ ''/'' @ name \<mapsto> Regular 0], os_listings := [Some [name]], os_seconds := [100000]\<rparr>
   in os_names (cleanup_stale_parts ''d'' s) (''d'' @ ''/'' @ name) = None \<and> managed_part_name name"
proof -
  define name where "name = part_marker @ replicate 32 CHR ''0'' @ part_suffix"
  define p where "p = ''d'' @ ''/'' @ name"
  define s where "s = (mounted [])\<lparr>os_names := [p \<mapsto> Regular 0], os_listings := [Some [name]], os_seconds := [100000]\<rparr>"
  have name: "managed_part_name name"
    by (simp add: name_def managed_part_name_def part_marker_def part_suffix_def metadata_constants lower_hex_def isdigit_def
        numeral_eq_Suc)
  have "safe_path_join ''d'' name SAFE_PATH_FULL_BYTES = Some p"
  proof -
    have "valid_utf8 (map uchar name)" unfolding name_def part_marker_def part_suffix_def by code_simp
    then show ?thesis
      by (simp add: safe_path_join_def p_def validate_filename_def SAFE_PATH_NAME_BYTES_def SAFE_PATH_FULL_BYTES_def)
        (simp add: name_def name_char_def part_marker_def part_suffix_def list_all_iff)
  qed
  then have "os_names (cleanup_stale_parts ''d'' s) p \<noteq> os_names s p"
    using name by (simp add: cleanup_stale_parts_def sys_listing_def read_seconds_def s_def sys_lstat_def sys_unlink_def
        regular_mtime_def mounted_def)
  from cleanup_stale_parts_safe [OF refl this] name show ?thesis by (simp add: Let_def name_def p_def s_def)
qed

end
