(* ===== verification/Upload.thy ===== *)
theory Upload
  imports UploadFile Config
begin

text \<open>
  \<^verbatim>\<open>src/src/upload.c\<close>: the manager of the one upload that can be active.  Its struct is split into records
  by concern: the ring of write buffers, the writer thread, the table of chunks, the slot of the upload,
  its timings, and the rest.  An operation is what one thread does while it holds the mutex, as a function
  of the manager and the system.  The writer thread is two operations, taking a job and finishing it, and
  the variables it keeps in between are the field \<open>wt_job\<close>.  A wait on the condition variable runs the
  writer; it gives \<open>None\<close> when the writer has nothing left to do and the wait would go on.  Pointer
  arguments are never null, and a descriptor of -1 is \<open>None\<close>.
\<close>

section \<open>Data\<close>

definition UPLOAD_WRITE_BUFFER_BYTES :: nat where "UPLOAD_WRITE_BUFFER_BYTES = 4194304"
definition UPLOAD_WRITE_QUEUE_DEPTH :: nat where "UPLOAD_WRITE_QUEUE_DEPTH = 4"
definition UPLOAD_CHUNK_BYTES :: u64 where "UPLOAD_CHUNK_BYTES = 8388608"
definition UPLOAD_CHUNK_BUFFER_SLOTS :: nat where "UPLOAD_CHUNK_BUFFER_SLOTS = 12"
definition UPLOAD_AUTH_BYTES :: nat where "UPLOAD_AUTH_BYTES = 80"
definition UPLOAD_LEASE_SECONDS :: u32 where "UPLOAD_LEASE_SECONDS = 60"

lemmas upload_constants = UPLOAD_WRITE_BUFFER_BYTES_def UPLOAD_WRITE_QUEUE_DEPTH_def UPLOAD_CHUNK_BYTES_def
  UPLOAD_CHUNK_BUFFER_SLOTS_def UPLOAD_AUTH_BYTES_def UPLOAD_LEASE_SECONDS_def

datatype upload_result =
    UPLOAD_OK | UPLOAD_INVALID | UPLOAD_NOT_FOUND | UPLOAD_FORBIDDEN | UPLOAD_BUSY | UPLOAD_TOO_LARGE
  | UPLOAD_STORAGE_FULL | UPLOAD_IO_ERROR | UPLOAD_SIZE_MISMATCH | UPLOAD_HASH_MISMATCH
  | UPLOAD_LIMIT_REACHED | UPLOAD_BACKPRESSURE

record upload_prepared =
  pr_upload_id :: string
  pr_final_name :: string
  pr_size :: u64

record upload_metrics =
  me_preparation_ms :: u64
  me_transfer_ms :: u64
  me_write_ms :: u64
  me_direct_io :: bool

record upload_snapshot =
  sn_active :: bool
  sn_started :: bool
  sn_name :: string
  sn_received :: u64
  sn_expected :: u64
  sn_has_last_metrics :: bool
  sn_last_completed_size :: u64
  sn_last_metrics :: upload_metrics

text \<open>
  The ring: \<open>wq_slots\<close> are the buffers of \<open>write_buffer\<close>, each as the bytes copied into it; the one at the
  tail is being filled with \<open>wq_buffered\<close> bytes.
\<close>

record write_queue =
  wq_head :: nat
  wq_tail :: nat
  wq_queued :: nat
  wq_sizes :: "nat list"
  wq_slots :: "byte list list"
  wq_buffered :: nat

text \<open>A job of the writer: the index, the buffer and how many of its bytes to write.\<close>

datatype writer_job = Queue_job nat "byte list" nat | Chunk_job nat "byte list" nat

record writer_thread =
  wt_shutdown :: bool
  wt_discard :: bool
  wt_active :: bool
  wt_error :: errno
  wt_job :: "writer_job option"

text \<open>
  The states are 0 (absent), 1 (being received), 2 (complete) and 3 (written).  A null array is \<open>None\<close>; a
  chunk's buffer is the bytes copied into it.
\<close>

record chunk_table =
  ct_count :: nat
  ct_completed :: nat
  ct_states :: "nat list option"
  ct_progress :: "u64 list option"
  ct_buffers :: "byte list option list option"
  ct_next :: nat
  ct_active_buffers :: nat
  ct_transport :: bool
  ct_finalizing :: bool
  ct_active_writes :: nat

record upload_slot =
  sl_occupied :: bool
  sl_started :: bool
  sl_fd :: "nat option"
  sl_expected :: u64
  sl_received :: u64
  sl_last_activity :: u64
  sl_id :: string
  sl_client :: string
  sl_authorization :: string
  sl_final_name :: string
  sl_final_path :: string
  sl_part_path :: string
  sl_expected_hash :: string
  sl_sha256 :: sha256_context
  sl_fast_direct :: bool
  sl_direct_io :: bool

record upload_timing =
  tm_preparation_start :: u64
  tm_preparation_elapsed :: u64
  tm_transfer_start :: u64
  tm_write_elapsed :: u64

record upload_manager =
  mg_queue :: write_queue
  mg_writer :: writer_thread
  mg_chunks :: chunk_table
  mg_slot :: upload_slot
  mg_timing :: upload_timing
  mg_destination :: string
  mg_max_file_bytes :: u64
  mg_max_files :: u32
  mg_lease_seconds :: u32
  mg_completed_files :: u32
  mg_completed_authorization :: string
  mg_has_last_metrics :: bool
  mg_last_completed_size :: u64
  mg_last_metrics :: upload_metrics

abbreviation "on_queue f m \<equiv> m\<lparr>mg_queue := f (mg_queue m)\<rparr>"
abbreviation "on_writer f m \<equiv> m\<lparr>mg_writer := f (mg_writer m)\<rparr>"
abbreviation "on_chunks f m \<equiv> m\<lparr>mg_chunks := f (mg_chunks m)\<rparr>"
abbreviation "on_slot f m \<equiv> m\<lparr>mg_slot := f (mg_slot m)\<rparr>"
abbreviation "on_timing f m \<equiv> m\<lparr>mg_timing := f (mg_timing m)\<rparr>"

text \<open>The values after \<open>calloc\<close> and after the slot is cleared.\<close>

definition empty_queue :: "byte list list \<Rightarrow> write_queue" where
  "empty_queue slots =
     \<lparr>wq_head = 0, wq_tail = 0, wq_queued = 0, wq_sizes = replicate UPLOAD_WRITE_QUEUE_DEPTH 0, wq_slots = slots, wq_buffered = 0\<rparr>"

definition no_chunks :: chunk_table where
  "no_chunks =
     \<lparr>ct_count = 0, ct_completed = 0, ct_states = None, ct_progress = None, ct_buffers = None, ct_next = 0,
      ct_active_buffers = 0, ct_transport = False, ct_finalizing = False, ct_active_writes = 0\<rparr>"

definition empty_slot :: upload_slot where
  "empty_slot =
     \<lparr>sl_occupied = False, sl_started = False, sl_fd = None, sl_expected = 0, sl_received = 0, sl_last_activity = 0,
      sl_id = [], sl_client = [], sl_authorization = [], sl_final_name = [], sl_final_path = [], sl_part_path = [],
      sl_expected_hash = [], sl_sha256 = sha256_zero, sl_fast_direct = False, sl_direct_io = False\<rparr>"

definition no_timing :: upload_timing where
  "no_timing = \<lparr>tm_preparation_start = 0, tm_preparation_elapsed = 0, tm_transfer_start = 0, tm_write_elapsed = 0\<rparr>"

definition no_metrics :: upload_metrics where
  "no_metrics = \<lparr>me_preparation_ms = 0, me_transfer_ms = 0, me_write_ms = 0, me_direct_io = False\<rparr>"

definition idle_writer :: writer_thread where
  "idle_writer = \<lparr>wt_shutdown = False, wt_discard = False, wt_active = False, wt_error = E0, wt_job = None\<rparr>"

text \<open>How a failed write is reported.\<close>

definition storage_result :: "errno \<Rightarrow> upload_result" where
  "storage_result e = (if e = ENOSPC then UPLOAD_STORAGE_FULL else UPLOAD_IO_ERROR)"

section \<open>The writer thread\<close>

definition chunk_length_for :: "upload_manager \<Rightarrow> nat \<Rightarrow> u64" where
  "chunk_length_for m index =
     (let offset = of_nat index * UPLOAD_CHUNK_BYTES
      in if sl_expected (mg_slot m) \<le> offset then 0
         else let remaining = sl_expected (mg_slot m) - offset
              in if remaining < UPLOAD_CHUNK_BYTES then remaining else UPLOAD_CHUNK_BYTES)"

definition chunk_ready_for_writer :: "chunk_table \<Rightarrow> bool" where
  "chunk_ready_for_writer c \<longleftrightarrow> ct_transport c \<and> ct_next c < ct_count c \<and> ct_states c \<noteq> None \<and> ct_buffers c \<noteq> None \<and>
     the (ct_states c) ! ct_next c = 2 \<and> the (ct_buffers c) ! ct_next c \<noteq> None"

definition writer_ready :: "upload_manager \<Rightarrow> bool" where
  "writer_ready m \<longleftrightarrow> \<not> wt_shutdown (mg_writer m) \<and> \<not> wt_discard (mg_writer m) \<and> wt_error (mg_writer m) = E0 \<and>
     (wq_queued (mg_queue m) \<noteq> 0 \<or> chunk_ready_for_writer (mg_chunks m))"

text \<open>From the wake-up to the release of the mutex: the job is chosen.\<close>

definition writer_take :: "upload_manager \<Rightarrow> upload_manager" where
  "writer_take m =
     (let q = mg_queue m; c = mg_chunks m;
          job = (if wq_queued q = 0
                 then Chunk_job (ct_next c) (the (the (ct_buffers c) ! ct_next c)) (unat (chunk_length_for m (ct_next c)))
                 else Queue_job (wq_head q) (wq_slots q ! wq_head q) (wq_sizes q ! wq_head q))
      in on_writer (\<lambda>w. w\<lparr>wt_active := True, wt_job := Some job\<rparr>) m)"

text \<open>The bookkeeping after the write, under the mutex.\<close>

definition chunk_written :: "nat \<Rightarrow> byte list \<Rightarrow> chunk_table \<Rightarrow> chunk_table" where
  "chunk_written index buffer c =
     (if ct_buffers c \<noteq> None \<and> ct_states c \<noteq> None \<and> index = ct_next c \<and> the (ct_buffers c) ! index = Some buffer
      then c\<lparr>ct_buffers := Some ((the (ct_buffers c))[index := None]), ct_states := Some ((the (ct_states c))[index := 3]),
             ct_next := ct_next c + 1, ct_active_buffers := ct_active_buffers c - 1\<rparr>
      else c)"

definition queue_written :: "nat \<Rightarrow> write_queue \<Rightarrow> write_queue" where
  "queue_written index q =
     q\<lparr>wq_sizes := (wq_sizes q)[index := 0], wq_head := (wq_head q + 1) mod UPLOAD_WRITE_QUEUE_DEPTH,
       wq_queued := wq_queued q - 1\<rparr>"

definition writer_done :: "upload_manager \<Rightarrow> os \<Rightarrow> upload_manager \<times> os" where
  "writer_done m s =
     (case wt_job (mg_writer m) of
        None \<Rightarrow> (m, s)
      | Some job \<Rightarrow>
          (case read_nanos s of
             (start, s) \<Rightarrow>
               (case write_all (sl_fd (mg_slot m)) (case job of Queue_job _ b n \<Rightarrow> take n b | Chunk_job _ b n \<Rightarrow> take n b) s of
                  (e, s) \<Rightarrow>
                    (case read_nanos s of
                       (finish, s) \<Rightarrow>
                         (let m = on_timing (\<lambda>t. t\<lparr>tm_write_elapsed := tm_write_elapsed t + elapsed_nanoseconds start finish\<rparr>) m;
                              m = (case job of
                                     Chunk_job i b _ \<Rightarrow> (if e = E0 then on_chunks (chunk_written i b) m else m)
                                   | Queue_job i _ _ \<Rightarrow> on_queue (queue_written i) m)
                          in (on_writer (\<lambda>w. w\<lparr>wt_active := False, wt_job := None,
                                wt_error := (if e \<noteq> E0 \<and> wt_error w = E0 then e else wt_error w)\<rparr>) m, s))))))"

text \<open>Waiting while a condition holds: the writer runs.\<close>

partial_function (option) await :: "(upload_manager \<Rightarrow> bool) \<Rightarrow> upload_manager \<Rightarrow> os \<Rightarrow> (upload_manager \<times> os) option" where
  "await waiting m s =
     (if \<not> waiting m then Some (m, s)
      else if wt_active (mg_writer m) then (case writer_done m s of (m, s) \<Rightarrow> await waiting m s)
      else if writer_ready m then (case writer_done (writer_take m) s of (m, s) \<Rightarrow> await waiting m s)
      else None)"

section \<open>Clearing the slot\<close>

text \<open>The wait for the writer's job in progress; a new one is not taken while \<open>wt_discard\<close> is set.\<close>

definition settle_writer :: "upload_manager \<Rightarrow> os \<Rightarrow> upload_manager \<times> os" where
  "settle_writer m s = (if wt_active (mg_writer m) then writer_done m s else (m, s))"

definition close_slot :: "upload_slot \<Rightarrow> os \<Rightarrow> bool \<times> os" where
  "close_slot sl s = (case sl_fd sl of None \<Rightarrow> (True, s) | Some fd \<Rightarrow> sys_close fd s)"

definition unlink_part :: "bool \<Rightarrow> upload_slot \<Rightarrow> os \<Rightarrow> bool \<times> os" where
  "unlink_part remove_part sl s =
     (if remove_part \<and> sl_part_path sl \<noteq> []
      then (case sys_unlink (sl_part_path sl) s of (ok, s) \<Rightarrow> (ok \<or> os_errno s = ENOENT, s))
      else (True, s))"

definition reset_queue :: "write_queue \<Rightarrow> write_queue" where
  "reset_queue q =
     empty_queue (if 0 < wq_buffered q
                  then (wq_slots q)[wq_tail q := overwrite (wq_slots q ! wq_tail q) 0 (replicate (wq_buffered q) 0)]
                  else wq_slots q)"

definition clear_slot :: "bool \<Rightarrow> upload_manager \<Rightarrow> os \<Rightarrow> bool \<times> upload_manager \<times> os" where
  "clear_slot remove_part m s =
     (case settle_writer (on_writer (\<lambda>w. w\<lparr>wt_discard := True\<rparr>) m) s of
        (m, s) \<Rightarrow>
          (case close_slot (mg_slot m) s of
             (closed, s) \<Rightarrow>
               (case unlink_part remove_part (mg_slot m) s of
                  (removed, s) \<Rightarrow>
                    (closed \<and> removed,
                     m\<lparr>mg_queue := reset_queue (mg_queue m), mg_chunks := no_chunks, mg_slot := empty_slot,
                       mg_timing := no_timing,
                       mg_writer := (mg_writer m)\<lparr>wt_error := E0, wt_discard := False\<rparr>\<rparr>, s))))"

definition lease_expired :: "upload_manager \<Rightarrow> u64 \<Rightarrow> bool" where
  "lease_expired m now \<longleftrightarrow> \<not> ct_finalizing (mg_chunks m) \<and> ct_active_writes (mg_chunks m) = 0 \<and>
     sl_occupied (mg_slot m) \<and> sl_last_activity (mg_slot m) \<noteq> 0 \<and> sl_last_activity (mg_slot m) \<le> now \<and>
     ucast (mg_lease_seconds m) \<le> now - sl_last_activity (mg_slot m)"

definition reap_locked :: "u64 \<Rightarrow> upload_manager \<Rightarrow> os \<Rightarrow> upload_manager \<times> os" where
  "reap_locked now m s = (if lease_expired m now then snd (clear_slot True m s) else (m, s))"

definition upload_reap_at :: "upload_manager \<Rightarrow> u64 \<Rightarrow> os \<Rightarrow> upload_manager \<times> os" where
  "upload_reap_at m now s = reap_locked now m s"

text \<open>How most operations start: the lease is checked against the clock.\<close>

definition reap_now :: "upload_manager \<Rightarrow> os \<Rightarrow> upload_manager \<times> os" where
  "reap_now m s = (case read_seconds s of (now, s) \<Rightarrow> reap_locked now m s)"

definition touch :: "upload_manager \<Rightarrow> os \<Rightarrow> upload_manager \<times> os" where
  "touch m s = (case read_seconds s of (now, s) \<Rightarrow> (on_slot (\<lambda>x. x\<lparr>sl_last_activity := now\<rparr>) m, s))"

definition owns :: "upload_manager \<Rightarrow> string \<Rightarrow> bool" where
  "owns m upload_id \<longleftrightarrow> sl_occupied (mg_slot m) \<and> sl_id (mg_slot m) = upload_id"

definition binding_matches :: "upload_manager \<Rightarrow> string \<Rightarrow> string \<Rightarrow> bool" where
  "binding_matches m client authorization \<longleftrightarrow>
     sl_client (mg_slot m) = client \<and> sl_authorization (mg_slot m) = authorization"

section \<open>Creating and destroying the manager\<close>

text \<open>
  The environment variables and the data directory of the host build are arguments; \<open>strtoul\<close> of the
  lease is at most 3600, which any width of \<open>unsigned long\<close> holds.
\<close>

definition manager_destination :: "build \<Rightarrow> string option \<Rightarrow> string \<Rightarrow> app_config \<Rightarrow> string option" where
  "manager_destination b upload_dir data_dir config =
     (case b of
        Host \<Rightarrow>
          (case upload_dir of
             Some d \<Rightarrow> (if d \<noteq> [] \<and> hd d = CHR ''/'' then Some d
                       else if 1024 \<le> length (data_dir @ ''/inbox'') then None else Some (data_dir @ ''/inbox''))
           | None \<Rightarrow> (if 1024 \<le> length (data_dir @ ''/inbox'') then None else Some (data_dir @ ''/inbox'')))
      | PS5 \<Rightarrow> Some (destination config))"

definition lease_from :: "build \<Rightarrow> string option \<Rightarrow> u32" where
  "lease_from b lease_override =
     (case (b, lease_override) of
        (Host, Some t) \<Rightarrow>
          (case strtoull t of
             (parsed, rest, range_error) \<Rightarrow>
               (if \<not> range_error \<and> rest \<noteq> t \<and> rest = [] \<and> 1 \<le> parsed \<and> parsed \<le> 3600 then ucast parsed
                else UPLOAD_LEASE_SECONDS))
      | _ \<Rightarrow> UPLOAD_LEASE_SECONDS)"

definition upload_manager_create ::
  "build \<Rightarrow> string option \<Rightarrow> string \<Rightarrow> string option \<Rightarrow> app_config \<Rightarrow> os \<Rightarrow> upload_manager option \<times> os" where
  "upload_manager_create b upload_dir data_dir lease_override config s =
     (case allocate s of
        (False, s) \<Rightarrow> (None, s)
      | (True, s) \<Rightarrow>
          (case manager_destination b upload_dir data_dir config of
             None \<Rightarrow> (None, s)
           | Some directory \<Rightarrow>
               (if 1024 \<le> length directory then (None, s)
                else case ensure_destination_directory directory s of
                    (False, s) \<Rightarrow> (None, s)
                  | (True, s) \<Rightarrow>
                      (case allocate s of
                         (False, s) \<Rightarrow> (None, s)
                       | (True, s) \<Rightarrow>
                           (Some \<lparr>mg_queue = empty_queue (replicate UPLOAD_WRITE_QUEUE_DEPTH []), mg_writer = idle_writer,
                                  mg_chunks = no_chunks, mg_slot = empty_slot, mg_timing = no_timing, mg_destination = directory,
                                  mg_max_file_bytes = max_file_bytes config, mg_max_files = max_files_per_session config,
                                  mg_lease_seconds = lease_from b lease_override, mg_completed_files = 0,
                                  mg_completed_authorization = [], mg_has_last_metrics = False,
                                  mg_last_completed_size = 0, mg_last_metrics = no_metrics\<rparr>,
                            cleanup_stale_parts directory s)))))"

text \<open>The system after the destruction; \<open>None\<close> while another thread is inside a direct write or a finish.\<close>

definition upload_manager_destroy :: "upload_manager \<Rightarrow> os \<Rightarrow> os option" where
  "upload_manager_destroy m s =
     (if ct_finalizing (mg_chunks m) \<or> ct_active_writes (mg_chunks m) \<noteq> 0 then None
      else case settle_writer (on_writer (\<lambda>w. w\<lparr>wt_discard := True, wt_shutdown := True\<rparr>) m) s of
          (m, s) \<Rightarrow> Some (snd (snd (clear_slot True (on_writer (\<lambda>w. w\<lparr>wt_active := False\<rparr>) m) s))))"

definition upload_manager_set_destination ::
  "build \<Rightarrow> string option \<Rightarrow> upload_manager \<Rightarrow> string \<Rightarrow> os \<Rightarrow> upload_result \<times> upload_manager \<times> os" where
  "upload_manager_set_destination b upload_dir m directory s =
     (let effective = (case (b, upload_dir) of
                         (Host, Some d) \<Rightarrow> (if d \<noteq> [] \<and> hd d = CHR ''/'' then d else directory)
                       | _ \<Rightarrow> directory)
      in if effective = [] \<or> hd effective \<noteq> CHR ''/'' \<or> 1024 \<le> length effective then (UPLOAD_INVALID, m, s)
         else case reap_now m s of
             (m, s) \<Rightarrow>
               (if sl_occupied (mg_slot m) then (UPLOAD_BUSY, m, s)
                else case ensure_destination_directory effective s of
                    (False, s) \<Rightarrow> (storage_result (os_errno s), m, s)
                  | (True, s) \<Rightarrow>
                      (if mg_destination m \<noteq> effective
                       then (UPLOAD_OK, m\<lparr>mg_destination := effective\<rparr>, cleanup_stale_parts effective s)
                       else (UPLOAD_OK, m, s))))"

section \<open>Preparing an upload\<close>

definition no_space :: "(u64 \<times> u64) option \<Rightarrow> u64 \<Rightarrow> bool" where
  "no_space space amount \<longleftrightarrow>
     (case space of
        None \<Rightarrow> True
      | Some (fragment, available) \<Rightarrow> fragment \<noteq> 0 \<and> available < (amount + fragment - 1) div fragment)"

text \<open>The choice of the names, in the free slot.\<close>

definition prepare_names ::
  "upload_manager \<Rightarrow> string \<Rightarrow> string \<Rightarrow> u64 \<Rightarrow> os \<Rightarrow> upload_result \<times> upload_manager \<times> os" where
  "prepare_names m authorization requested amount s =
     (let m = (if mg_completed_authorization m \<noteq> authorization
               then m\<lparr>mg_completed_files := 0, mg_completed_authorization := authorization\<rparr> else m)
      in if mg_max_files m \<le> mg_completed_files m then (UPLOAD_LIMIT_REACHED, m, s)
         else case sys_statvfs s of
             (space, s) \<Rightarrow>
               (if no_space space amount then (UPLOAD_STORAGE_FULL, m, s)
                else case safe_path_unique_name (mg_destination m) requested s of
                    (None, s) \<Rightarrow> (UPLOAD_IO_ERROR, m, s)
                  | (Some name, s) \<Rightarrow>
                      (let m = on_slot (\<lambda>x. x\<lparr>sl_final_name := name\<rparr>) m
                       in case safe_path_join (mg_destination m) name SAFE_PATH_FULL_BYTES of
                           None \<Rightarrow> (UPLOAD_IO_ERROR, m, s)
                         | Some path \<Rightarrow>
                             (let m = on_slot (\<lambda>x. x\<lparr>sl_final_path := path\<rparr>) m
                              in case random_id s of
                                  (None, s) \<Rightarrow> (UPLOAD_IO_ERROR, m, s)
                                | (Some upload_id, s) \<Rightarrow>
                                    (let part = part_path_text (mg_destination m) upload_id;
                                         m = on_slot (\<lambda>x. x\<lparr>sl_id := upload_id, sl_part_path := take (SAFE_PATH_FULL_BYTES - 1) part\<rparr>) m
                                     in if SAFE_PATH_FULL_BYTES \<le> length part then (UPLOAD_IO_ERROR, m, s)
                                        else (UPLOAD_OK, m, s))))))"

definition chunk_count_for :: "u64 \<Rightarrow> nat" where
  "chunk_count_for amount = (if amount = 0 then 0 else unat ((amount - 1) div UPLOAD_CHUNK_BYTES) + 1)"

text \<open>The three arrays.\<close>

definition allocate_chunks :: "nat \<Rightarrow> chunk_table \<Rightarrow> os \<Rightarrow> chunk_table \<times> os" where
  "allocate_chunks count c s =
     (if count = 0 then (c, s)
      else case allocate s of
          (a, s) \<Rightarrow>
            (case allocate s of
               (b, s) \<Rightarrow>
                 (case allocate s of
                    (d, s) \<Rightarrow>
                      (c\<lparr>ct_states := (if a then Some (replicate count 0) else None),
                         ct_progress := (if b then Some (replicate count 0) else None),
                         ct_buffers := (if d then Some (replicate count None) else None)\<rparr>, s))))"

text \<open>The file and the arrays; on failure the caller clears the slot.\<close>

definition prepare_file ::
  "build \<Rightarrow> upload_manager \<Rightarrow> string \<Rightarrow> string \<Rightarrow> u64 \<Rightarrow> string \<Rightarrow> os \<Rightarrow> upload_result \<times> upload_manager \<times> os" where
  "prepare_file b m client authorization amount hash s =
     (case read_nanos s of
        (start, s) \<Rightarrow>
          (case open_part_file b (sl_part_path (mg_slot m)) s of
             (fd, s) \<Rightarrow>
               (let m = on_timing (\<lambda>t. t\<lparr>tm_preparation_start := start\<rparr>) (on_slot (\<lambda>x. x\<lparr>sl_fd := fd, sl_direct_io := False\<rparr>) m)
                in case fd of
                    None \<Rightarrow> (storage_result (os_errno s), m, s)
                  | Some d \<Rightarrow>
                      (case reserve_upload_space b d amount s of
                         (False, s) \<Rightarrow> (storage_result (os_errno s), m, s)
                       | (True, s) \<Rightarrow>
                           (case allocate_chunks (chunk_count_for amount) (mg_chunks m) s of
                              (c, s) \<Rightarrow>
                                (let m = m\<lparr>mg_chunks := c\<rparr>
                                 in if 0 < chunk_count_for amount \<and> (ct_states c = None \<or> ct_progress c = None \<or> ct_buffers c = None)
                                    then (UPLOAD_IO_ERROR, m, s\<lparr>os_errno := ENOMEM\<rparr>)
                                    else case read_nanos s of
                                        (finish, s) \<Rightarrow>
                                          (case read_seconds s of
                                             (now, s) \<Rightarrow>
                                               (UPLOAD_OK,
                                                on_timing (\<lambda>t. t\<lparr>tm_preparation_elapsed := elapsed_nanoseconds start finish\<rparr>)
                                                  (on_chunks (\<lambda>c. c\<lparr>ct_count := chunk_count_for amount, ct_completed := 0, ct_next := 0,
                                                      ct_active_buffers := 0\<rparr>)
                                                    (on_slot (\<lambda>x. x\<lparr>sl_occupied := True, sl_expected := amount, sl_last_activity := now,
                                                        sl_client := client, sl_authorization := authorization,
                                                        sl_expected_hash := hash\<rparr>) m)), s))))))))"

text \<open>The whole request; on success the prepared upload is returned.\<close>

definition upload_prepare ::
  "build \<Rightarrow> upload_manager \<Rightarrow> string \<Rightarrow> string \<Rightarrow> byte list option \<Rightarrow> os \<Rightarrow>
   upload_result \<times> upload_prepared option \<times> upload_manager \<times> os" where
  "upload_prepare b m client authorization json s =
     (if 64 \<le> length client \<or> UPLOAD_AUTH_BYTES \<le> length authorization \<or>
         (case json of None \<Rightarrow> False | Some body \<Rightarrow> UPLOAD_METADATA_BYTES < length body)
      then (UPLOAD_INVALID, None, m, s)
      else case parse_metadata (SAFE_PATH_NAME_BYTES + 1) json of
          None \<Rightarrow> (UPLOAD_INVALID, None, m, s)
        | Some (requested, amount, hash) \<Rightarrow>
            (if mg_max_file_bytes m < amount then (UPLOAD_TOO_LARGE, None, m, s)
             else case reap_now m s of
                 (m, s) \<Rightarrow>
                   (case (if sl_occupied (mg_slot m) \<and> \<not> sl_started (mg_slot m) \<and> sl_authorization (mg_slot m) \<noteq> authorization
                          then snd (clear_slot True m s) else (m, s)) of
                      (m, s) \<Rightarrow>
                        (case (if sl_occupied (mg_slot m) then (UPLOAD_BUSY, m, s)
                               else prepare_names m authorization requested amount s) of
                           (result, m, s) \<Rightarrow>
                             (case (if result = UPLOAD_OK then prepare_file b m client authorization amount hash s
                                    else (result, m, s)) of
                                (result, m, s) \<Rightarrow>
                                  (let prepared = \<lparr>pr_upload_id = sl_id (mg_slot m), pr_final_name = sl_final_name (mg_slot m), pr_size = amount\<rparr>
                                   in if result \<noteq> UPLOAD_OK \<and> sl_fd (mg_slot m) \<noteq> None
                                      then (case clear_slot True m s of (_, m, s) \<Rightarrow> (result, None, m, s))
                                      else (result, if result = UPLOAD_OK then Some prepared else None, m, s)))))))"

section \<open>The body in one stream\<close>

definition upload_begin ::
  "upload_manager \<Rightarrow> string \<Rightarrow> string \<Rightarrow> string \<Rightarrow> u64 \<Rightarrow> os \<Rightarrow> upload_result \<times> upload_manager \<times> os" where
  "upload_begin m upload_id client authorization amount s =
     (case reap_now m s of
        (m, s) \<Rightarrow>
          (if \<not> owns m upload_id then (UPLOAD_NOT_FOUND, m, s)
           else if \<not> binding_matches m client authorization then (UPLOAD_FORBIDDEN, m, s)
           else if sl_started (mg_slot m) \<or> ct_transport (mg_chunks m) then (UPLOAD_BUSY, m, s)
           else if amount \<noteq> sl_expected (mg_slot m) then (UPLOAD_SIZE_MISMATCH, m, s)
           else case touch (on_slot (\<lambda>x. x\<lparr>sl_started := True\<rparr>) m) s of
               (m, s) \<Rightarrow>
                 (case read_nanos s of
                    (start, s) \<Rightarrow>
                      (UPLOAD_OK, on_timing (\<lambda>t. t\<lparr>tm_transfer_start := start, tm_write_elapsed := 0\<rparr>)
                                    (on_slot (\<lambda>x. x\<lparr>sl_sha256 := sha256_init\<rparr>) m), s))))"

text \<open>The buffer at the tail is handed to the writer; zero or the error number.\<close>

definition queue_full :: "upload_manager \<Rightarrow> bool" where
  "queue_full m \<longleftrightarrow> wq_queued (mg_queue m) = UPLOAD_WRITE_QUEUE_DEPTH \<and> wt_error (mg_writer m) = E0"

definition enqueue_buffer :: "write_queue \<Rightarrow> write_queue" where
  "enqueue_buffer q =
     q\<lparr>wq_sizes := (wq_sizes q)[wq_tail q := wq_buffered q], wq_tail := (wq_tail q + 1) mod UPLOAD_WRITE_QUEUE_DEPTH,
       wq_queued := wq_queued q + 1, wq_buffered := 0\<rparr>"

definition enqueue_write_buffer :: "upload_manager \<Rightarrow> os \<Rightarrow> (errno \<times> upload_manager \<times> os) option" where
  "enqueue_write_buffer m s =
     (if wq_buffered (mg_queue m) = 0 then Some (E0, m, s)
      else case await (\<lambda>m. queue_full m \<and> \<not> wt_discard (mg_writer m)) m s of
          None \<Rightarrow> None
        | Some (m, s) \<Rightarrow>
            (if wt_error (mg_writer m) \<noteq> E0 then Some (wt_error (mg_writer m), m, s)
             else if wt_discard (mg_writer m) \<or> wt_shutdown (mg_writer m) then Some (ECANCELED, m, s)
             else Some (E0, on_queue enqueue_buffer m, s)))"

definition wait_for_write_queue :: "upload_manager \<Rightarrow> os \<Rightarrow> (errno \<times> upload_manager \<times> os) option" where
  "wait_for_write_queue m s =
     (case await (\<lambda>m. wt_error (mg_writer m) = E0 \<and> (wq_queued (mg_queue m) \<noteq> 0 \<or> wt_active (mg_writer m))) m s of
        None \<Rightarrow> None
      | Some (m, s) \<Rightarrow> Some (wt_error (mg_writer m), m, s))"

text \<open>One piece is copied into the buffer at the tail, hashed and counted.\<close>

definition buffer_bytes :: "byte list \<Rightarrow> write_queue \<Rightarrow> write_queue" where
  "buffer_bytes piece q =
     q\<lparr>wq_slots := (wq_slots q)[wq_tail q := overwrite (wq_slots q ! wq_tail q) (wq_buffered q) piece],
       wq_buffered := wq_buffered q + length piece\<rparr>"

definition accept_piece :: "byte list \<Rightarrow> upload_manager \<Rightarrow> upload_manager" where
  "accept_piece piece m =
     on_queue (buffer_bytes piece)
       (on_slot (\<lambda>x. x\<lparr>sl_sha256 := sha256_update (sl_sha256 x) piece, sl_received := sl_received x + of_nat (length piece)\<rparr>) m)"

text \<open>The loop over the data of one call.\<close>

partial_function (option) write_pieces ::
  "upload_manager \<Rightarrow> byte list \<Rightarrow> os \<Rightarrow> (upload_result \<times> upload_manager \<times> os) option" where
  "write_pieces m data s =
     (if data = [] then Some (UPLOAD_OK, m, s)
      else case await queue_full m s of
          None \<Rightarrow> None
        | Some (m, s) \<Rightarrow>
            (if wt_error (mg_writer m) \<noteq> E0
             then Some (storage_result (wt_error (mg_writer m)), m, s\<lparr>os_errno := wt_error (mg_writer m)\<rparr>)
             else let count = min (length data) (UPLOAD_WRITE_BUFFER_BYTES - wq_buffered (mg_queue m))
                  in case touch (accept_piece (take count data) m) s of
                      (m, s) \<Rightarrow>
                        (if wq_buffered (mg_queue m) = UPLOAD_WRITE_BUFFER_BYTES
                         then (case enqueue_write_buffer m s of
                                 None \<Rightarrow> None
                               | Some (e, m, s) \<Rightarrow>
                                   (if e \<noteq> E0 then Some (storage_result e, m, s\<lparr>os_errno := e\<rparr>)
                                    else write_pieces m (drop count data) s))
                         else write_pieces m (drop count data) s)))"

definition upload_write ::
  "upload_manager \<Rightarrow> string \<Rightarrow> byte list \<Rightarrow> os \<Rightarrow> (upload_result \<times> upload_manager \<times> os) option" where
  "upload_write m upload_id data s =
     (case reap_now m s of
        (m, s) \<Rightarrow>
          (if \<not> owns m upload_id \<or> \<not> sl_started (mg_slot m) then Some (UPLOAD_NOT_FOUND, m, s)
           else if sl_expected (mg_slot m) - sl_received (mg_slot m) < of_nat (length data) then Some (UPLOAD_SIZE_MISMATCH, m, s)
           else write_pieces m data s))"

section \<open>The body written directly\<close>

definition upload_enable_direct_stream :: "upload_manager \<Rightarrow> string \<Rightarrow> upload_result \<times> upload_manager" where
  "upload_enable_direct_stream m upload_id =
     (if \<not> owns m upload_id \<or> \<not> sl_started (mg_slot m) then (UPLOAD_NOT_FOUND, m)
      else if ct_transport (mg_chunks m) \<or> sl_received (mg_slot m) \<noteq> 0 \<or> wq_buffered (mg_queue m) \<noteq> 0 \<or>
              wq_queued (mg_queue m) \<noteq> 0 \<or> wt_active (mg_writer m) then (UPLOAD_BUSY, m)
      else (UPLOAD_OK, on_slot (\<lambda>x. x\<lparr>sl_fast_direct := True\<rparr>) m))"

text \<open>The checks before the write, the write without the mutex, and the bookkeeping after it.\<close>

definition write_direct_start ::
  "upload_manager \<Rightarrow> string \<Rightarrow> byte list \<Rightarrow> os \<Rightarrow> upload_result \<times> upload_manager \<times> os" where
  "write_direct_start m upload_id data s =
     (case reap_now m s of
        (m, s) \<Rightarrow>
          (if \<not> owns m upload_id \<or> \<not> sl_started (mg_slot m) then (UPLOAD_NOT_FOUND, m, s)
           else if \<not> sl_fast_direct (mg_slot m) then (UPLOAD_BUSY, m, s)
           else if sl_expected (mg_slot m) - sl_received (mg_slot m) < of_nat (length data) then (UPLOAD_SIZE_MISMATCH, m, s)
           else if ct_active_writes (mg_chunks m) \<noteq> 0 then (UPLOAD_BUSY, m, s)
           else case touch (on_chunks (\<lambda>c. c\<lparr>ct_active_writes := ct_active_writes c + 1\<rparr>) m) s of
               (m, s) \<Rightarrow> (UPLOAD_OK, m, s)))"

definition write_direct_end ::
  "upload_manager \<Rightarrow> byte list \<Rightarrow> os \<Rightarrow> upload_result \<times> upload_manager \<times> os" where
  "write_direct_end m data s =
     (case read_nanos s of
        (start, s) \<Rightarrow>
          (case write_all (sl_fd (mg_slot m)) data s of
             (e, s) \<Rightarrow>
               (case read_nanos s of
                  (finish, s) \<Rightarrow>
                    (let m = on_chunks (\<lambda>c. c\<lparr>ct_active_writes := ct_active_writes c - 1\<rparr>)
                               (on_timing (\<lambda>t. t\<lparr>tm_write_elapsed := tm_write_elapsed t + elapsed_nanoseconds start finish\<rparr>) m)
                     in if e \<noteq> E0
                        then (storage_result e, on_writer (\<lambda>w. w\<lparr>wt_error := e\<rparr>) m, s\<lparr>os_errno := e\<rparr>)
                        else case touch (on_slot (\<lambda>x. x\<lparr>sl_received := sl_received x + of_nat (length data)\<rparr>) m) s of
                            (m, s) \<Rightarrow> (UPLOAD_OK, m, s)))))"

definition upload_write_direct ::
  "upload_manager \<Rightarrow> string \<Rightarrow> byte list \<Rightarrow> os \<Rightarrow> upload_result \<times> upload_manager \<times> os" where
  "upload_write_direct m upload_id data s =
     (if data = [] then (UPLOAD_OK, m, s)
      else case write_direct_start m upload_id data s of
          (result, m, s) \<Rightarrow> (if result \<noteq> UPLOAD_OK then (result, m, s) else write_direct_end m data s))"

section \<open>The body in chunks\<close>

definition arrays_present :: "chunk_table \<Rightarrow> bool" where
  "arrays_present c \<longleftrightarrow> ct_states c \<noteq> None \<and> ct_progress c \<noteq> None \<and> ct_buffers c \<noteq> None"

definition set_chunk :: "nat \<Rightarrow> nat \<Rightarrow> u64 \<Rightarrow> byte list option \<Rightarrow> chunk_table \<Rightarrow> chunk_table" where
  "set_chunk i state progress buffer c =
     c\<lparr>ct_states := Some ((the (ct_states c))[i := state]), ct_progress := Some ((the (ct_progress c))[i := progress]),
       ct_buffers := Some ((the (ct_buffers c))[i := buffer])\<rparr>"

definition upload_chunk_begin ::
  "upload_manager \<Rightarrow> string \<Rightarrow> string \<Rightarrow> string \<Rightarrow> u64 \<Rightarrow> u64 \<Rightarrow> u64 \<Rightarrow> os \<Rightarrow> upload_result \<times> upload_manager \<times> os" where
  "upload_chunk_begin m upload_id client authorization whole offset amount s =
     (if amount = 0 then (UPLOAD_INVALID, m, s)
      else case reap_now m s of
          (m, s) \<Rightarrow>
            (if \<not> owns m upload_id then (UPLOAD_NOT_FOUND, m, s)
             else if \<not> binding_matches m client authorization then (UPLOAD_FORBIDDEN, m, s)
             else if ct_finalizing (mg_chunks m) then (UPLOAD_BUSY, m, s)
             else if sl_started (mg_slot m) \<and> \<not> ct_transport (mg_chunks m) then (UPLOAD_BUSY, m, s)
             else if whole \<noteq> sl_expected (mg_slot m) \<or> whole \<le> offset \<or> whole - offset < amount \<or>
                     offset mod UPLOAD_CHUNK_BYTES \<noteq> 0 \<or> (amount \<noteq> UPLOAD_CHUNK_BYTES \<and> offset + amount \<noteq> whole)
             then (UPLOAD_SIZE_MISMATCH, m, s)
             else let i = unat (offset div UPLOAD_CHUNK_BYTES); c = mg_chunks m
                  in if ct_count c \<le> i \<or> chunk_length_for m i \<noteq> amount then (UPLOAD_SIZE_MISMATCH, m, s)
                     else if \<not> arrays_present c then (UPLOAD_INVALID, m, s)
                     else if the (ct_states c) ! i \<noteq> 0 then (UPLOAD_BUSY, m, s)
                     else if UPLOAD_CHUNK_BUFFER_SLOTS \<le> ct_active_buffers c then (UPLOAD_BACKPRESSURE, m, s)
                     else case allocate s of
                         (False, s) \<Rightarrow> (UPLOAD_IO_ERROR, m, s\<lparr>os_errno := ENOMEM\<rparr>)
                       | (True, s) \<Rightarrow>
                           (let m = on_chunks (\<lambda>c. (set_chunk i 1 0 (Some []) c)\<lparr>ct_active_buffers := ct_active_buffers c + 1\<rparr>) m
                            in case (if \<not> sl_started (mg_slot m)
                                     then (case read_nanos s of
                                             (start, s) \<Rightarrow>
                                               (on_timing (\<lambda>t. t\<lparr>tm_transfer_start := start, tm_write_elapsed := 0\<rparr>)
                                                  (on_chunks (\<lambda>c. c\<lparr>ct_transport := True\<rparr>)
                                                    (on_slot (\<lambda>x. x\<lparr>sl_started := True\<rparr>) m)), s))
                                     else (m, s)) of
                                (m, s) \<Rightarrow> (case touch m s of (m, s) \<Rightarrow> (UPLOAD_OK, m, s)))))"

definition upload_chunk_write ::
  "upload_manager \<Rightarrow> string \<Rightarrow> u64 \<Rightarrow> byte list \<Rightarrow> os \<Rightarrow> upload_result \<times> upload_manager \<times> os" where
  "upload_chunk_write m upload_id offset data s =
     (if data = [] then (UPLOAD_OK, m, s)
      else case reap_now m s of
          (m, s) \<Rightarrow>
            (if \<not> owns m upload_id \<or> \<not> sl_started (mg_slot m) then (UPLOAD_NOT_FOUND, m, s)
             else if sl_expected (mg_slot m) \<le> offset \<or> sl_expected (mg_slot m) - offset < of_nat (length data)
             then (UPLOAD_SIZE_MISMATCH, m, s)
             else let i = unat (offset div UPLOAD_CHUNK_BYTES); c = mg_chunks m
                  in if ct_count c \<le> i \<or> \<not> arrays_present c \<or> the (ct_buffers c) ! i = None \<or> the (ct_states c) ! i \<noteq> 1
                     then (UPLOAD_BUSY, m, s)
                     else let relative = offset - of_nat i * UPLOAD_CHUNK_BYTES; amount = chunk_length_for m i
                          in if relative \<noteq> the (ct_progress c) ! i \<or> amount < relative \<or> amount - relative < of_nat (length data)
                             then (UPLOAD_SIZE_MISMATCH, m, s)
                             else case touch
                                    (on_slot (\<lambda>x. x\<lparr>sl_received := sl_received x + of_nat (length data)\<rparr>)
                                      (on_chunks (set_chunk i 1 (the (ct_progress c) ! i + of_nat (length data))
                                         (Some (overwrite (the (the (ct_buffers c) ! i)) (unat relative) data))) m)) s of
                                  (m, s) \<Rightarrow> (UPLOAD_OK, m, s)))"

text \<open>What an unfinished chunk leaves: its bytes are no longer counted.\<close>

definition drop_chunk :: "nat \<Rightarrow> upload_manager \<Rightarrow> upload_manager" where
  "drop_chunk i m =
     (let progress = the (ct_progress (mg_chunks m)) ! i
      in on_chunks (\<lambda>c. (set_chunk i 0 0 None c)\<lparr>ct_active_buffers := ct_active_buffers c - 1\<rparr>)
           (on_slot (\<lambda>x. x\<lparr>sl_received := (if progress \<le> sl_received x then sl_received x - progress else 0)\<rparr>) m))"

definition upload_chunk_finish ::
  "upload_manager \<Rightarrow> string \<Rightarrow> u64 \<Rightarrow> u64 \<Rightarrow> os \<Rightarrow> upload_result \<times> upload_manager \<times> os" where
  "upload_chunk_finish m upload_id offset amount s =
     (if amount = 0 then (UPLOAD_INVALID, m, s)
      else case reap_now m s of
          (m, s) \<Rightarrow>
            (if \<not> owns m upload_id \<or> \<not> sl_started (mg_slot m) then (UPLOAD_NOT_FOUND, m, s)
             else if sl_expected (mg_slot m) \<le> offset \<or> offset mod UPLOAD_CHUNK_BYTES \<noteq> 0 then (UPLOAD_SIZE_MISMATCH, m, s)
             else let i = unat (offset div UPLOAD_CHUNK_BYTES); c = mg_chunks m
                  in if ct_count c \<le> i \<or> \<not> arrays_present c \<or> the (ct_buffers c) ! i = None \<or> the (ct_states c) ! i \<noteq> 1
                     then (UPLOAD_BUSY, m, s)
                     else if chunk_length_for m i \<noteq> amount \<or> the (ct_progress c) ! i \<noteq> amount
                     then (UPLOAD_SIZE_MISMATCH, drop_chunk i m, s)
                     else case touch (on_chunks (\<lambda>c. c\<lparr>ct_states := Some ((the (ct_states c))[i := 2]),
                                        ct_completed := ct_completed c + 1\<rparr>) m) s of
                         (m, s) \<Rightarrow> (UPLOAD_OK, m, s)))"

definition upload_chunk_abort :: "upload_manager \<Rightarrow> string \<Rightarrow> u64 \<Rightarrow> os \<Rightarrow> upload_manager \<times> os" where
  "upload_chunk_abort m upload_id offset s =
     (if owns m upload_id \<and> sl_started (mg_slot m) \<and> offset < sl_expected (mg_slot m) \<and> offset mod UPLOAD_CHUNK_BYTES = 0
      then let i = unat (offset div UPLOAD_CHUNK_BYTES); c = mg_chunks m
           in if i < ct_count c \<and> arrays_present c \<and> the (ct_states c) ! i = 1 then touch (drop_chunk i m) s else (m, s)
      else (m, s))"

section \<open>Finishing\<close>

text \<open>
  The part that both ways of finishing share once the digest is known: the comparison, the flush, the
  close, the publication, the figures and the release of the slot.  \<open>transfer\<close> is the transfer time, or
  \<open>None\<close> when the clock is to be read now.
\<close>

definition record_metrics :: "u64 \<Rightarrow> upload_manager \<Rightarrow> upload_manager" where
  "record_metrics transfer m =
     m\<lparr>mg_last_metrics :=
         \<lparr>me_preparation_ms = nanoseconds_to_milliseconds (tm_preparation_elapsed (mg_timing m)),
          me_transfer_ms = nanoseconds_to_milliseconds transfer,
          me_write_ms = nanoseconds_to_milliseconds (tm_write_elapsed (mg_timing m)),
          me_direct_io = sl_direct_io (mg_slot m)\<rparr>,
       mg_has_last_metrics := True, mg_last_completed_size := sl_expected (mg_slot m)\<rparr>"

definition published :: "u64 option \<Rightarrow> nat \<Rightarrow> upload_manager \<Rightarrow> os \<Rightarrow> upload_manager \<times> os" where
  "published transfer k m s =
     (case (case transfer of
              Some t \<Rightarrow> (t, s)
            | None \<Rightarrow> (case read_nanos s of (now, s) \<Rightarrow> (elapsed_nanoseconds (tm_transfer_start (mg_timing m)) now, s))) of
        (t, s) \<Rightarrow>
          (case (if k = 0 then snd (sys_unlink (sl_part_path (mg_slot m)) s) else s) of
             s \<Rightarrow>
               (let m = record_metrics t m
                in snd (clear_slot False (m\<lparr>mg_completed_files := mg_completed_files m + 1\<rparr>) s))))"

definition conclude ::
  "build \<Rightarrow> string \<Rightarrow> u64 option \<Rightarrow> upload_manager \<Rightarrow> os \<Rightarrow> upload_result \<times> upload_manager \<times> os" where
  "conclude b digest transfer m s =
     (if sl_expected_hash (mg_slot m) \<noteq> [] \<and> sl_expected_hash (mg_slot m) \<noteq> digest then (UPLOAD_HASH_MISMATCH, m, s)
      else case sync_for_publication b (sl_fd (mg_slot m)) s of
          (False, s) \<Rightarrow> (storage_result (os_errno s), m, s)
        | (True, s) \<Rightarrow>
            (case (case sl_fd (mg_slot m) of None \<Rightarrow> fails EBADF s | Some fd \<Rightarrow> sys_close fd s) of
               (closed, s) \<Rightarrow>
                 (let m = on_slot (\<lambda>x. x\<lparr>sl_fd := None\<rparr>) m
                  in if \<not> closed then (UPLOAD_IO_ERROR, m, s)
                     else case publish_part b (sl_part_path (mg_slot m)) (sl_final_path (mg_slot m)) s of
                         (None, s) \<Rightarrow> (if os_errno s = EEXIST then UPLOAD_BUSY else UPLOAD_IO_ERROR, m, s)
                       | (Some k, s) \<Rightarrow> (case published transfer k m s of (m, s) \<Rightarrow> (UPLOAD_OK, m, s)))))"

text \<open>The end of a stream: up to where the mutex is released for hashing, and from there.\<close>

datatype finish_phase = Finish_stop upload_result | Finish_stream u64 | Finish_hash string u64

definition flush_queue :: "upload_manager \<Rightarrow> os \<Rightarrow> (errno \<times> upload_manager \<times> os) option" where
  "flush_queue m s =
     (case enqueue_write_buffer m s of
        None \<Rightarrow> None
      | Some (e, m, s) \<Rightarrow> (if e = E0 then wait_for_write_queue m s else Some (e, m, s)))"

definition upload_finish_start :: "upload_manager \<Rightarrow> string \<Rightarrow> os \<Rightarrow> (finish_phase \<times> upload_manager \<times> os) option" where
  "upload_finish_start m upload_id s =
     (case reap_now m s of
        (m, s) \<Rightarrow>
          (if \<not> owns m upload_id \<or> \<not> sl_started (mg_slot m) then Some (Finish_stop UPLOAD_NOT_FOUND, m, s)
           else if sl_received (mg_slot m) \<noteq> sl_expected (mg_slot m) then Some (Finish_stop UPLOAD_SIZE_MISMATCH, m, s)
           else if wt_error (mg_writer m) \<noteq> E0
           then Some (Finish_stop (storage_result (wt_error (mg_writer m))), m, s\<lparr>os_errno := wt_error (mg_writer m)\<rparr>)
           else if sl_fast_direct (mg_slot m)
           then (case read_nanos s of
                   (now, s) \<Rightarrow>
                     Some (Finish_hash (sl_part_path (mg_slot m)) (elapsed_nanoseconds (tm_transfer_start (mg_timing m)) now),
                           on_chunks (\<lambda>c. c\<lparr>ct_finalizing := True\<rparr>) m, s))
           else (case flush_queue m s of
                   None \<Rightarrow> None
                 | Some (e, m, s) \<Rightarrow>
                     (case read_nanos (if e \<noteq> E0 then s\<lparr>os_errno := e\<rparr> else s) of
                        (now, s) \<Rightarrow>
                          Some (if e \<noteq> E0 then Finish_stop (storage_result e)
                                else Finish_stream (elapsed_nanoseconds (tm_transfer_start (mg_timing m)) now), m, s)))))"

definition stream_digest :: "upload_manager \<Rightarrow> string \<times> upload_manager" where
  "stream_digest m =
     (case sha256_final (sl_sha256 (mg_slot m)) of
        (raw, context) \<Rightarrow> (sha256_hex raw, on_slot (\<lambda>x. x\<lparr>sl_sha256 := context\<rparr>) m))"

text \<open>The last step of a failing finish: the slot is cleared.\<close>

definition clear_failed ::
  "upload_result \<Rightarrow> upload_manager \<Rightarrow> os \<Rightarrow> upload_result \<times> upload_manager \<times> os" where
  "clear_failed result m s =
     (case clear_slot True m s of (ok, m, s) \<Rightarrow> (if ok then result else UPLOAD_IO_ERROR, m, s))"

definition upload_finish_end ::
  "build \<Rightarrow> upload_manager \<Rightarrow> string \<Rightarrow> finish_phase \<Rightarrow> os \<Rightarrow> upload_result \<times> string \<times> upload_manager \<times> os" where
  "upload_finish_end b m upload_id phase s =
     (case (case phase of
              Finish_stop result \<Rightarrow> ((result, m, s), [])
            | Finish_stream transfer \<Rightarrow> (case stream_digest m of (digest, m) \<Rightarrow> (conclude b digest (Some transfer) m s, digest))
            | Finish_hash path transfer \<Rightarrow>
                (case hash_part_file path s of
                   (digest, s) \<Rightarrow>
                     (if \<not> owns m upload_id \<or> \<not> ct_finalizing (mg_chunks m) then ((UPLOAD_NOT_FOUND, m, s), [])
                      else case digest of
                          None \<Rightarrow> ((UPLOAD_IO_ERROR, m, s), [])
                        | Some d \<Rightarrow> (conclude b d (Some transfer) m s, d)))) of
        ((result, m, s), digest) \<Rightarrow>
          (if result \<noteq> UPLOAD_OK
           then (case clear_failed result m s of (result, m, s) \<Rightarrow> (result, digest, m, s))
           else (result, digest, m, s)))"

text \<open>The call when no other client runs between its two parts.\<close>

definition upload_finish_with_metrics ::
  "build \<Rightarrow> upload_manager \<Rightarrow> string \<Rightarrow> os \<Rightarrow> (upload_result \<times> string \<times> upload_manager \<times> os) option" where
  "upload_finish_with_metrics b m upload_id s =
     (case upload_finish_start m upload_id s of
        None \<Rightarrow> None
      | Some (phase, m, s) \<Rightarrow> Some (upload_finish_end b m upload_id phase s))"

definition upload_finish :: "build \<Rightarrow> upload_manager \<Rightarrow> string \<Rightarrow> os \<Rightarrow> (upload_result \<times> string \<times> upload_manager \<times> os) option" where
  "upload_finish b m upload_id s = upload_finish_with_metrics b m upload_id s"

text \<open>The end of the chunks: the chunks still in memory are waited for; then the hash and the rest.\<close>

definition finish_chunks_start ::
  "upload_manager \<Rightarrow> string \<Rightarrow> string \<Rightarrow> string \<Rightarrow> os \<Rightarrow> (bool \<times> upload_result \<times> string \<times> upload_manager \<times> os) option" where
  "finish_chunks_start m upload_id client authorization s =
     (case reap_now m s of
        (m, s) \<Rightarrow>
          (if \<not> owns m upload_id then Some (False, UPLOAD_NOT_FOUND, [], m, s)
           else if \<not> binding_matches m client authorization then Some (False, UPLOAD_FORBIDDEN, [], m, s)
           else if ct_finalizing (mg_chunks m) then Some (False, UPLOAD_BUSY, [], m, s)
           else if \<not> sl_started (mg_slot m) then Some (False, UPLOAD_SIZE_MISMATCH, [], m, s)
           else if ct_completed (mg_chunks m) \<noteq> ct_count (mg_chunks m) \<or> sl_received (mg_slot m) \<noteq> sl_expected (mg_slot m)
           then Some (False, UPLOAD_SIZE_MISMATCH, [], m, s)
           else case await (\<lambda>m. wt_error (mg_writer m) = E0 \<and> ct_next (mg_chunks m) \<noteq> ct_count (mg_chunks m))
                       (on_chunks (\<lambda>c. c\<lparr>ct_finalizing := True\<rparr>) m) s of
               None \<Rightarrow> None
             | Some (m, s) \<Rightarrow>
                 (if wt_error (mg_writer m) \<noteq> E0
                  then Some (True, storage_result (wt_error (mg_writer m)), [], m, s\<lparr>os_errno := wt_error (mg_writer m)\<rparr>)
                  else Some (True, UPLOAD_OK, sl_part_path (mg_slot m), m, s))))"

definition finish_chunks_end ::
  "build \<Rightarrow> upload_manager \<Rightarrow> string \<Rightarrow> bool \<Rightarrow> upload_result \<Rightarrow> string \<Rightarrow> os \<Rightarrow>
   upload_result \<times> string \<times> upload_manager \<times> os" where
  "finish_chunks_end b m upload_id owner result path s =
     (case (if result = UPLOAD_OK \<and> owner
            then (case hash_part_file path s of
                    (digest, s) \<Rightarrow>
                      (case (if \<not> owns m upload_id \<or> \<not> ct_finalizing (mg_chunks m) then (UPLOAD_NOT_FOUND, m, s)
                             else case digest of
                                 None \<Rightarrow> (UPLOAD_IO_ERROR, m, s)
                               | Some d \<Rightarrow> conclude b d None m s) of
                         (result, m, s) \<Rightarrow>
                           ((result, on_chunks (\<lambda>c. c\<lparr>ct_finalizing := False\<rparr>) m, s),
                            case digest of None \<Rightarrow> [] | Some d \<Rightarrow> d)))
            else ((result, m, s), [])) of
        ((result, m, s), digest) \<Rightarrow>
          (if result \<noteq> UPLOAD_OK \<and> owner \<and> owns m upload_id
           then (case clear_failed result m s of (result, m, s) \<Rightarrow> (result, digest, m, s))
           else (result, digest, m, s)))"

definition upload_finish_chunks_with_metrics ::
  "build \<Rightarrow> upload_manager \<Rightarrow> string \<Rightarrow> string \<Rightarrow> string \<Rightarrow> os \<Rightarrow> (upload_result \<times> string \<times> upload_manager \<times> os) option" where
  "upload_finish_chunks_with_metrics b m upload_id client authorization s =
     (case finish_chunks_start m upload_id client authorization s of
        None \<Rightarrow> None
      | Some (owner, result, path, m, s) \<Rightarrow> Some (finish_chunks_end b m upload_id owner result path s))"

section \<open>Cancelling and looking\<close>

text \<open>\<open>None\<close> while a direct write is in progress.\<close>

definition upload_cancel ::
  "upload_manager \<Rightarrow> string \<Rightarrow> string \<Rightarrow> string \<Rightarrow> os \<Rightarrow> (upload_result \<times> upload_manager \<times> os) option" where
  "upload_cancel m upload_id client authorization s =
     (if ct_active_writes (mg_chunks m) \<noteq> 0 then None
      else case reap_now m s of
          (m, s) \<Rightarrow>
            Some (if \<not> owns m upload_id then (UPLOAD_NOT_FOUND, m, s)
                  else if \<not> binding_matches m client authorization then (UPLOAD_FORBIDDEN, m, s)
                  else if ct_finalizing (mg_chunks m) then (UPLOAD_BUSY, m, s)
                  else clear_failed UPLOAD_OK m s))"

definition upload_abort :: "upload_manager \<Rightarrow> string \<Rightarrow> os \<Rightarrow> (upload_manager \<times> os) option" where
  "upload_abort m upload_id s =
     (if ct_active_writes (mg_chunks m) \<noteq> 0 then None
      else Some (if \<not> ct_finalizing (mg_chunks m) \<and> owns m upload_id \<and> sl_started (mg_slot m)
                 then snd (clear_slot True m s) else (m, s)))"

definition upload_snapshot_of :: "upload_manager \<Rightarrow> os \<Rightarrow> upload_snapshot \<times> upload_manager \<times> os" where
  "upload_snapshot_of m s =
     (case reap_now m s of
        (m, s) \<Rightarrow>
          (\<lparr>sn_active = sl_occupied (mg_slot m), sn_started = sl_started (mg_slot m),
            sn_name = (if sl_occupied (mg_slot m) then sl_final_name (mg_slot m) else []),
            sn_received = sl_received (mg_slot m), sn_expected = sl_expected (mg_slot m),
            sn_has_last_metrics = mg_has_last_metrics m, sn_last_completed_size = mg_last_completed_size m,
            sn_last_metrics = mg_last_metrics m\<rparr>, m, s))"

end
