(* ===== verification/Platform.thy ===== *)
theory Platform
  imports FileSys
begin

text \<open>
  \<^verbatim>\<open>src/src/platform_host.c\<close> and \<^verbatim>\<open>src/src/platform_ps5.c\<close>: how the user is notified, where the data
  directory is, the loop that draws random bytes and the choice of the address to advertise.  The two
  files differ in the first two only.  A notification is recorded in the list of notices; the call that
  shows it (\<open>fprintf\<close> or the console's kernel) fails when the script says so.
\<close>

section \<open>Notifications and directories\<close>

definition NOTIFY_MESSAGE_BYTES :: nat where "NOTIFY_MESSAGE_BYTES = 3075"

definition show_notice :: "string \<Rightarrow> os \<Rightarrow> bool \<times> os" where
  "show_notice content s =
     (case next_fault s of
        (Fail e, s) \<Rightarrow> fails e s
      | (_, s) \<Rightarrow> (True, s\<lparr>os_notices := os_notices s @ [content]\<rparr>))"

definition notify_host :: "string \<Rightarrow> os \<Rightarrow> bool \<times> os" where
  "notify_host message s = show_notice (''[notification] '' @ message @ [CHR 0x0A]) s"

definition notify_ps5 :: "string \<Rightarrow> os \<Rightarrow> bool \<times> os" where
  "notify_ps5 message s = show_notice (take (NOTIFY_MESSAGE_BYTES - 1) message) s"

definition platform_notify :: "build \<Rightarrow> string \<Rightarrow> os \<Rightarrow> bool \<times> os" where
  "platform_notify b message s = (case b of Host \<Rightarrow> notify_host message s | PS5 \<Rightarrow> notify_ps5 message s)"

definition data_dir_host :: "string option \<Rightarrow> string" where
  "data_dir_host override =
     (case override of Some d \<Rightarrow> (if d \<noteq> [] then d else ''./runtime-data'') | None \<Rightarrow> ''./runtime-data'')"

definition data_dir_ps5 :: string where
  "data_dir_ps5 = ''/data/ps5localsend''"

definition platform_data_dir :: "build \<Rightarrow> string option \<Rightarrow> string" where
  "platform_data_dir b override = (case b of Host \<Rightarrow> data_dir_host override | PS5 \<Rightarrow> data_dir_ps5)"

section \<open>Random bytes\<close>

text \<open>What each \<open>read\<close> of \<open>/dev/urandom\<close> returns; an empty result is the end of the file.\<close>

datatype read_result = Read_error errno | Read_bytes "byte list"

fun random_loop :: "nat \<Rightarrow> read_result list \<Rightarrow> byte list option" where
  "random_loop 0 reads = Some []"
| "random_loop (Suc n) [] = None"
| "random_loop (Suc n) (Read_error e # reads) = (if e = EINTR then random_loop (Suc n) reads else None)"
| "random_loop (Suc n) (Read_bytes bs # reads) =
     (let bs = take (Suc n) bs
      in if bs = [] then None else map_option (\<lambda>rest. bs @ rest) (random_loop (Suc n - length bs) reads))"

text \<open>\<open>opened\<close> and \<open>closed\<close> are what \<open>open\<close> and the last \<open>close\<close> say.\<close>

definition platform_secure_random :: "bool \<Rightarrow> bool \<Rightarrow> nat \<Rightarrow> read_result list \<Rightarrow> byte list option" where
  "platform_secure_random opened closed amount reads =
     (if \<not> opened then None
      else case random_loop amount reads of None \<Rightarrow> None | Some bs \<Rightarrow> (if closed then Some bs else None))"

section \<open>The address on the local network\<close>

datatype address_family = AF_INET | AF_INET6 | AF_OTHER

text \<open>An entry of \<open>getifaddrs\<close>: its address, as family and text, unless it has none, and its flags.\<close>

record interface =
  if_address :: "(address_family \<times> string) option"
  if_flags :: u32

definition usable_interface :: "nat \<Rightarrow> interface \<Rightarrow> bool" where
  "usable_interface capacity i \<longleftrightarrow>
     (case if_address i of
        None \<Rightarrow> False
      | Some (family, t) \<Rightarrow> family = AF_INET \<and> if_flags i AND 8 = 0 \<and> length t < capacity)"

definition platform_get_lan_address :: "nat \<Rightarrow> interface list option \<Rightarrow> string option" where
  "platform_get_lan_address capacity addresses =
     (if capacity = 0 then None
      else case addresses of
          None \<Rightarrow> None
        | Some is \<Rightarrow> map_option (\<lambda>i. snd (the (if_address i))) (find (usable_interface capacity) is))"

section \<open>What the rest relies on\<close>

text \<open>The contract of the random source: all of the bytes asked for, or a failure.\<close>

lemma random_loop_bytes:
  "random_loop (Suc n) (Read_bytes bs # reads) =
     (if bs = [] then None else map_option ((@) (take (Suc n) bs)) (random_loop (Suc n - length bs) reads))"
  by (cases bs) (simp_all add: Let_def min_def)

lemma left_after: "Suc n - min k (Suc n) = Suc n - k"
  by (simp add: min_def)

declare random_loop.simps(4) [simp del]

lemma random_loop_length: "random_loop n reads = Some bs \<Longrightarrow> length bs = n"
proof (induction n reads arbitrary: bs rule: random_loop.induct)
  case (4 n data reads)
  from "4.prems" obtain rest where bs: "bs = take (Suc n) data @ rest" and data: "data \<noteq> []"
    and rest: "random_loop (Suc n - length data) reads = Some rest"
    by (auto simp: random_loop_bytes split: if_splits)
  from rest have "length rest = Suc n - length data"
    using "4.IH" [OF refl, of rest] data rest by (simp only: length_take left_after) simp
  with bs show ?case by simp
qed (auto split: if_splits)

lemma platform_secure_random_length:
  "platform_secure_random opened closed n reads = Some bs \<Longrightarrow> length bs = n"
  by (auto simp: platform_secure_random_def random_loop_length split: option.splits if_splits)

text \<open>Interrupted and short reads do not matter: enough bytes in any pieces are delivered in order.\<close>

definition read_data :: "read_result list \<Rightarrow> byte list" where
  "read_data reads = concat (map (\<lambda>r. case r of Read_bytes bs \<Rightarrow> bs | Read_error _ \<Rightarrow> []) reads)"

definition benign_read :: "read_result \<Rightarrow> bool" where
  "benign_read r \<longleftrightarrow> (case r of Read_bytes bs \<Rightarrow> bs \<noteq> [] | Read_error e \<Rightarrow> e = EINTR)"

lemma random_loop_complete:
  "list_all benign_read reads \<Longrightarrow> n \<le> length (read_data reads) \<Longrightarrow> random_loop n reads = Some (take n (read_data reads))"
proof (induction n reads rule: random_loop.induct)
  case (4 n data reads)
  have data: "data \<noteq> []" and tl: "list_all benign_read reads"
    using "4.prems"(1) by (simp_all add: benign_read_def [of "Read_bytes data"])
  have len: "Suc n - length data \<le> length (read_data reads)"
    using "4.prems"(2) by (simp add: read_data_def)
  have "random_loop (Suc n - length data) reads = Some (take (Suc n - length data) (read_data reads))"
    using "4.IH" [OF refl _ tl] data len by (simp add: left_after)
  then show ?case using data by (simp add: random_loop_bytes read_data_def)
qed (auto simp: read_data_def benign_read_def)

lemma show_notice_store: "show_notice content s = (ok, t) \<Longrightarrow> same_store s t"
  by (auto simp: show_notice_def fails_def next_fault_def same_store_def split: list.splits fault.splits prod.splits)

lemma platform_notify_store: "platform_notify b message s = (ok, t) \<Longrightarrow> same_store s t"
  by (auto simp: platform_notify_def notify_host_def notify_ps5_def show_notice_store split: build.splits)

end
