(* ===== verification/Router.thy ===== *)
theory Router
  imports RouterText AuthJson Upload Platform
begin

text \<open>
  \<^verbatim>\<open>src/src/router.c\<close>: the routes.  A handler is a function of the router, the request, the empty response
  and the system to the response, the router and the system afterwards; a handler that calls an upload
  operation which may wait gives an option, and \<open>None\<close> is a wait that does not end.  What the source does
  not define is the record \<open>environment\<close>: the build, the environment variables, the texts of
  \<open>strerror\<close> and the embedded files, which a script generates.  The pointers to the two managers and the
  strings of a request that every caller sets are never null.
\<close>

section \<open>Data\<close>

definition UPLOAD_CHUNK_PARALLELISM :: nat where "UPLOAD_CHUNK_PARALLELISM = 6"
definition STATUS_TARGETS_BYTES :: nat where "STATUS_TARGETS_BYTES = 12288"

record embedded_asset =
  as_content_type :: string
  as_data :: "byte list"

text \<open>\<open>ev_strerror\<close> gives the number and the text of an error number, or nothing where it is not positive.\<close>

record environment =
  ev_build :: build
  ev_upload_dir :: "string option"
  ev_data_dir :: "string option"
  ev_lease :: "string option"
  ev_strerror :: "errno \<Rightarrow> (nat \<times> string) option"
  ev_asset :: "string \<Rightarrow> embedded_asset option"

record router =
  rt_config :: app_config
  rt_auth_mode :: config_auth_mode
  rt_fast_upload_port :: u16
  rt_config_path :: string
  rt_auth :: auth_manager
  rt_uploads :: upload_manager

section \<open>Who may do what\<close>

definition authorized :: "router \<Rightarrow> router_request \<Rightarrow> os \<Rightarrow> bool \<times> router \<times> os" where
  "authorized r request s =
     (if rt_auth_mode r = CONFIG_AUTH_NONE then (True, r, s)
      else case auth_validate_bearer (rt_auth r) (Some (rq_client_address request)) (rq_authorization request) s of
          (result, a, s) \<Rightarrow> (result = AUTH_OK, r\<lparr>rt_auth := a\<rparr>, s))"

definition request_authorization :: "router \<Rightarrow> router_request \<Rightarrow> string" where
  "request_authorization r request =
     (if rt_auth_mode r = CONFIG_AUTH_NONE then ''NoAuth'' else the (rq_authorization request))"

definition pin_auth_enabled :: "router \<Rightarrow> bool" where
  "pin_auth_enabled r \<longleftrightarrow> rt_auth_mode r = CONFIG_AUTH_PIN"

abbreviation "origin_forbidden rs \<equiv> set_json_error rs 403 ''origin_forbidden'' ''Origin and Host must match this server''"
abbreviation "unauthorized rs \<equiv> set_json_error rs 401 ''unauthorized'' ''A valid bearer session is required''"
abbreviation "only_json rs \<equiv> set_json_error rs 415 ''unsupported_media_type'' ''Content-Type must be application/json''"
abbreviation "no_body rs \<equiv> set_json_error rs 413 ''body_too_large'' ''This resource does not accept a request body''"
abbreviation "method_not_allowed rs message allow \<equiv>
  (set_json_error rs 405 ''method_not_allowed'' message)\<lparr>rs_allow := Some allow\<rparr>"
abbreviation "only_post rs \<equiv> method_not_allowed rs ''Only POST is allowed for this resource'' ''POST''"

section \<open>Replies of the upload routes\<close>

definition storage_error_message :: "environment \<Rightarrow> errno \<Rightarrow> string" where
  "storage_error_message env e =
     (case ev_strerror env e of
        None \<Rightarrow> ''Unable to write destination storage''
      | Some (number, description) \<Rightarrow>
          (let message = ''Unable to write destination storage (errno '' @ dec_string number @ '': '' @ description @ '')''
           in if length message < 256 then message else ''Unable to write destination storage''))"

definition set_upload_error :: "environment \<Rightarrow> router_response \<Rightarrow> upload_result \<Rightarrow> errno \<Rightarrow> router_response" where
  "set_upload_error env rs result e =
     (case result of
        UPLOAD_INVALID \<Rightarrow> set_json_error rs 400 ''invalid_upload'' ''Upload request is malformed''
      | UPLOAD_NOT_FOUND \<Rightarrow> set_json_error rs 404 ''upload_not_found'' ''Upload does not exist''
      | UPLOAD_FORBIDDEN \<Rightarrow> set_json_error rs 403 ''upload_forbidden'' ''Upload belongs to another session''
      | UPLOAD_BUSY \<Rightarrow> set_json_error rs 409 ''upload_busy'' ''Another upload is active''
      | UPLOAD_TOO_LARGE \<Rightarrow> set_json_error rs 413 ''file_too_large'' ''File exceeds the configured limit''
      | UPLOAD_STORAGE_FULL \<Rightarrow> set_json_error rs 507 ''insufficient_storage'' ''Destination does not have enough space''
      | UPLOAD_SIZE_MISMATCH \<Rightarrow>
          set_json_error rs 400 ''size_mismatch'' ''Content-Length or received size does not match metadata''
      | UPLOAD_HASH_MISMATCH \<Rightarrow> set_json_error rs 422 ''hash_mismatch'' ''SHA-256 does not match metadata''
      | UPLOAD_LIMIT_REACHED \<Rightarrow> set_json_error rs 429 ''file_limit_reached'' ''Session file limit reached''
      | UPLOAD_BACKPRESSURE \<Rightarrow>
          set_json_error rs 429 ''upload_backpressure'' ''Upload staging window is full; retry this chunk''
      | UPLOAD_IO_ERROR \<Rightarrow> set_json_error rs 500 ''storage_error'' (storage_error_message env e)
      | UPLOAD_OK \<Rightarrow> set_json_error rs 500 ''internal_error'' ''Upload failed'')"

definition u64_text :: "u64 \<Rightarrow> string" where
  "u64_text n = dec_string (unat n)"

definition bool_text :: "bool \<Rightarrow> string" where
  "bool_text b = (if b then ''true'' else ''false'')"

definition timing_text :: "upload_metrics \<Rightarrow> string" where
  \<open>timing_text metrics =
     ''"timing":{"preparationMs":'' @ u64_text (me_preparation_ms metrics) @
     '',"transferMs":'' @ u64_text (me_transfer_ms metrics) @
     '',"writeMs":'' @ u64_text (me_write_ms metrics) @
     '',"directIO":'' @ bool_text (me_direct_io metrics) @ ''}}''\<close>

definition completed_text :: "string \<Rightarrow> upload_metrics \<Rightarrow> string" where
  \<open>completed_text digest metrics = ''{"completed":true,"sha256":"'' @ digest @ ''",'' @ timing_text metrics @ [CHR 0x0A]\<close>

definition set_upload_completed_response :: "router_response \<Rightarrow> string \<Rightarrow> upload_metrics \<Rightarrow> router_response" where
  "set_upload_completed_response rs digest metrics = reply rs 201 (completed_text digest metrics)"

definition prepared_text :: "string \<Rightarrow> upload_prepared \<Rightarrow> u16 \<Rightarrow> string" where
  \<open>prepared_text escaped_name p fast_port =
     ''{"uploadId":"'' @ pr_upload_id p @ ''","name":"'' @ escaped_name @ ''","size":'' @ u64_text (pr_size p) @
     '',"chunkSize":'' @ u64_text UPLOAD_CHUNK_BYTES @ '',"chunkParallelism":'' @ dec_string UPLOAD_CHUNK_PARALLELISM @
     '',"fastUploadPort":'' @ dec_string (unat fast_port) @ '',"fastUploadMode":"direct"}'' @ [CHR 0x0A]\<close>

section \<open>The upload routes\<close>

text \<open>The reply could not be made: the upload is cancelled.\<close>

definition cancel_prepared ::
  "router \<Rightarrow> router_request \<Rightarrow> string \<Rightarrow> router_response \<Rightarrow> os \<Rightarrow> (router_response \<times> router \<times> os) option" where
  "cancel_prepared r request upload_id rs s =
     (case upload_cancel (rt_uploads r) upload_id (rq_client_address request) (request_authorization r request) s of
        None \<Rightarrow> None
      | Some (_, m, s) \<Rightarrow>
          Some (set_json_error rs 500 ''internal_error'' ''Unable to create response'', r\<lparr>rt_uploads := m\<rparr>, s))"

definition dispatch_upload_prepare ::
  "environment \<Rightarrow> router \<Rightarrow> router_request \<Rightarrow> router_response \<Rightarrow> os \<Rightarrow> (router_response \<times> router \<times> os) option" where
  "dispatch_upload_prepare env r request rs s =
     (if rq_method request \<noteq> ''POST'' then Some (only_post rs, r, s)
      else if \<not> same_origin request then Some (origin_forbidden rs, r, s)
      else case authorized r request s of
          (False, r, s) \<Rightarrow> Some (unauthorized rs, r, s)
        | (True, r, s) \<Rightarrow>
            (if ROUTER_MAX_METADATA_BODY_BYTES < rq_body_size request
             then Some (set_json_error rs 413 ''body_too_large'' ''Upload metadata is too large'', r, s)
             else if \<not> is_json_content_type (rq_content_type request) then Some (only_json rs, r, s)
             else case upload_prepare (ev_build env) (rt_uploads r) (rq_client_address request)
                         (request_authorization r request) (request_body request) s of
                 (result, prepared, m, s) \<Rightarrow>
                   (let r = r\<lparr>rt_uploads := m\<rparr>
                    in if result \<noteq> UPLOAD_OK then Some (set_upload_error env rs result (os_errno s), r, s)
                       else let p = the prepared
                            in case json_escape_string (pr_final_name p) RESPONSE_STORAGE_BYTES of
                                None \<Rightarrow> cancel_prepared r request (pr_upload_id p) rs s
                              | Some escaped_name \<Rightarrow>
                                  (let content = prepared_text escaped_name p (rt_fast_upload_port r)
                                   in if RESPONSE_STORAGE_BYTES \<le> length content
                                      then cancel_prepared r request (pr_upload_id p) rs s
                                      else Some (json_response rs 201 content, r, s)))))"

definition cancelled_text :: string where
  \<open>cancelled_text = ''{"cancelled":true}'' @ [CHR 0x0A]\<close>

definition dispatch_upload_delete ::
  "environment \<Rightarrow> router \<Rightarrow> router_request \<Rightarrow> router_response \<Rightarrow> string \<Rightarrow> os \<Rightarrow>
   (router_response \<times> router \<times> os) option" where
  "dispatch_upload_delete env r request rs upload_id s =
     (if rq_method request \<noteq> ''DELETE''
      then Some (method_not_allowed rs ''Only PUT and DELETE are allowed for this resource'' ''PUT, DELETE'', r, s)
      else if rq_body_size request \<noteq> 0 then Some (no_body rs, r, s)
      else if \<not> same_origin request then Some (origin_forbidden rs, r, s)
      else case authorized r request s of
          (False, r, s) \<Rightarrow> Some (unauthorized rs, r, s)
        | (True, r, s) \<Rightarrow>
            (case upload_cancel (rt_uploads r) upload_id (rq_client_address request) (request_authorization r request) s of
               None \<Rightarrow> None
             | Some (result, m, s) \<Rightarrow>
                 (let r = r\<lparr>rt_uploads := m\<rparr>
                  in if result \<noteq> UPLOAD_OK then Some (set_upload_error env rs result (os_errno s), r, s)
                     else Some (json_response rs 200 cancelled_text, r, s))))"

definition dispatch_upload_complete ::
  "environment \<Rightarrow> router \<Rightarrow> router_request \<Rightarrow> router_response \<Rightarrow> string \<Rightarrow> os \<Rightarrow>
   (router_response \<times> router \<times> os) option" where
  "dispatch_upload_complete env r request rs upload_id s =
     (if rq_method request \<noteq> ''POST'' then Some (only_post rs, r, s)
      else if rq_body_size request \<noteq> 0 then Some (no_body rs, r, s)
      else if \<not> same_origin request then Some (origin_forbidden rs, r, s)
      else case authorized r request s of
          (False, r, s) \<Rightarrow> Some (unauthorized rs, r, s)
        | (True, r, s) \<Rightarrow>
            (case upload_finish_chunks_with_metrics (ev_build env) (rt_uploads r) upload_id
                    (rq_client_address request) (request_authorization r request) s of
               None \<Rightarrow> None
             | Some (result, digest, m, s) \<Rightarrow>
                 (let r = r\<lparr>rt_uploads := m\<rparr>
                  in if result \<noteq> UPLOAD_OK then Some (set_upload_error env rs result (os_errno s), r, s)
                     else Some (set_upload_completed_response rs digest (mg_last_metrics m), r, s))))"

section \<open>The storage route\<close>

definition set_storage_error :: "router_response \<Rightarrow> upload_result \<Rightarrow> router_response" where
  "set_storage_error rs result =
     (if result = UPLOAD_BUSY
      then set_json_error rs 409 ''storage_busy'' ''Finish or cancel the active upload before changing storage''
      else if result = UPLOAD_STORAGE_FULL
      then set_json_error rs 507 ''storage_unavailable'' ''The selected storage does not have enough space''
      else set_json_error rs 503 ''storage_unavailable'' ''The selected storage is not mounted or cannot be created'')"

definition storage_path_for_target :: "app_config \<Rightarrow> string \<Rightarrow> string option" where
  "storage_path_for_target config target = map_option st_path (storage_by_id config target)"

definition storage_target_for_path :: "app_config \<Rightarrow> string \<Rightarrow> string" where
  "storage_target_for_path config path =
     (case storage_by_path config path of
        Some entry \<Rightarrow> st_id entry
      | None \<Rightarrow> (if storage_targets config \<noteq> [] then st_id (hd (storage_targets config)) else ''internal''))"

definition storage_text :: "string \<Rightarrow> string \<Rightarrow> string" where
  \<open>storage_text target path = ''{"target":"'' @ target @ ''","path":"'' @ path @ ''"}'' @ [CHR 0x0A]\<close>

text \<open>From the known target on: the manager's directory, the file, the settings in memory.\<close>

definition change_storage ::
  "environment \<Rightarrow> router \<Rightarrow> string \<Rightarrow> string \<Rightarrow> router_response \<Rightarrow> os \<Rightarrow> router_response \<times> router \<times> os" where
  "change_storage env r target path rs s =
     (case upload_manager_set_destination (ev_build env) (ev_upload_dir env) (rt_uploads r) path s of
        (result, m, s) \<Rightarrow>
          (let previous = destination (rt_config r); r = r\<lparr>rt_uploads := m\<rparr>
           in if result \<noteq> UPLOAD_OK then (set_storage_error rs result, r, s)
              else let next_config = (rt_config r)\<lparr>destination := path\<rparr>
                   in case config_save_file (rt_config_path r) next_config s of
                       (False, s) \<Rightarrow>
                         (case upload_manager_set_destination (ev_build env) (ev_upload_dir env) (rt_uploads r) previous s of
                            (_, m, s) \<Rightarrow>
                              (set_json_error rs 500 ''storage_config_error'' ''Unable to persist the storage setting'',
                               r\<lparr>rt_uploads := m\<rparr>, s))
                     | (True, s) \<Rightarrow> (reply rs 200 (storage_text target path), r\<lparr>rt_config := next_config\<rparr>, s)))"

definition dispatch_storage ::
  "environment \<Rightarrow> router \<Rightarrow> router_request \<Rightarrow> router_response \<Rightarrow> os \<Rightarrow> router_response \<times> router \<times> os" where
  "dispatch_storage env r request rs s =
     (if rq_method request \<noteq> ''POST'' then (only_post rs, r, s)
      else if \<not> same_origin request then (origin_forbidden rs, r, s)
      else case authorized r request s of
          (False, r, s) \<Rightarrow> (unauthorized rs, r, s)
        | (True, r, s) \<Rightarrow>
            (if ROUTER_MAX_METADATA_BODY_BYTES < rq_body_size request
             then (set_json_error rs 413 ''body_too_large'' ''Storage settings are too large'', r, s)
             else if \<not> is_json_content_type (rq_content_type request) then (only_json rs, r, s)
             else case parse_storage_target (request_body request) of
                 None \<Rightarrow> (set_json_error rs 400 ''invalid_storage'' ''Expected a configured storage target ID'', r, s)
               | Some target \<Rightarrow>
                   (case storage_path_for_target (rt_config r) target of
                      None \<Rightarrow> (set_json_error rs 400 ''invalid_storage'' ''Unknown configured storage target'', r, s)
                    | Some path \<Rightarrow> change_storage env r target path rs s)))"

section \<open>The authentication routes\<close>

definition notification_text :: "string \<Rightarrow> string \<Rightarrow> string" where
  "notification_text pin client_address = ''PS5 LocalSend PIN '' @ pin @ '' for '' @ client_address"

definition challenge_text :: "auth_challenge_result \<Rightarrow> string" where
  \<open>challenge_text c =
     ''{"challengeId":"'' @ cr_challenge_id c @ ''","expiresIn":'' @ dec_string (unat (cr_expires_in_seconds c)) @ ''}'' @
     [CHR 0x0A]\<close>

definition dispatch_challenge ::
  "environment \<Rightarrow> router \<Rightarrow> router_request \<Rightarrow> router_response \<Rightarrow> os \<Rightarrow> router_response \<times> router \<times> os" where
  "dispatch_challenge env r request rs s =
     (if \<not> pin_auth_enabled r
      then (set_json_error rs 409 ''auth_disabled'' ''PIN authentication is disabled by configuration'', r, s)
      else if rq_method request \<noteq> ''POST'' then (only_post rs, r, s)
      else if rq_body_size request \<noteq> 0 then (no_body rs, r, s)
      else if \<not> same_origin request then (origin_forbidden rs, r, s)
      else case auth_create_challenge (rt_auth r) (Some (rq_client_address request)) s of
          (result, challenge, a, s) \<Rightarrow>
            (let r = r\<lparr>rt_auth := a\<rparr>
             in if result = AUTH_CAPACITY
                then (set_json_error rs 429 ''too_many_challenges'' ''Too many authentication challenges are active'', r, s)
                else if result = AUTH_RATE_LIMITED
                then (set_json_error rs 429 ''challenge_rate_limited'' ''Wait before requesting another PIN'', r, s)
                else if result \<noteq> AUTH_OK
                then (set_json_error rs 500 ''auth_unavailable'' ''Unable to create an authentication challenge'', r, s)
                else let c = the challenge; notification = notification_text (cr_pin c) (rq_client_address request)
                     in case (if 192 \<le> length notification then (False, s)
                              else platform_notify (ev_build env) notification s) of
                         (False, s) \<Rightarrow>
                           (set_json_error rs 500 ''notification_failed'' ''Unable to show the PIN on PS5'', r, s)
                       | (True, s) \<Rightarrow> (reply rs 201 (challenge_text c), r, s)))"

definition session_text :: "auth_session_result \<Rightarrow> string" where
  \<open>session_text x =
     ''{"token":"'' @ sr_token x @ ''","tokenType":"Bearer","expiresIn":'' @ dec_string (unat (sr_expires_in_seconds x)) @
     ''}'' @ [CHR 0x0A]\<close>

definition dispatch_verify ::
  "router \<Rightarrow> router_request \<Rightarrow> router_response \<Rightarrow> os \<Rightarrow> router_response \<times> router \<times> os" where
  "dispatch_verify r request rs s =
     (if \<not> pin_auth_enabled r
      then (set_json_error rs 409 ''auth_disabled'' ''PIN authentication is disabled by configuration'', r, s)
      else if rq_method request \<noteq> ''POST'' then (only_post rs, r, s)
      else if ROUTER_MAX_AUTH_BODY_BYTES < rq_body_size request
      then (set_json_error rs 413 ''body_too_large'' ''Authentication JSON is too large'', r, s)
      else if \<not> same_origin request then (origin_forbidden rs, r, s)
      else if \<not> is_json_content_type (rq_content_type request) then (only_json rs, r, s)
      else case auth_parse_verify_json (request_body request) of
          None \<Rightarrow> (set_json_error rs 400 ''invalid_json'' ''Expected exactly challengeId and a six-digit pin'', r, s)
        | Some (challenge_id, pin) \<Rightarrow>
            (case auth_verify_challenge (rt_auth r) (Some (rq_client_address request)) (Some challenge_id) (Some pin) s of
               (result, session, a, s) \<Rightarrow>
                 (let r = r\<lparr>rt_auth := a\<rparr>
                  in if result = AUTH_RATE_LIMITED
                     then (set_json_error rs 429 ''too_many_attempts'' ''This challenge has reached its attempt limit'', r, s)
                     else if result = AUTH_EXPIRED
                     then (set_json_error rs 401 ''challenge_expired'' ''This authentication challenge has expired'', r, s)
                     else if result = AUTH_USED
                     then (set_json_error rs 401 ''challenge_used'' ''This authentication challenge was already used'', r, s)
                     else if result \<noteq> AUTH_OK
                     then (set_json_error rs 401 ''invalid_credentials'' ''The challenge or PIN is invalid'', r, s)
                     else (reply rs 200 (session_text (the session)), r, s))))"

section \<open>Creating and destroying the router\<close>

text \<open>A new manager has no upload, so that destroying it again does not wait.\<close>

definition router_init :: "environment \<Rightarrow> app_config \<Rightarrow> os \<Rightarrow> router option \<times> os" where
  "router_init env config s =
     (let directory = platform_data_dir (ev_build env) (ev_data_dir env); path = directory @ ''/config.ini''
      in if CONFIG_DESTINATION_CAPACITY \<le> length path then (None, s)
         else case (auth_manager_create (cfg_pin_ttl_seconds config) (cfg_session_ttl_seconds config),
                    upload_manager_create (ev_build env) (ev_upload_dir env) directory (ev_lease env) config s) of
             (Some a, Some m, s) \<Rightarrow>
               (Some \<lparr>rt_config = config, rt_auth_mode = auth_mode config, rt_fast_upload_port = 0,
                      rt_config_path = path, rt_auth = a, rt_uploads = m\<rparr>, s)
           | (None, Some m, s) \<Rightarrow> (None, case upload_manager_destroy m s of None \<Rightarrow> s | Some s \<Rightarrow> s)
           | (_, None, s) \<Rightarrow> (None, s))"

text \<open>What remains is the system; the memory is cleared.  \<open>None\<close> while an upload is being written or finished.\<close>

definition router_destroy :: "router \<Rightarrow> os \<Rightarrow> os option" where
  "router_destroy r s = upload_manager_destroy (rt_uploads r) s"

definition router_set_port :: "router \<Rightarrow> u16 \<Rightarrow> router" where
  "router_set_port r p = r\<lparr>rt_config := (rt_config r)\<lparr>port := p\<rparr>\<rparr>"

definition router_set_fast_upload_port :: "router \<Rightarrow> u16 \<Rightarrow> router" where
  "router_set_fast_upload_port r p = r\<lparr>rt_fast_upload_port := p\<rparr>"

section \<open>The status\<close>

definition target_json :: "bool \<Rightarrow> config_storage_target \<Rightarrow> string" where
  \<open>target_json first t =
     (if first then [] else '','') @ ''{"id":"'' @ st_id t @ ''","label":"'' @ st_label t @ ''","path":"'' @ st_path t @ ''"}''\<close>

text \<open>The loop over the targets into a buffer of fixed size, and the closing bracket.\<close>

fun append_targets :: "string \<Rightarrow> bool \<Rightarrow> config_storage_target list \<Rightarrow> string option" where
  "append_targets used first [] = (if STATUS_TARGETS_BYTES < length used + 2 then None else Some (used @ '']''))"
| "append_targets used first (t # ts) =
     (if STATUS_TARGETS_BYTES - length used \<le> length (target_json first t) then None
      else append_targets (used @ target_json first t) False ts)"

definition storage_targets_text :: "app_config \<Rightarrow> string option" where
  "storage_targets_text config = append_targets ''['' True (storage_targets config)"

definition transfer_state :: "upload_snapshot \<Rightarrow> string" where
  "transfer_state sn = (if \<not> sn_active sn then ''idle'' else if \<not> sn_started sn then ''preparing'' else ''receiving'')"

definition last_upload_text :: "upload_snapshot \<Rightarrow> string option" where
  \<open>last_upload_text sn =
     (if sn_has_last_metrics sn
      then (let content = ''{"bytes":'' @ u64_text (sn_last_completed_size sn) @ '','' @ timing_text (sn_last_metrics sn)
            in if 256 \<le> length content then None else Some content)
      else Some ''null'')\<close>

definition status_json :: "app_config \<Rightarrow> u16 \<Rightarrow> upload_snapshot \<Rightarrow> string \<Rightarrow> string \<Rightarrow> string \<Rightarrow> string" where
  \<open>status_json config fast_port sn escaped_name targets last_upload =
     ''{"version":"1.0","authMode":"'' @ auth_mode_name (auth_mode config) @
     ''","language":"'' @ language_name (language config) @
     ''","ready":true,"limits":{"maxFileBytes":'' @ u64_text (max_file_bytes config) @
     '',"maxFilesPerSession":'' @ dec_string (unat (max_files_per_session config)) @
     ''},"transfer":{"state":"'' @ transfer_state sn @
     ''","active":'' @ bool_text (sn_active sn) @ '',"name":"'' @ escaped_name @
     ''","receivedBytes":'' @ u64_text (sn_received sn) @ '',"expectedBytes":'' @ u64_text (sn_expected sn) @
     ''},"capabilities":{"chunkUpload":true,"chunkSize":'' @ u64_text UPLOAD_CHUNK_BYTES @
     '',"chunkParallelism":'' @ dec_string UPLOAD_CHUNK_PARALLELISM @
     '',"fastUploadPort":'' @ dec_string (unat fast_port) @
     '',"fastUploadMode":"direct"},"storage":{"target":"'' @ storage_target_for_path config (destination config) @
     ''","path":"'' @ destination config @ ''","targets":'' @ targets @ ''},"lastUpload":'' @ last_upload @
     ''}'' @ [CHR 0x0A]\<close>

definition dispatch_status :: "router \<Rightarrow> router_response \<Rightarrow> os \<Rightarrow> router_response \<times> router \<times> os" where
  "dispatch_status r rs s =
     (case storage_targets_text (rt_config r) of
        None \<Rightarrow> (set_json_error rs 500 ''internal_error'' ''Configured storage list is too large'', r, s)
      | Some targets \<Rightarrow>
          (case upload_snapshot_of (rt_uploads r) s of
             (sn, m, s) \<Rightarrow>
               (let r = r\<lparr>rt_uploads := m\<rparr>
                in case json_escape_filename (sn_name sn) (SAFE_PATH_NAME_BYTES * 2 + 1) of
                    None \<Rightarrow> (set_json_error rs 500 ''internal_error'' ''Unable to read transfer status'', r, s)
                  | Some escaped_name \<Rightarrow>
                      (case last_upload_text sn of
                         None \<Rightarrow> (set_json_error rs 500 ''internal_error'' ''Unable to create transfer diagnostics'', r, s)
                       | Some last_upload \<Rightarrow>
                           (reply rs 200 (status_json (rt_config r) (rt_fast_upload_port r) sn escaped_name targets last_upload),
                            r, s)))))"

section \<open>Dispatch\<close>

definition dispatch_asset :: "embedded_asset \<Rightarrow> string \<Rightarrow> router_response \<Rightarrow> router_response" where
  "dispatch_asset asset path rs =
     rs\<lparr>rs_status := 200, rs_content_type := Some (as_content_type asset),
        rs_cache_control := Some (if path = ''/'' then ''no-cache''
          else if path = ''/assets/app.css'' \<or> path = ''/assets/app.js'' then ''no-store'' else ''public, max-age=3600''),
        rs_body := as_data asset\<rparr>"

definition router_dispatch ::
  "environment \<Rightarrow> router \<Rightarrow> router_request \<Rightarrow> os \<Rightarrow> (router_response \<times> router \<times> os) option" where
  "router_dispatch env r request s =
     (let rs = no_response; path = rq_path request
      in if ROUTER_MAX_METHOD_BYTES < length (rq_method request) \<or> ROUTER_MAX_PATH_BYTES < length path
         then Some (set_json_error rs 400 ''bad_request'' ''Malformed request'', r, s)
         else if path = ''/api/v1/auth/challenge'' then Some (dispatch_challenge env r request rs s)
         else if path = ''/api/v1/auth/verify'' then Some (dispatch_verify r request rs s)
         else if path = ''/api/v1/uploads'' then dispatch_upload_prepare env r request rs s
         else if path = ''/api/v1/storage'' then Some (dispatch_storage env r request rs s)
         else case upload_complete_from_path path of
             Some upload_id \<Rightarrow> dispatch_upload_complete env r request rs upload_id s
           | None \<Rightarrow>
               (case upload_id_from_path path of
                  Some upload_id \<Rightarrow>
                    (if rq_method request = ''PUT''
                     then Some (set_json_error rs 400 ''stream_required'' ''PUT must use the streaming transport'', r, s)
                     else dispatch_upload_delete env r request rs upload_id s)
                | None \<Rightarrow>
                    (let asset = ev_asset env path; known = (asset \<noteq> None \<or> path = ''/api/v1/status'')
                     in if known \<and> rq_method request \<noteq> ''GET''
                        then Some (method_not_allowed rs ''Only GET is allowed for this resource'' ''GET'', r, s)
                        else if known \<and> 0 < rq_body_size request then Some (no_body rs, r, s)
                        else case asset of
                            Some a \<Rightarrow> Some (dispatch_asset a path rs, r, s)
                          | None \<Rightarrow>
                              (if path = ''/api/v1/status'' then Some (dispatch_status r rs s)
                               else Some (set_json_error rs 404 ''not_found'' ''Resource not found'', r, s)))))"

section \<open>Streams\<close>

text \<open>What a stream begins: a whole body, or a chunk with its offset and size.\<close>

datatype stream_start = Whole_body string | Body_chunk string u64 u64

type_synonym 'a stream_result = "((router_response + 'a) \<times> router \<times> os) option"

text \<open>A failed beginning that gives the upload up.\<close>

definition cancel_stream ::
  "router \<Rightarrow> router_request \<Rightarrow> string \<Rightarrow> (os \<Rightarrow> router_response) \<Rightarrow> os \<Rightarrow> stream_start stream_result" where
  "cancel_stream r request upload_id failure s =
     (case upload_cancel (rt_uploads r) upload_id (rq_client_address request) (request_authorization r request) s of
        None \<Rightarrow> None
      | Some (_, m, s) \<Rightarrow> Some (Inl (failure s), r\<lparr>rt_uploads := m\<rparr>, s))"

definition begin_chunk ::
  "environment \<Rightarrow> router \<Rightarrow> router_request \<Rightarrow> u64 option \<Rightarrow> string \<Rightarrow> u64 \<times> u64 \<times> u64 \<Rightarrow> os \<Rightarrow> stream_start stream_result" where
  "begin_chunk env r request content_length upload_id extent s =
     (case extent of
        (range_offset, range_length, range_total) \<Rightarrow>
          (if (case content_length of None \<Rightarrow> range_length | Some n \<Rightarrow> n) \<noteq> range_length
           then Some (Inl (set_json_error no_response 400 ''size_mismatch'' ''Content-Length does not match Content-Range''), r, s)
           else case upload_chunk_begin (rt_uploads r) upload_id (rq_client_address request) (request_authorization r request)
                       range_total range_offset range_length s of
               (result, m, s) \<Rightarrow>
                 (let r = r\<lparr>rt_uploads := m\<rparr>
                  in if result = UPLOAD_OK then Some (Inr (Body_chunk upload_id range_offset range_length), r, s)
                     else Some (Inl (set_upload_error env no_response result (os_errno s)), r, s))))"

definition begin_whole ::
  "environment \<Rightarrow> router \<Rightarrow> router_request \<Rightarrow> u64 option \<Rightarrow> string \<Rightarrow> os \<Rightarrow> stream_start stream_result" where
  "begin_whole env r request content_length upload_id s =
     (case content_length of
        None \<Rightarrow>
          cancel_stream r request upload_id
            (\<lambda>s. set_json_error no_response 411 ''length_required'' ''Content-Length is required'') s
      | Some amount \<Rightarrow>
          (case upload_begin (rt_uploads r) upload_id (rq_client_address request) (request_authorization r request) amount s of
             (result, m, s) \<Rightarrow>
               (let r = r\<lparr>rt_uploads := m\<rparr>
                in if result = UPLOAD_OK then Some (Inr (Whole_body upload_id), r, s)
                   else if result = UPLOAD_SIZE_MISMATCH
                   then cancel_stream r request upload_id (\<lambda>s. set_upload_error env no_response result (os_errno s)) s
                   else Some (Inl (set_upload_error env no_response result (os_errno s)), r, s))))"

definition router_upload_stream_begin_ex ::
  "environment \<Rightarrow> router \<Rightarrow> router_request \<Rightarrow> u64 option \<Rightarrow> os \<Rightarrow> stream_start stream_result" where
  "router_upload_stream_begin_ex env r request content_length s =
     (case (if rq_method request = ''PUT'' then upload_id_from_path (rq_path request) else None) of
        None \<Rightarrow> Some (Inl (set_json_error no_response 404 ''upload_not_found'' ''Upload does not exist''), r, s)
      | Some upload_id \<Rightarrow>
          (if \<not> same_origin request then Some (Inl (origin_forbidden no_response), r, s)
           else case authorized r request s of
               (False, r, s) \<Rightarrow> Some (Inl (unauthorized no_response), r, s)
             | (True, r, s) \<Rightarrow>
                 (if rq_content_type request \<noteq> Some ''application/octet-stream''
                  then Some (Inl (set_json_error no_response 415 ''unsupported_media_type''
                                    ''Content-Type must be application/octet-stream''), r, s)
                  else if rq_content_range request \<noteq> None \<and> rq_content_range request \<noteq> Some []
                  then (case parse_content_range (rq_content_range request) of
                          None \<Rightarrow> Some (Inl (set_json_error no_response 400 ''invalid_range''
                                              ''Content-Range must be bytes start-end/total''), r, s)
                        | Some extent \<Rightarrow> begin_chunk env r request content_length upload_id extent s)
                  else begin_whole env r request content_length upload_id s)))"

text \<open>
  With null pointers for the chunk's results: the caller learns the identifier, and of a chunk that it
  began only that.
\<close>

definition router_upload_stream_begin ::
  "environment \<Rightarrow> router \<Rightarrow> router_request \<Rightarrow> u64 option \<Rightarrow> os \<Rightarrow> string stream_result" where
  "router_upload_stream_begin env r request content_length s =
     map_option (\<lambda>(result, r, s). (map_sum id (\<lambda>b. case b of Whole_body i \<Rightarrow> i | Body_chunk i _ _ \<Rightarrow> i) result, r, s))
       (router_upload_stream_begin_ex env r request content_length s)"

text \<open>The end of a step: nothing more on success, or the error and the upload aborted.\<close>

definition or_abort ::
  "environment \<Rightarrow> router \<Rightarrow> string \<Rightarrow> upload_result \<times> upload_manager \<times> os \<Rightarrow> unit stream_result" where
  "or_abort env r upload_id outcome =
     (case outcome of
        (result, m, s) \<Rightarrow>
          (if result = UPLOAD_OK then Some (Inr (), r\<lparr>rt_uploads := m\<rparr>, s)
           else case upload_abort m upload_id s of
               None \<Rightarrow> None
             | Some (m, t) \<Rightarrow> Some (Inl (set_upload_error env no_response result (os_errno s)), r\<lparr>rt_uploads := m\<rparr>, t)))"

definition router_upload_stream_write ::
  "environment \<Rightarrow> router \<Rightarrow> string \<Rightarrow> byte list \<Rightarrow> os \<Rightarrow> unit stream_result" where
  "router_upload_stream_write env r upload_id data s =
     (case upload_write (rt_uploads r) upload_id data s of None \<Rightarrow> None | Some outcome \<Rightarrow> or_abort env r upload_id outcome)"

definition router_upload_stream_enable_direct ::
  "environment \<Rightarrow> router \<Rightarrow> string \<Rightarrow> os \<Rightarrow> unit stream_result" where
  "router_upload_stream_enable_direct env r upload_id s =
     (case upload_enable_direct_stream (rt_uploads r) upload_id of (result, m) \<Rightarrow> or_abort env r upload_id (result, m, s))"

definition router_upload_stream_write_direct ::
  "environment \<Rightarrow> router \<Rightarrow> string \<Rightarrow> byte list \<Rightarrow> os \<Rightarrow> unit stream_result" where
  "router_upload_stream_write_direct env r upload_id data s =
     or_abort env r upload_id (upload_write_direct (rt_uploads r) upload_id data s)"

definition router_upload_stream_finish ::
  "environment \<Rightarrow> router \<Rightarrow> string \<Rightarrow> os \<Rightarrow> (router_response \<times> router \<times> os) option" where
  "router_upload_stream_finish env r upload_id s =
     (case upload_finish_with_metrics (ev_build env) (rt_uploads r) upload_id s of
        None \<Rightarrow> None
      | Some (result, digest, m, s) \<Rightarrow>
          (let r = r\<lparr>rt_uploads := m\<rparr>
           in if result \<noteq> UPLOAD_OK then Some (set_upload_error env no_response result (os_errno s), r, s)
              else Some (set_upload_completed_response no_response digest (mg_last_metrics m), r, s)))"

definition router_upload_stream_write_chunk ::
  "environment \<Rightarrow> router \<Rightarrow> string \<Rightarrow> u64 \<Rightarrow> byte list \<Rightarrow> os \<Rightarrow> unit stream_result" where
  "router_upload_stream_write_chunk env r upload_id offset data s =
     or_abort env r upload_id (upload_chunk_write (rt_uploads r) upload_id offset data s)"

definition chunk_text :: "u64 \<Rightarrow> u64 \<Rightarrow> string" where
  \<open>chunk_text offset amount =
     ''{"chunk":true,"offset":'' @ u64_text offset @ '',"size":'' @ u64_text amount @ ''}'' @ [CHR 0x0A]\<close>

text \<open>Whether it succeeded, and the response in either case.\<close>

definition router_upload_stream_finish_chunk ::
  "environment \<Rightarrow> router \<Rightarrow> string \<Rightarrow> u64 \<Rightarrow> u64 \<Rightarrow> os \<Rightarrow> bool \<times> router_response \<times> router \<times> os" where
  "router_upload_stream_finish_chunk env r upload_id offset amount s =
     (case upload_chunk_finish (rt_uploads r) upload_id offset amount s of
        (result, m, s) \<Rightarrow>
          (let r = r\<lparr>rt_uploads := m\<rparr>
           in if result \<noteq> UPLOAD_OK then (False, set_upload_error env no_response result (os_errno s), r, s)
              else (length (chunk_text offset amount) < RESPONSE_STORAGE_BYTES,
                    reply no_response 201 (chunk_text offset amount), r, s)))"

definition router_upload_stream_abort_chunk :: "router \<Rightarrow> string \<Rightarrow> u64 \<Rightarrow> os \<Rightarrow> router \<times> os" where
  "router_upload_stream_abort_chunk r upload_id offset s =
     (case upload_chunk_abort (rt_uploads r) upload_id offset s of (m, s) \<Rightarrow> (r\<lparr>rt_uploads := m\<rparr>, s))"

definition router_upload_stream_abort :: "router \<Rightarrow> string \<Rightarrow> os \<Rightarrow> (router \<times> os) option" where
  "router_upload_stream_abort r upload_id s =
     (case upload_abort (rt_uploads r) upload_id s of None \<Rightarrow> None | Some (m, s) \<Rightarrow> Some (r\<lparr>rt_uploads := m\<rparr>, s))"

end
