(* ===== verification/Server.thy ===== *)
theory Server
  imports Router
begin

text \<open>
  \<^verbatim>\<open>src/src/server.c\<close>: the functions that libmicrohttpd calls.  It calls \<open>handle_request\<close> once when the
  header of a request has arrived, once for each piece of its body, and once more at its end; and
  \<open>request_completed\<close> when the request is over in whatever way.  The library itself is a parameter: what it
  says of a connection is the record \<open>http_connection\<close>, and each call of it that can fail is a field.
\<close>

section \<open>Data\<close>

text \<open>
  The first \<open>body_size\<close> bytes of the buffer are \<open>qs_body\<close>.  The flag of a chunk and its three numbers are
  meaningful while the stream has begun.
\<close>

record request_state =
  qs_body :: "byte list"
  qs_body_limit :: nat
  qs_body_too_large :: bool
  qs_streaming :: bool
  qs_stream_started :: bool
  qs_stream_finished :: bool
  qs_stream_failed :: bool
  qs_stream_chunk :: bool
  qs_chunk_offset :: u64
  qs_chunk_size :: u64
  qs_chunk_received :: u64
  qs_upload_id :: string
  qs_stream_error :: router_response

definition no_state :: request_state where
  "no_state = \<lparr>qs_body = [], qs_body_limit = 0, qs_body_too_large = False, qs_streaming = False, qs_stream_started = False,
     qs_stream_finished = False, qs_stream_failed = False, qs_stream_chunk = False, qs_chunk_offset = 0, qs_chunk_size = 0,
     qs_chunk_received = 0, qs_upload_id = [], qs_stream_error = no_response\<rparr>"

record http_reply =
  hr_status :: nat
  hr_headers :: "(string \<times> string) list"
  hr_body :: "byte list"

text \<open>
  The address of the client as family and text, if there is one; the value of a header, by the name that
  the code looks up; and whether the library has the memory for a reply.
\<close>

record http_connection =
  hc_address :: "(address_family \<times> string) option"
  hc_header :: "string \<Rightarrow> string option"
  hc_takes :: "http_reply \<Rightarrow> bool"

text \<open>What a call returns: refusal, which closes the connection, consent, or consent with a reply queued.\<close>

datatype mhd_answer = MHD_NO | MHD_YES | Queued http_reply

section \<open>Replies\<close>

definition content_security_policy :: string where
  \<open>content_security_policy =
     ''default-src 'self'; base-uri 'none'; form-action 'self'; connect-src 'self' http://*:*; img-src 'self'; '' @
     ''style-src 'self'; script-src 'self'' @ [CHR 0x27]\<close>

definition policy_headers :: "(string \<times> string) list" where
  "policy_headers =
     [(''Content-Security-Policy'', content_security_policy), (''X-Content-Type-Options'', ''nosniff''),
      (''Referrer-Policy'', ''no-referrer''), (''X-Frame-Options'', ''DENY''),
      (''Permissions-Policy'', ''camera=(), microphone=(), geolocation=()'')]"

text \<open>The library refuses a header without a value.\<close>

definition queue_router_response :: "http_connection \<Rightarrow> router_response \<Rightarrow> mhd_answer" where
  "queue_router_response c routed =
     (case (rs_content_type routed, rs_cache_control routed) of
        (Some content_type, Some cache_control) \<Rightarrow>
          (let reply = \<lparr>hr_status = rs_status routed,
                 hr_headers = [(''Content-Type'', content_type), (''Cache-Control'', cache_control)] @ policy_headers @
                   (case rs_allow routed of None \<Rightarrow> [] | Some allow \<Rightarrow> [(''Allow'', allow)]),
                 hr_body = rs_body routed\<rparr>
           in if hc_takes c reply then Queued reply else MHD_NO)
      | _ \<Rightarrow> MHD_NO)"

section \<open>Reading the header\<close>

definition parse_content_length :: "string option \<Rightarrow> u64 option" where
  "parse_content_length content =
     (case content of
        None \<Rightarrow> None
      | Some t \<Rightarrow>
          (if t = [] \<or> hd t = CHR ''-'' \<or> hd t = CHR ''+'' then None
           else case strtoull t of
               (parsed, rest, range_error) \<Rightarrow> (if range_error \<or> rest = t \<or> rest \<noteq> [] then None else Some parsed)))"

definition body_limit_for_request :: "string \<Rightarrow> string \<Rightarrow> nat" where
  "body_limit_for_request method url =
     (if method = ''POST'' \<and> url = ''/api/v1/auth/verify'' then ROUTER_MAX_AUTH_BODY_BYTES
      else if method = ''POST'' \<and> url = ''/api/v1/uploads'' then ROUTER_MAX_METADATA_BODY_BYTES
      else if method = ''POST'' \<and> url = ''/api/v1/storage'' then ROUTER_MAX_METADATA_BODY_BYTES
      else 0)"

definition client_address :: "http_connection \<Rightarrow> string" where
  "client_address c =
     (case hc_address c of
        None \<Rightarrow> ''unknown''
      | Some (family, t) \<Rightarrow>
          (if family \<in> {AF_INET, AF_INET6} \<and> length t < AUTH_CLIENT_ADDRESS_BYTES then t else ''unknown''))"

text \<open>The request of a stream, which has no body of its own, and the one for the routes.\<close>

definition stream_request :: "http_connection \<Rightarrow> string \<Rightarrow> string \<Rightarrow> router_request" where
  "stream_request c url method =
     \<lparr>rq_method = method, rq_path = url, rq_body = None, rq_body_size = 0, rq_client_address = client_address c,
      rq_host = hc_header c ''Host'', rq_origin = hc_header c ''Origin'', rq_content_type = hc_header c ''Content-Type'',
      rq_authorization = hc_header c ''Authorization'', rq_content_range = hc_header c ''Content-Range''\<rparr>"

definition route_request :: "http_connection \<Rightarrow> string \<Rightarrow> string \<Rightarrow> request_state \<Rightarrow> router_request" where
  "route_request c url method st =
     \<lparr>rq_method = method, rq_path = url, rq_body = Some (qs_body st),
      rq_body_size = (if qs_body_too_large st then qs_body_limit st + 1 else length (qs_body st)),
      rq_client_address = client_address c, rq_host = hc_header c ''Host'', rq_origin = hc_header c ''Origin'',
      rq_content_type = hc_header c ''Content-Type'', rq_authorization = hc_header c ''Authorization'',
      rq_content_range = None\<rparr>"

section \<open>The calls of a request\<close>

type_synonym request_step = "(mhd_answer \<times> request_state option \<times> router \<times> os) option"

text \<open>The first call.\<close>

definition begin_stream ::
  "environment \<Rightarrow> http_connection \<Rightarrow> string \<Rightarrow> string \<Rightarrow> u64 option \<Rightarrow> request_state \<Rightarrow> router \<Rightarrow> os \<Rightarrow> request_step" where
  "begin_stream env c url method declared st r s =
     (case router_upload_stream_begin_ex env r (stream_request c url method) declared s of
        None \<Rightarrow> None
      | Some (Inl failure, r, s) \<Rightarrow>
          Some (queue_router_response c failure,
                Some (st\<lparr>qs_streaming := True, qs_stream_failed := True, qs_stream_error := failure\<rparr>), r, s)
      | Some (Inr (Whole_body i), r, s) \<Rightarrow>
          Some (MHD_YES, Some (st\<lparr>qs_streaming := True, qs_stream_started := True, qs_upload_id := i\<rparr>), r, s)
      | Some (Inr (Body_chunk i offset amount), r, s) \<Rightarrow>
          Some (MHD_YES, Some (st\<lparr>qs_streaming := True, qs_stream_started := True, qs_upload_id := i, qs_stream_chunk := True,
                                  qs_chunk_offset := offset, qs_chunk_size := amount\<rparr>), r, s))"

definition first_call ::
  "environment \<Rightarrow> http_connection \<Rightarrow> string \<Rightarrow> string \<Rightarrow> router \<Rightarrow> os \<Rightarrow> request_step" where
  "first_call env c url method r s =
     (case allocate s of
        (False, s) \<Rightarrow> Some (MHD_NO, None, r, s)
      | (True, s) \<Rightarrow>
          (let st = no_state\<lparr>qs_body_limit := body_limit_for_request method url\<rparr>;
               content_length = hc_header c ''Content-Length''; declared = parse_content_length content_length
           in if method = ''PUT'' \<and> take 16 url = ''/api/v1/uploads/'' then begin_stream env c url method declared st r s
              else if content_length \<noteq> None \<and>
                      (case declared of None \<Rightarrow> True | Some n \<Rightarrow> of_nat (qs_body_limit st) < n)
              then Some (MHD_YES, Some (st\<lparr>qs_body_too_large := True\<rparr>), r, s)
              else Some (MHD_YES, Some st, r, s)))"

text \<open>A piece of the body.\<close>

definition stream_piece ::
  "environment \<Rightarrow> byte list \<Rightarrow> request_state \<Rightarrow> router \<Rightarrow> os \<Rightarrow> request_step" where
  "stream_piece env data st r s =
     (if qs_stream_failed st then Some (MHD_YES, Some st, r, s)
      else case (if qs_stream_chunk st
                 then router_upload_stream_write_chunk env r (qs_upload_id st) (qs_chunk_offset st + qs_chunk_received st) data s
                 else router_upload_stream_write env r (qs_upload_id st) data s) of
          None \<Rightarrow> None
        | Some (Inl failure, r, s) \<Rightarrow>
            Some (MHD_NO, Some (st\<lparr>qs_stream_failed := True, qs_stream_error := failure\<rparr>), r, s)
        | Some (Inr _, r, s) \<Rightarrow>
            Some (MHD_YES, Some (if qs_stream_chunk st then st\<lparr>qs_chunk_received := qs_chunk_received st + of_nat (length data)\<rparr> else st),
                  r, s))"

definition body_piece :: "byte list \<Rightarrow> request_state \<Rightarrow> request_state" where
  "body_piece data st =
     (if \<not> qs_body_too_large st \<and> length data \<le> qs_body_limit st - length (qs_body st)
      then st\<lparr>qs_body := qs_body st @ data\<rparr>
      else st\<lparr>qs_body_too_large := True\<rparr>)"

text \<open>The end of a stream.\<close>

definition finish_stream :: "environment \<Rightarrow> http_connection \<Rightarrow> request_state \<Rightarrow> router \<Rightarrow> os \<Rightarrow> request_step" where
  "finish_stream env c st r s =
     (if qs_stream_failed st then Some (queue_router_response c (qs_stream_error st), Some st, r, s)
      else if qs_stream_chunk st
      then (case router_upload_stream_finish_chunk env r (qs_upload_id st) (qs_chunk_offset st) (qs_chunk_size st) s of
              (ok, routed, r, s) \<Rightarrow>
                Some (queue_router_response c routed, Some (st\<lparr>qs_stream_failed := \<not> ok, qs_stream_finished := True\<rparr>), r, s))
      else (case router_upload_stream_finish env r (qs_upload_id st) s of
              None \<Rightarrow> None
            | Some (routed, r, s) \<Rightarrow>
                Some (queue_router_response c routed, Some (st\<lparr>qs_stream_finished := True\<rparr>), r, s)))"

definition handle_request ::
  "environment \<Rightarrow> http_connection \<Rightarrow> string \<Rightarrow> string \<Rightarrow> byte list \<Rightarrow> request_state option \<Rightarrow> router \<Rightarrow> os \<Rightarrow> request_step" where
  "handle_request env c url method data state r s =
     (case state of
        None \<Rightarrow> first_call env c url method r s
      | Some st \<Rightarrow>
          (if data \<noteq> []
           then (if qs_streaming st then stream_piece env data st r s
                 else Some (MHD_YES, Some (body_piece data st), r, s))
           else if qs_streaming st then finish_stream env c st r s
           else case router_dispatch env r (route_request c url method st) s of
               None \<Rightarrow> None
             | Some (routed, r, s) \<Rightarrow> Some (queue_router_response c routed, Some st, r, s)))"

text \<open>The request is over.\<close>

definition request_completed :: "request_state option \<Rightarrow> router \<Rightarrow> os \<Rightarrow> (router \<times> os) option" where
  "request_completed state r s =
     (case state of
        None \<Rightarrow> Some (r, s)
      | Some st \<Rightarrow>
          (if qs_stream_started st \<and> \<not> qs_stream_finished st
           then (if qs_stream_chunk st then Some (router_upload_stream_abort_chunk r (qs_upload_id st) (qs_chunk_offset st) s)
                 else router_upload_stream_abort r (qs_upload_id st) s)
           else Some (r, s)))"

end
