(* ===== verification/FastServer.thy ===== *)
theory FastServer
  imports Server
begin

text \<open>
  \<^verbatim>\<open>src/src/fast_upload_server.c\<close>: the second listener, which takes the bodies of uploads over plain sockets.  This
  theory holds one connection, from its socket to the router: the reader of the header, the check of the origin
  and the stream.  The workers, the accepting thread and the start are in \<open>FastPool\<close>.
\<close>

section \<open>Sockets\<close>

definition FAST_UPLOAD_HEADER_BYTES :: nat where "FAST_UPLOAD_HEADER_BYTES = 16384"
definition FAST_UPLOAD_READ_BYTES :: nat where "FAST_UPLOAD_READ_BYTES = 1048576"

text \<open>
  What arrives on a connection, in the portions of the network, and what happens to each \<open>send\<close>.  \<open>Ended\<close> is a
  \<open>recv\<close> that returns no byte, because the peer has closed, the time is over, or of an error; so is the
  end of the list.  A portion that is longer than the buffer stays for the next call.  When the list of sends
  is over, every send takes all it is given.
\<close>

datatype received = Arrived "byte list" | Interrupted | Ended

datatype sent = Sent nat | Send_interrupted | Send_failed

record socket =
  sk_incoming :: "received list"
  sk_sends :: "sent list"
  sk_outgoing :: "byte list"
  sk_open :: bool

definition sock_recv :: "nat \<Rightarrow> socket \<Rightarrow> received \<times> socket" where
  "sock_recv capacity k =
     (case sk_incoming k of
        [] \<Rightarrow> (Ended, k)
      | Arrived [] # es \<Rightarrow> (Ended, k\<lparr>sk_incoming := es\<rparr>)
      | Arrived data # es \<Rightarrow>
          (if length data \<le> capacity then (Arrived data, k\<lparr>sk_incoming := es\<rparr>)
           else (Arrived (take capacity data), k\<lparr>sk_incoming := Arrived (drop capacity data) # es\<rparr>))
      | e # es \<Rightarrow> (e, k\<lparr>sk_incoming := es\<rparr>))"

text \<open>What the events still to come weigh; every \<open>recv\<close> that does not end the connection makes it less.\<close>

fun arrival_weight :: "received \<Rightarrow> nat" where
  "arrival_weight (Arrived data) = Suc (length data)"
| "arrival_weight _ = 1"

definition pending :: "socket \<Rightarrow> nat" where
  "pending k = sum_list (map arrival_weight (sk_incoming k))"

lemma sock_recv_pending:
  assumes "sock_recv capacity k = (e, k')" "0 < capacity" "e \<noteq> Ended"
  shows "pending k' < pending k"
  using assms by (auto simp: sock_recv_def pending_def split: list.splits received.splits if_splits)

fun send_all :: "socket \<Rightarrow> sent list \<Rightarrow> byte list \<Rightarrow> bool \<times> socket" where
  "send_all k events [] = (True, k\<lparr>sk_sends := events\<rparr>)"
| "send_all k [] data = (True, k\<lparr>sk_sends := [], sk_outgoing := sk_outgoing k @ data\<rparr>)"
| "send_all k (Send_interrupted # events) data = send_all k events data"
| "send_all k (Send_failed # events) data = (False, k\<lparr>sk_sends := events\<rparr>)"
| "send_all k (Sent count # events) data =
     (if count = 0 then (False, k\<lparr>sk_sends := events\<rparr>)
      else send_all (k\<lparr>sk_outgoing := sk_outgoing k @ take count data\<rparr>) events (drop count data))"

section \<open>Replies\<close>

definition status_text :: "nat \<Rightarrow> string" where
  "status_text status =
     (if status = 200 then ''OK''
      else if status = 201 then ''Created''
      else if status = 204 then ''No Content''
      else if status = 400 then ''Bad Request''
      else if status = 401 then ''Unauthorized''
      else if status = 403 then ''Forbidden''
      else if status = 404 then ''Not Found''
      else if status = 405 then ''Method Not Allowed''
      else if status = 408 then ''Request Timeout''
      else if status = 409 then ''Conflict''
      else if status = 413 then ''Content Too Large''
      else if status = 415 then ''Unsupported Media Type''
      else if status = 422 then ''Unprocessable Content''
      else if status = 429 then ''Too Many Requests''
      else if status = 500 then ''Internal Server Error''
      else if status = 507 then ''Insufficient Storage''
      else ''Error'')"

definition crlf :: string where "crlf = [CHR 0x0D, CHR 0x0A]"

definition response_header :: "router_response \<Rightarrow> string option \<Rightarrow> string" where
  "response_header response origin =
     ''HTTP/1.1 '' @ dec_string (rs_status response) @ '' '' @ status_text (rs_status response) @ crlf @
     ''Content-Length: '' @ dec_string (length (rs_body response)) @ crlf @
     ''Content-Type: '' @ (case rs_content_type response of None \<Rightarrow> ''application/json; charset=utf-8'' | Some t \<Rightarrow> t) @ crlf @
     ''Cache-Control: '' @ (case rs_cache_control response of None \<Rightarrow> ''no-store'' | Some t \<Rightarrow> t) @ crlf @
     ''Access-Control-Allow-Origin: '' @ (case origin of None \<Rightarrow> ''null'' | Some t \<Rightarrow> t) @ crlf @
     ''Vary: Origin'' @ crlf @
     ''X-Content-Type-Options: nosniff'' @ crlf @
     ''Connection: close'' @ crlf @ crlf"

definition send_response :: "socket \<Rightarrow> router_response \<Rightarrow> string option \<Rightarrow> bool \<times> socket" where
  "send_response k response origin =
     (let header = response_header response origin
      in if 2048 \<le> length header then (False, k)
         else case send_all k (sk_sends k) (map uchar header) of
             (False, k) \<Rightarrow> (False, k)
           | (True, k) \<Rightarrow> (if rs_body response = [] then (True, k) else send_all k (sk_sends k) (rs_body response)))"

definition send_simple_error :: "socket \<Rightarrow> nat \<Rightarrow> string \<Rightarrow> string \<Rightarrow> string option \<Rightarrow> bool \<times> socket" where
  "send_simple_error k status error_code message origin =
     (let body = error_text error_code message
      in if RESPONSE_STORAGE_BYTES \<le> length body then (False, k)
         else send_response k (json_response no_response status body) origin)"

definition preflight_text :: "string \<Rightarrow> string" where
  "preflight_text origin =
     ''HTTP/1.1 204 No Content'' @ crlf @
     ''Content-Length: 0'' @ crlf @
     ''Access-Control-Allow-Origin: '' @ origin @ crlf @
     ''Access-Control-Allow-Methods: PUT, OPTIONS'' @ crlf @
     ''Access-Control-Allow-Headers: Authorization, Content-Type, Content-Range'' @ crlf @
     ''Access-Control-Max-Age: 600'' @ crlf @
     ''Vary: Origin'' @ crlf @
     ''Connection: close'' @ crlf @ crlf"

definition send_preflight :: "socket \<Rightarrow> string \<Rightarrow> bool \<times> socket" where
  "send_preflight k origin =
     (if length (preflight_text origin) < 1024 then send_all k (sk_sends k) (map uchar (preflight_text origin)) else (False, k))"

section \<open>Reading the header\<close>

text \<open>
  The strings are the characters before their terminator; an absent header is the empty string.  The body begins at
  \<open>fq_body_offset\<close> of the buffer, which holds \<open>fq_buffered_bytes\<close> of it.
\<close>

record fast_request =
  fq_method :: string
  fq_path :: string
  fq_host :: string
  fq_origin :: string
  fq_authorization :: string
  fq_content_type :: string
  fq_content_range :: string
  fq_content_length :: u64
  fq_has_content_length :: bool
  fq_body_offset :: nat
  fq_buffered_bytes :: nat

definition no_request :: fast_request where
  "no_request = \<lparr>fq_method = [], fq_path = [], fq_host = [], fq_origin = [], fq_authorization = [], fq_content_type = [],
     fq_content_range = [], fq_content_length = 0, fq_has_content_length = False, fq_body_offset = 0, fq_buffered_bytes = 0\<rparr>"

text \<open>The function \<open>parse_u64\<close> of this file, without limits.\<close>

definition parse_length :: "string \<Rightarrow> u64 option" where
  "parse_length t =
     (if t = [] \<or> hd t = CHR ''-'' \<or> hd t = CHR ''+'' then None
      else case strtoull t of
          (parsed, rest, range_error) \<Rightarrow> (if range_error \<or> rest = t \<or> rest \<noteq> [] then None else Some parsed))"

text \<open>\<open>tolower\<close> and \<open>strcasecmp\<close> in the C locale.\<close>

definition to_lower :: "char \<Rightarrow> char" where
  "to_lower c = (if 65 \<le> code c \<and> code c \<le> 90 then char_of (code c + 32) else c)"

definition same_caseless :: "string \<Rightarrow> string \<Rightarrow> bool" where
  "same_caseless a b \<longleftrightarrow> map to_lower a = map to_lower b"

definition copy_header_value :: "nat \<Rightarrow> string \<Rightarrow> string option" where
  "copy_header_value capacity v = (if v = [] \<or> capacity \<le> length v then None else Some v)"

text \<open>A field that may be given once.\<close>

definition set_once :: "string \<Rightarrow> nat \<Rightarrow> string \<Rightarrow> string option" where
  "set_once old capacity v = (if old \<noteq> [] then None else copy_header_value capacity v)"

definition header_field :: "string \<Rightarrow> string \<Rightarrow> fast_request \<Rightarrow> fast_request option" where
  "header_field name v q =
     (if same_caseless name ''Host'' then map_option (\<lambda>t. q\<lparr>fq_host := t\<rparr>) (set_once (fq_host q) 264 v)
      else if same_caseless name ''Origin'' then map_option (\<lambda>t. q\<lparr>fq_origin := t\<rparr>) (set_once (fq_origin q) 264 v)
      else if same_caseless name ''Authorization''
      then map_option (\<lambda>t. q\<lparr>fq_authorization := t\<rparr>) (set_once (fq_authorization q) UPLOAD_AUTH_BYTES v)
      else if same_caseless name ''Content-Type''
      then map_option (\<lambda>t. q\<lparr>fq_content_type := t\<rparr>) (set_once (fq_content_type q) 64 v)
      else if same_caseless name ''Content-Range''
      then map_option (\<lambda>t. q\<lparr>fq_content_range := t\<rparr>) (set_once (fq_content_range q) 128 v)
      else if same_caseless name ''Content-Length''
      then (if fq_has_content_length q then None
            else map_option (\<lambda>n. q\<lparr>fq_content_length := n, fq_has_content_length := True\<rparr>) (parse_length v))
      else Some q)"

text \<open>The first \<open>\r\n\r\n\<close> of the buffer, and the text before and after the first \<open>\r\n\<close> of a string.\<close>

fun header_end :: "byte list \<Rightarrow> nat option" where
  "header_end [] = None"
| "header_end (b # bs) = (if take 4 (b # bs) = [0x0D, 0x0A, 0x0D, 0x0A] then Some 0 else map_option Suc (header_end bs))"

fun split_line :: "string \<Rightarrow> (string \<times> string) option" where
  "split_line [] = None"
| "split_line (c # cs) = (if take 2 (c # cs) = crlf then Some ([], drop 1 cs) else map_option (\<lambda>(a, b). (c # a, b)) (split_line cs))"

lemma split_line_Some: "split_line t = Some (a, b) \<Longrightarrow> t = a @ crlf @ b"
proof (induction t arbitrary: a)
  case (Cons c cs)
  then show ?case by (cases cs) (auto simp: crlf_def split: if_splits)
qed simp

lemma split_line_shorter: "split_line t = Some (a, b) \<Longrightarrow> length b < length t"
  by (drule split_line_Some) (simp add: crlf_def)

function header_lines :: "string \<Rightarrow> fast_request \<Rightarrow> fast_request option" where
  "header_lines t q =
     (if t = [] then Some q
      else let line = (case split_line t of None \<Rightarrow> t | Some (l, _) \<Rightarrow> l)
           in case split_at_first CHR '':'' line of
               None \<Rightarrow> None
             | Some (name, v) \<Rightarrow>
                 (case header_field (trim name) (trim v) q of
                    None \<Rightarrow> None
                  | Some q \<Rightarrow> (case split_line t of None \<Rightarrow> Some q | Some (_, rest) \<Rightarrow> header_lines rest q)))"
  by pat_completeness auto
termination by (relation "measure (\<lambda>(t, q). length t)") (auto dest: split_line_shorter)

declare header_lines.simps [simp del]

text \<open>A conversion \<open>%ns\<close> of \<open>sscanf\<close>: the word, and the text behind it.\<close>

definition scan_word :: "nat \<Rightarrow> string \<Rightarrow> (string \<times> string) option" where
  "scan_word width t =
     (let t = dropWhile isspace t; w = take width (takeWhile (\<lambda>c. \<not> isspace c) t)
      in if w = [] then None else Some (w, drop (length w) t))"

text \<open>
  The format \<open>"%7s %2048s HTTP/1.1"\<close>: the literal text at its end does not count, since the number of
  conversions is all that the code asks for.
\<close>

definition scan_request_line :: "string \<Rightarrow> (string \<times> string) option" where
  "scan_request_line line =
     do { (m, rest) \<leftarrow> scan_word 7 line; (path, _) \<leftarrow> scan_word ROUTER_MAX_PATH_BYTES rest; Some (m, path) }"

datatype parse_result = Incomplete | Malformed | Parsed fast_request

text \<open>
  The code replaces the ends of the lines and names by terminators, so that the text ends at the first
  NUL byte before the blank line.
\<close>

definition parse_request :: "byte list \<Rightarrow> parse_result" where
  "parse_request buffer =
     (case header_end buffer of
        None \<Rightarrow> Incomplete
      | Some i \<Rightarrow>
          (case split_line (cstr (map byte_char (take i buffer))) of
             None \<Rightarrow> Malformed
           | Some (line, rest) \<Rightarrow>
               (case scan_request_line line of
                  None \<Rightarrow> Malformed
                | Some (m, path) \<Rightarrow>
                    (case header_lines rest (no_request\<lparr>fq_method := m, fq_path := path, fq_body_offset := i + 4,
                            fq_buffered_bytes := length buffer - (i + 4)\<rparr>) of
                       None \<Rightarrow> Malformed
                     | Some q \<Rightarrow> Parsed q))))"

text \<open>The request, the buffer and the socket afterwards; no request if it is malformed, cut short or too long.\<close>

function receive_headers :: "byte list \<Rightarrow> socket \<Rightarrow> fast_request option \<times> byte list \<times> socket" where
  "receive_headers buffer k =
     (if FAST_UPLOAD_HEADER_BYTES \<le> length buffer then (None, buffer, k)
      else case sock_recv (FAST_UPLOAD_HEADER_BYTES - length buffer) k of
          (Interrupted, k) \<Rightarrow> receive_headers buffer k
        | (Ended, k) \<Rightarrow> (None, buffer, k)
        | (Arrived data, k) \<Rightarrow>
            (case parse_request (buffer @ data) of
               Incomplete \<Rightarrow> receive_headers (buffer @ data) k
             | Malformed \<Rightarrow> (None, buffer @ data, k)
             | Parsed q \<Rightarrow> (Some q, buffer @ data, k)))"
  by pat_completeness auto
termination by (relation "measure (\<lambda>(buffer, k). pending k)") (auto dest: sock_recv_pending [OF sym])

declare receive_headers.simps [simp del]

section \<open>The origin\<close>

text \<open>The host and the port of an authority; an address in brackets keeps them.\<close>

definition split_authority :: "string \<Rightarrow> nat \<Rightarrow> (string \<times> u16) option" where
  "split_authority authority capacity =
     (case (if authority = [] then None
            else if hd authority = CHR ''[''
            then (case split_at_first CHR '']'' authority of
                    None \<Rightarrow> None
                  | Some (a, rest) \<Rightarrow> (if rest = [] \<or> hd rest \<noteq> CHR '':'' then None else Some (a @ '']'', tl rest)))
            else if split_at_last CHR '':'' authority = None \<or>
                    split_at_first CHR '':'' authority \<noteq> split_at_last CHR '':'' authority then None
            else split_at_last CHR '':'' authority) of
        None \<Rightarrow> None
      | Some (host, port_text) \<Rightarrow>
          (if host = [] \<or> capacity \<le> length host then None
           else case parse_length port_text of
               None \<Rightarrow> None
             | Some p \<Rightarrow> (if 65535 < p then None else Some (host, ucast p))))"

text \<open>The authority of the page, given the port of the pages and the port of this listener.\<close>

definition validate_origin :: "u16 \<Rightarrow> u16 \<Rightarrow> fast_request \<Rightarrow> string option" where
  "validate_origin ui_port bound_port q =
     (if take 7 (fq_origin q) \<noteq> ''http://'' then None
      else let origin_authority = drop 7 (fq_origin q)
           in if CHR ''/'' \<in> set origin_authority then None
              else case split_authority origin_authority 256 of
                  None \<Rightarrow> None
                | Some (origin_host, origin_port) \<Rightarrow>
                    (case split_authority (fq_host q) 256 of
                       None \<Rightarrow> None
                     | Some (request_host, request_port) \<Rightarrow>
                         (if origin_port \<noteq> ui_port \<or> request_port \<noteq> bound_port \<or> \<not> same_caseless origin_host request_host \<or>
                             264 \<le> length origin_authority
                          then None else Some origin_authority)))"

text \<open>The address of the peer as family and text.\<close>

definition socket_address_text :: "address_family \<times> string \<Rightarrow> string" where
  "socket_address_text address =
     (case address of
        (family, t) \<Rightarrow> (if family \<in> {AF_INET, AF_INET6} \<and> length t < AUTH_CLIENT_ADDRESS_BYTES then t else ''unknown''))"

definition fast_router_request :: "fast_request \<Rightarrow> string \<Rightarrow> string \<Rightarrow> router_request" where
  "fast_router_request q ui_authority address =
     \<lparr>rq_method = fq_method q, rq_path = fq_path q, rq_body = None, rq_body_size = 0, rq_client_address = address,
      rq_host = Some ui_authority, rq_origin = Some (fq_origin q), rq_content_type = Some (fq_content_type q),
      rq_authorization = Some (fq_authorization q),
      rq_content_range = (if fq_content_range q \<noteq> [] then Some (fq_content_range q) else None)\<rparr>"

section \<open>The stream\<close>

text \<open>A piece of the body, of which \<open>arrived\<close> bytes have come before.\<close>

fun write_piece :: "environment \<Rightarrow> stream_start \<Rightarrow> u64 \<Rightarrow> byte list \<Rightarrow> router \<Rightarrow> os \<Rightarrow> unit stream_result" where
  "write_piece env (Whole_body i) arrived data r s = router_upload_stream_write_direct env r i data s"
| "write_piece env (Body_chunk i offset amount) arrived data r s = router_upload_stream_write_chunk env r i (offset + arrived) data s"

fun abort_stream :: "stream_start \<Rightarrow> router \<Rightarrow> os \<Rightarrow> (router \<times> os) option" where
  "abort_stream (Whole_body i) r s = router_upload_stream_abort r i s"
| "abort_stream (Body_chunk i offset amount) r s = Some (router_upload_stream_abort_chunk r i offset s)"

text \<open>A chunk that cannot be finished is given up, and the failure is answered.\<close>

fun end_stream :: "environment \<Rightarrow> stream_start \<Rightarrow> router \<Rightarrow> os \<Rightarrow> (router_response \<times> router \<times> os) option" where
  "end_stream env (Whole_body i) r s = router_upload_stream_finish env r i s"
| "end_stream env (Body_chunk i offset amount) r s =
     (case router_upload_stream_finish_chunk env r i offset amount s of
        (True, routed, r, s) \<Rightarrow> Some (routed, r, s)
      | (False, routed, r, s) \<Rightarrow> (case router_upload_stream_abort_chunk r i offset s of (r, s) \<Rightarrow> Some (routed, r, s)))"

lemma body_room: "\<not> whole \<le> arrived \<Longrightarrow> 0 < unat (whole - arrived :: u64)" "0 < FAST_UPLOAD_READ_BYTES"
  by (auto simp: FAST_UPLOAD_READ_BYTES_def unat_gt_0)

text \<open>The loop that reads the body: whether all of it was stored.\<close>

function receive_body ::
  "environment \<Rightarrow> stream_start \<Rightarrow> u64 \<Rightarrow> u64 \<Rightarrow> socket \<Rightarrow> router \<Rightarrow> os \<Rightarrow> (bool \<times> socket \<times> router \<times> os) option" where
  "receive_body env st whole arrived k r s =
     (if whole \<le> arrived then Some (True, k, r, s)
      else case sock_recv (min (unat (whole - arrived)) FAST_UPLOAD_READ_BYTES) k of
          (Interrupted, k) \<Rightarrow> receive_body env st whole arrived k r s
        | (Ended, k) \<Rightarrow> Some (False, k, r, s)
        | (Arrived data, k) \<Rightarrow>
            (case write_piece env st arrived data r s of
               None \<Rightarrow> None
             | Some (Inl _, r, s) \<Rightarrow> Some (False, k, r, s)
             | Some (Inr _, r, s) \<Rightarrow> receive_body env st whole (arrived + of_nat (length data)) k r s))"
  by pat_completeness auto

termination by (relation "measure (\<lambda>(env, st, whole, arrived, k, r, s). pending k)")
  (auto dest!: sock_recv_pending [OF sym] simp: body_room)

declare receive_body.simps [simp del]

text \<open>The body: what came with the header, and the rest.\<close>

definition stream_body ::
  "environment \<Rightarrow> stream_start \<Rightarrow> u64 \<Rightarrow> byte list \<Rightarrow> socket \<Rightarrow> router \<Rightarrow> os \<Rightarrow> (bool \<times> socket \<times> router \<times> os) option" where
  "stream_body env st whole buffered k r s =
     (if whole < of_nat (length buffered) then Some (False, k, r, s)
      else if buffered = [] then receive_body env st whole 0 k r s
      else case write_piece env st 0 buffered r s of
          None \<Rightarrow> None
        | Some (Inl _, r, s) \<Rightarrow> Some (False, k, r, s)
        | Some (Inr _, r, s) \<Rightarrow> receive_body env st whole (of_nat (length buffered)) k r s)"

definition fast_stream ::
  "environment \<Rightarrow> fast_request \<Rightarrow> byte list \<Rightarrow> stream_start \<Rightarrow> socket \<Rightarrow> router \<Rightarrow> os \<Rightarrow> (socket \<times> router \<times> os) option" where
  "fast_stream env q buffered st k r s =
     (case (case st of Whole_body i \<Rightarrow> router_upload_stream_enable_direct env r i s | Body_chunk _ _ _ \<Rightarrow> Some (Inr (), r, s)) of
        None \<Rightarrow> None
      | Some (Inl failure, r, s) \<Rightarrow> Some (snd (send_response k failure (Some (fq_origin q))), r, s)
      | Some (Inr _, r, s) \<Rightarrow>
          (case stream_body env st (fq_content_length q) buffered k r s of
             None \<Rightarrow> None
           | Some (False, k, r, s) \<Rightarrow> map_option (\<lambda>(r, s). (k, r, s)) (abort_stream st r s)
           | Some (True, k, r, s) \<Rightarrow>
               map_option (\<lambda>(routed, r, s). (snd (send_response k routed (Some (fq_origin q))), r, s)) (end_stream env st r s)))"

section \<open>A connection\<close>

text \<open>From the first byte to the closed socket, apart from the worker's slot, which \<open>FastPool\<close> gives back.\<close>

definition serve_request ::
  "environment \<Rightarrow> u16 \<Rightarrow> u16 \<Rightarrow> address_family \<times> string \<Rightarrow> fast_request \<Rightarrow> byte list \<Rightarrow> socket \<Rightarrow> router \<Rightarrow> os \<Rightarrow>
     (socket \<times> router \<times> os) option" where
  "serve_request env ui_port bound_port address q buffer k r s =
     (case validate_origin ui_port bound_port q of
        None \<Rightarrow>
          Some (snd (send_simple_error k 403 ''origin_forbidden'' ''Origin does not match the PS5 receiver'' None), r, s)
      | Some ui_authority \<Rightarrow>
          (if fq_method q = ''OPTIONS'' then Some (snd (send_preflight k (fq_origin q)), r, s)
           else if fq_method q \<noteq> ''PUT''
           then Some (snd (send_simple_error k 405 ''method_not_allowed'' ''Only PUT is allowed'' (Some (fq_origin q))), r, s)
           else case router_upload_stream_begin_ex env r (fast_router_request q ui_authority (socket_address_text address))
                       (if fq_has_content_length q then Some (fq_content_length q) else None) s of
               None \<Rightarrow> None
             | Some (Inl failure, r, s) \<Rightarrow> Some (snd (send_response k failure (Some (fq_origin q))), r, s)
             | Some (Inr st, r, s) \<Rightarrow>
                 fast_stream env q (take (fq_buffered_bytes q) (drop (fq_body_offset q) buffer)) st k r s))"

definition connection_main ::
  "environment \<Rightarrow> u16 \<Rightarrow> u16 \<Rightarrow> address_family \<times> string \<Rightarrow> socket \<Rightarrow> router \<Rightarrow> os \<Rightarrow> (socket \<times> router \<times> os) option" where
  "connection_main env ui_port bound_port address k r s =
     map_option (\<lambda>(k, r, s). (k\<lparr>sk_open := False\<rparr>, r, s))
       (case allocate s of
          (False, s) \<Rightarrow> Some (snd (send_simple_error k 500 ''internal_error'' ''Unable to allocate buffer'' None), r, s)
        | (True, s) \<Rightarrow>
            (case receive_headers [] k of
               (None, _, k) \<Rightarrow> Some (snd (send_simple_error k 400 ''bad_request'' ''Malformed HTTP request'' None), r, s)
             | (Some q, buffer, k) \<Rightarrow> serve_request env ui_port bound_port address q buffer k r s))"

end
