(* ===== verification/FastPool.thy ===== *)
theory FastPool
  imports FastServer
begin

text \<open>
  \<^verbatim>\<open>src/src/fast_upload_server.c\<close>: the worker slots, the accepting thread, the start and the stop of the listener.
  The steps of the threads under the mutex are functions of the server; how they interleave is the relation
  \<open>pool_step\<close>, in which every worker runs \<open>connection_main\<close> of \<open>FastServer\<close>.
\<close>

section \<open>The server\<close>

definition FAST_UPLOAD_CONNECTION_LIMIT :: nat where "FAST_UPLOAD_CONNECTION_LIMIT = 8"

text \<open>A free slot holds a negative number.\<close>

record fast_server =
  fs_ui_port :: u16
  fs_bound_port :: u16
  fs_listener :: int
  fs_accept_thread_started :: bool
  fs_stopping :: bool
  fs_client_fds :: "int list"
  fs_active_workers :: u32

text \<open>The slot that is taken, if there is one and the server is not stopping.\<close>

definition reserve_slot :: "int \<Rightarrow> fast_server \<Rightarrow> nat option \<times> fast_server" where
  "reserve_slot descriptor sv =
     (if fs_stopping sv then (None, sv)
      else case find (\<lambda>i. fs_client_fds sv ! i < 0) [0..<FAST_UPLOAD_CONNECTION_LIMIT] of
          None \<Rightarrow> (None, sv)
        | Some i \<Rightarrow>
            (Some i, sv\<lparr>fs_client_fds := (fs_client_fds sv)[i := descriptor], fs_active_workers := fs_active_workers sv + 1\<rparr>))"

definition release_reserved_slot :: "nat \<Rightarrow> fast_server \<Rightarrow> fast_server" where
  "release_reserved_slot slot sv =
     sv\<lparr>fs_client_fds := (fs_client_fds sv)[slot := -1],
        fs_active_workers := (if 0 < fs_active_workers sv then fs_active_workers sv - 1 else fs_active_workers sv)\<rparr>"

definition unregister_worker :: "nat \<Rightarrow> fast_server \<Rightarrow> fast_server" where
  "unregister_worker slot sv =
     sv\<lparr>fs_client_fds := (fs_client_fds sv)[slot := -1],
        fs_active_workers := (if 0 < fs_active_workers sv then fs_active_workers sv - 1 else fs_active_workers sv)\<rparr>"

section \<open>Accepting\<close>

text \<open>What \<open>accept\<close> returns, and where the accepting thread stands: before the next \<open>accept\<close>, or with a slot taken.\<close>

datatype accepted = Accept_interrupted | Accept_failed | Accepted int

datatype accept_state = Accepting | Reserved int nat | Accept_ended

text \<open>From \<open>accept\<close> to the reservation; the last component are the descriptors closed.\<close>

definition accept_step :: "accepted \<Rightarrow> fast_server \<Rightarrow> accept_state \<times> fast_server \<times> int list" where
  "accept_step event sv =
     (case event of
        Accept_interrupted \<Rightarrow> (Accepting, sv, [])
      | Accept_failed \<Rightarrow> (if fs_stopping sv then Accept_ended else Accepting, sv, [])
      | Accepted descriptor \<Rightarrow>
          (case reserve_slot descriptor sv of
             (None, sv) \<Rightarrow> (Accepting, sv, [descriptor])
           | (Some slot, sv) \<Rightarrow> (Reserved descriptor slot, sv, [])))"

text \<open>From there to the new thread, given whether there was memory and whether the thread was created.\<close>

definition launch_step :: "bool \<Rightarrow> bool \<Rightarrow> int \<Rightarrow> nat \<Rightarrow> fast_server \<Rightarrow> bool \<times> fast_server \<times> int list" where
  "launch_step memory thread descriptor slot sv =
     (if \<not> memory \<or> \<not> thread then (False, release_reserved_slot slot sv, [descriptor]) else (True, sv, []))"

section \<open>Socket options\<close>

text \<open>
  The options that are set on a connection, in order; whether a call works is ignored.  The arguments say whether the
  system has \<open>TCP_NODELAY\<close> and \<open>SO_NOSIGPIPE\<close>.
\<close>

datatype socket_option =
    Receive_buffer nat | Send_buffer nat | Receive_timeout nat | Send_timeout nat | No_delay | No_sigpipe

definition FAST_UPLOAD_SOCKET_BUFFER_BYTES :: nat where "FAST_UPLOAD_SOCKET_BUFFER_BYTES = 4194304"
definition FAST_UPLOAD_TIMEOUT_SECONDS :: nat where "FAST_UPLOAD_TIMEOUT_SECONDS = 30"

definition tune_socket :: "bool \<Rightarrow> bool \<Rightarrow> socket_option list" where
  "tune_socket nodelay nosigpipe =
     [Receive_buffer FAST_UPLOAD_SOCKET_BUFFER_BYTES, Send_buffer FAST_UPLOAD_SOCKET_BUFFER_BYTES,
      Receive_timeout FAST_UPLOAD_TIMEOUT_SECONDS, Send_timeout FAST_UPLOAD_TIMEOUT_SECONDS] @
     (if nodelay then [No_delay] else []) @ (if nosigpipe then [No_sigpipe] else [])"

section \<open>Start and stop\<close>

text \<open>What the calls at the start return: the descriptor of the socket, and \<open>bind\<close> and the port by the port requested.\<close>

record listen_calls =
  lc_memory :: bool
  lc_mutex :: bool
  lc_condition :: bool
  lc_socket :: int
  lc_bind :: "u16 \<Rightarrow> bool"
  lc_listen :: bool
  lc_name :: "u16 \<Rightarrow> u16 option"
  lc_thread :: bool

definition new_server :: "u16 \<Rightarrow> fast_server" where
  "new_server ui_port =
     \<lparr>fs_ui_port = ui_port, fs_bound_port = 0, fs_listener = -1, fs_accept_thread_started = False, fs_stopping = False,
      fs_client_fds = replicate FAST_UPLOAD_CONNECTION_LIMIT (-1), fs_active_workers = 0\<rparr>"

text \<open>The server, or nothing; and the descriptors closed.  The pointer to the router is never null.\<close>

definition fast_upload_server_start :: "listen_calls \<Rightarrow> u16 \<Rightarrow> u16 \<Rightarrow> fast_server option \<times> int list" where
  "fast_upload_server_start calls ui_port requested_port =
     (if ui_port = 0 \<or> \<not> lc_memory calls \<or> \<not> lc_mutex calls \<or> \<not> lc_condition calls then (None, [])
      else if lc_socket calls < 0 then (None, [])
      else let failing = (None, [lc_socket calls])
           in if \<not> lc_bind calls requested_port \<or> \<not> lc_listen calls then failing
              else case lc_name calls requested_port of
                  None \<Rightarrow> failing
                | Some bound_port \<Rightarrow>
                    (if bound_port = 0 \<or> \<not> lc_thread calls then failing
                     else (Some ((new_server ui_port)\<lparr>fs_listener := lc_socket calls, fs_bound_port := bound_port,
                                    fs_accept_thread_started := True\<rparr>), [])))"

definition fast_upload_server_port :: "fast_server option \<Rightarrow> u16" where
  "fast_upload_server_port server = (case server of None \<Rightarrow> 0 | Some sv \<Rightarrow> fs_bound_port sv)"

text \<open>
  The stop up to its first wait: the descriptors that are shut down, those closed, and the server.  After it the call
  waits for the accepting thread and then until there is no worker.
\<close>

definition fast_upload_server_stop :: "fast_server \<Rightarrow> int list \<times> int list \<times> fast_server" where
  "fast_upload_server_stop sv =
     (let listener = (if 0 \<le> fs_listener sv then [fs_listener sv] else [])
      in (filter (\<lambda>d. 0 \<le> d) (fs_client_fds sv) @ listener, listener, sv\<lparr>fs_stopping := True, fs_listener := -1\<rparr>))"

definition stop_returns :: "accept_state \<Rightarrow> fast_server \<Rightarrow> bool" where
  "stop_returns state sv \<longleftrightarrow> (fs_accept_thread_started sv \<longrightarrow> state = Accept_ended) \<and> fs_active_workers sv = 0"

section \<open>The threads\<close>

text \<open>
  A worker of a slot has a descriptor, open until the worker has closed it; between that and the moment when the worker
  gives its slot back, the slot still holds the number.  \<open>fp_open\<close> are the accepted connections that are open;
  \<open>fp_stopped\<close> says that the stop has returned and the server is freed.
\<close>

record fast_pool =
  fp_server :: fast_server
  fp_accept :: accept_state
  fp_workers :: "nat \<Rightarrow> (int \<times> bool) option"
  fp_open :: "int set"
  fp_stopped :: bool

inductive pool_step :: "fast_pool \<Rightarrow> fast_pool \<Rightarrow> bool" where
  pool_accepted: "fp_accept p = Accepting \<Longrightarrow> 0 \<le> d \<Longrightarrow> d \<notin> fp_open p \<Longrightarrow> accept_step (Accepted d) (fp_server p) = (state, sv, closed) \<Longrightarrow>
    pool_step p (p\<lparr>fp_server := sv, fp_accept := state, fp_open := insert d (fp_open p) - set closed\<rparr>)"
| pool_not_accepted: "fp_accept p = Accepting \<Longrightarrow> event \<in> {Accept_interrupted, Accept_failed} \<Longrightarrow>
    accept_step event (fp_server p) = (state, sv, closed) \<Longrightarrow> pool_step p (p\<lparr>fp_server := sv, fp_accept := state\<rparr>)"
| pool_launch: "fp_accept p = Reserved d slot \<Longrightarrow> launch_step memory thread d slot (fp_server p) = (started, sv, closed) \<Longrightarrow>
    pool_step p (p\<lparr>fp_server := sv, fp_accept := Accepting, fp_open := fp_open p - set closed,
      fp_workers := (if started then (fp_workers p)(slot \<mapsto> (d, True)) else fp_workers p)\<rparr>)"
| pool_close: "fp_workers p slot = Some (d, True) \<Longrightarrow>
    pool_step p (p\<lparr>fp_workers := (fp_workers p)(slot \<mapsto> (d, False)), fp_open := fp_open p - {d}\<rparr>)"
| pool_leave: "fp_workers p slot = Some (d, False) \<Longrightarrow>
    pool_step p (p\<lparr>fp_workers := (fp_workers p)(slot := None), fp_server := unregister_worker slot (fp_server p)\<rparr>)"
| pool_stop: "\<not> fs_stopping (fp_server p) \<Longrightarrow> fast_upload_server_stop (fp_server p) = (shut, closed, sv) \<Longrightarrow>
    pool_step p (p\<lparr>fp_server := sv\<rparr>)"
| pool_stopped: "\<not> fp_stopped p \<Longrightarrow> fs_stopping (fp_server p) \<Longrightarrow> stop_returns (fp_accept p) (fp_server p) \<Longrightarrow>
    pool_step p (p\<lparr>fp_stopped := True\<rparr>)"

inductive_cases pool_stepE: "pool_step p p'"

text \<open>The states of a listener that has been started.\<close>

inductive pool_run :: "fast_pool \<Rightarrow> bool" where
  pool_start: "fast_upload_server_start calls ui_port requested_port = (Some sv, closed) \<Longrightarrow>
    pool_run \<lparr>fp_server = sv, fp_accept = Accepting, fp_workers = Map.empty, fp_open = {}, fp_stopped = False\<rparr>"
| pool_go: "pool_run p \<Longrightarrow> pool_step p p' \<Longrightarrow> pool_run p'"

section \<open>What every run keeps\<close>

definition taken :: "fast_pool \<Rightarrow> nat set" where
  "taken p = dom (fp_workers p) \<union> (case fp_accept p of Reserved d i \<Rightarrow> {i} | _ \<Rightarrow> {})"

text \<open>The owners of a descriptor: the workers that have not closed it, and the accepting thread.\<close>

definition holds :: "fast_pool \<Rightarrow> nat \<Rightarrow> int \<Rightarrow> bool" where
  "holds p i d \<longleftrightarrow> fp_workers p i = Some (d, True) \<or> fp_accept p = Reserved d i"

definition pool_ok :: "fast_pool \<Rightarrow> bool" where
  "pool_ok p \<longleftrightarrow>
     length (fs_client_fds (fp_server p)) = FAST_UPLOAD_CONNECTION_LIMIT \<and> taken p \<subseteq> {..<FAST_UPLOAD_CONNECTION_LIMIT} \<and>
     (\<forall>i < FAST_UPLOAD_CONNECTION_LIMIT. 0 \<le> fs_client_fds (fp_server p) ! i \<longleftrightarrow> i \<in> taken p) \<and>
     unat (fs_active_workers (fp_server p)) = card (taken p) \<and>
     (\<forall>i d b. fp_workers p i = Some (d, b) \<longrightarrow> fs_client_fds (fp_server p) ! i = d) \<and>
     (\<forall>i d. fp_accept p = Reserved d i \<longrightarrow> i \<notin> dom (fp_workers p) \<and> fs_client_fds (fp_server p) ! i = d) \<and>
     (\<forall>d. d \<in> fp_open p \<longleftrightarrow> (\<exists>i. holds p i d)) \<and> (\<forall>i j d. holds p i d \<longrightarrow> holds p j d \<longrightarrow> i = j) \<and>
     fs_accept_thread_started (fp_server p) \<and> (fp_accept p = Accept_ended \<longrightarrow> fs_stopping (fp_server p)) \<and>
     (fp_stopped p \<longrightarrow> fs_stopping (fp_server p) \<and> fp_accept p = Accept_ended \<and> taken p = {})"

lemma finite_taken: "pool_ok p \<Longrightarrow> finite (taken p)"
  unfolding pool_ok_def by (meson finite_lessThan finite_subset)

lemma card_taken: "pool_ok p \<Longrightarrow> card (taken p) \<le> FAST_UPLOAD_CONNECTION_LIMIT"
  unfolding pool_ok_def by (metis card_lessThan card_mono finite_lessThan)

lemma reserve_cases:
  assumes "reserve_slot d sv = (slot, sv')"
  obtains (full) "slot = None" "sv' = sv"
    | (free) i where "slot = Some i" "i < FAST_UPLOAD_CONNECTION_LIMIT" "fs_client_fds sv ! i < 0" "\<not> fs_stopping sv"
        "sv' = sv\<lparr>fs_client_fds := (fs_client_fds sv)[i := d], fs_active_workers := fs_active_workers sv + 1\<rparr>"
proof (cases "fs_stopping sv \<or> find (\<lambda>i. fs_client_fds sv ! i < 0) [0..<FAST_UPLOAD_CONNECTION_LIMIT] = None")
  case True
  with assms full show thesis by (auto simp: reserve_slot_def split: if_splits)
next
  case False
  then obtain i where i: "find (\<lambda>i. fs_client_fds sv ! i < 0) [0..<FAST_UPLOAD_CONNECTION_LIMIT] = Some i" by auto
  then obtain k where "k < FAST_UPLOAD_CONNECTION_LIMIT" "fs_client_fds sv ! ([0..<FAST_UPLOAD_CONNECTION_LIMIT] ! k) < 0"
    "i = [0..<FAST_UPLOAD_CONNECTION_LIMIT] ! k" unfolding find_Some_iff by auto
  with False i assms show thesis by (intro free [of i]) (auto simp: reserve_slot_def)
qed

lemma unat_more: "unat (w :: u32) < 8 \<Longrightarrow> unat (w + 1) = unat w + 1"
  using unat_add_no_wrap [of w 1] by simp

lemma unat_fewer: "0 < (w :: u32) \<Longrightarrow> unat (w - 1) = unat w - 1"
  by (simp add: unat_diff_le word_less_nat_alt word_le_nat_alt)

lemma pool_ok_reserved:
  assumes ok: "pool_ok p" and p: "fp_accept p = Accepting" "0 \<le> d" "d \<notin> fp_open p"
    and step: "reserve_slot d (fp_server p) = (Some i, sv)"
  shows "pool_ok (p\<lparr>fp_server := sv, fp_accept := Reserved d i, fp_open := insert d (fp_open p)\<rparr>)"
    (is "pool_ok ?p")
  using step
proof (cases rule: reserve_cases)
  case (free j)
  then have j: "j = i" by simp
  note ok' = ok [unfolded pool_ok_def]
  have new: "i \<notin> taken p" using ok' free j by auto
  have taken: "taken ?p = insert i (taken p)" using p(1) by (simp add: taken_def)
  have "card (insert i (taken p)) \<le> card {..<FAST_UPLOAD_CONNECTION_LIMIT}" using ok' free(2) j by (intro card_mono) auto
  then have "unat (fs_active_workers (fp_server p)) < 8"
    using ok' new finite_taken [OF ok] by (simp add: FAST_UPLOAD_CONNECTION_LIMIT_def)
  from unat_more [OF this] have count: "unat (fs_active_workers sv) = card (taken ?p)"
    using ok' new finite_taken [OF ok] free(5) taken by simp
  have holds: "holds ?p k e \<longleftrightarrow> holds p k e \<or> (k = i \<and> e = d)" for k e using p(1) by (auto simp: holds_def)
  have fresh: "\<not> holds p k d" for k using ok' p(3) by blast
  have "i \<notin> dom (fp_workers p)" using new by (simp add: taken_def)
  moreover have "\<not> fp_stopped p" using ok' free(4) by auto
  moreover have "fs_client_fds (fp_server p) ! k = e" "k < FAST_UPLOAD_CONNECTION_LIMIT" if "fp_workers p k = Some (e, b)" for k e b
    using ok' that by (auto simp: taken_def)
  ultimately show ?thesis
    using ok' free j p taken count new
    unfolding pool_ok_def holds
    by (auto simp: nth_list_update fresh)
qed simp

lemma freed_slot:
  assumes "pool_ok p" "i \<in> taken p"
  shows "unat (if 0 < fs_active_workers (fp_server p) then fs_active_workers (fp_server p) - 1 else fs_active_workers (fp_server p)) =
      card (taken p - {i})" "i < length (fs_client_fds (fp_server p))"
proof -
  have "card (taken p) \<noteq> 0" using assms finite_taken by auto
  then show "unat (if 0 < fs_active_workers (fp_server p) then fs_active_workers (fp_server p) - 1 else fs_active_workers (fp_server p)) =
      card (taken p - {i})"
    using assms finite_taken [OF assms(1)] by (auto simp: pool_ok_def unat_fewer unat_gt_0 word_neq_0_conv [symmetric])
  show "i < length (fs_client_fds (fp_server p))" using assms by (auto simp: pool_ok_def)
qed

lemma pool_ok_released:
  assumes ok: "pool_ok p" and p: "fp_accept p = Reserved d i"
  shows "pool_ok (p\<lparr>fp_server := release_reserved_slot i (fp_server p), fp_accept := Accepting, fp_open := fp_open p - {d}\<rparr>)"
    (is "pool_ok ?p")
proof -
  note ok' = ok [unfolded pool_ok_def]
  have i: "i \<in> taken p" "i \<notin> dom (fp_workers p)" using ok' p by (auto simp: taken_def)
  then have taken: "taken ?p = taken p - {i}" using p by (auto simp: taken_def)
  have holds: "holds ?p k e \<longleftrightarrow> holds p k e \<and> k \<noteq> i" for k e using p i by (auto simp: holds_def)
  have own: "holds p i d" using p by (simp add: holds_def)
  have only: "holds p i e \<Longrightarrow> e = d" for e using p i by (auto simp: holds_def)
  have opened: "e \<in> fp_open p - {d} \<longleftrightarrow> (\<exists>k. holds p k e \<and> k \<noteq> i)" for e
  proof -
    have "holds p k d \<longrightarrow> k = i" for k using own ok' by blast
    moreover have "e \<in> fp_open p \<longleftrightarrow> (\<exists>k. holds p k e)" using ok' by blast
    ultimately show ?thesis using only by auto
  qed
  have slots: "(0 \<le> (fs_client_fds (fp_server p))[i := -1] ! k) = (k \<in> taken p - {i})" if "k < FAST_UPLOAD_CONNECTION_LIMIT" for k
    using ok' that by (cases "k = i") (auto simp: nth_list_update)
  have fds: "(fs_client_fds (fp_server p))[i := -1] ! k = e" if "fp_workers p k = Some (e, b)" for k e b
    using ok' that i(2) by (cases "k = i") (auto simp: nth_list_update)
  have stopped: "\<not> fp_stopped p" using ok' p by auto
  have injective: "\<forall>k l e. holds p k e \<and> k \<noteq> i \<longrightarrow> holds p l e \<and> l \<noteq> i \<longrightarrow> k = l" using ok' by blast
  have subset: "taken p - {i} \<subseteq> {..<FAST_UPLOAD_CONNECTION_LIMIT}" using ok' by blast
  note facts = stopped injective subset freed_slot(1) [OF ok i(1)] slots fds opened
  show ?thesis
    using ok' unfolding pool_ok_def holds taken
    by (simp add: facts release_reserved_slot_def) (use facts in simp)
qed

lemma pool_ok_started:
  assumes ok: "pool_ok p" and p: "fp_accept p = Reserved d i"
  shows "pool_ok (p\<lparr>fp_accept := Accepting, fp_workers := (fp_workers p)(i \<mapsto> (d, True))\<rparr>)" (is "pool_ok ?p")
proof -
  note ok' = ok [unfolded pool_ok_def]
  have taken: "taken ?p = taken p" using p by (auto simp: taken_def)
  have holds: "holds ?p k e \<longleftrightarrow> holds p k e" for k e using p ok' by (auto simp: holds_def)
  have "\<not> fp_stopped p" using ok' p by auto
  then show ?thesis using ok' p taken unfolding pool_ok_def holds by (auto split: if_splits)
qed

lemma pool_ok_closed:
  assumes ok: "pool_ok p" and p: "fp_workers p i = Some (d, True)"
  shows "pool_ok (p\<lparr>fp_workers := (fp_workers p)(i \<mapsto> (d, False)), fp_open := fp_open p - {d}\<rparr>)" (is "pool_ok ?p")
proof -
  note ok' = ok [unfolded pool_ok_def]
  have taken: "taken ?p = taken p" using p by (auto simp: taken_def)
  have free: "fp_accept p \<noteq> Reserved e i" for e using ok' p by auto
  have holds: "holds ?p k e \<longleftrightarrow> holds p k e \<and> k \<noteq> i" for k e using p free by (auto simp: holds_def)
  have own: "holds p i d" using p by (simp add: holds_def)
  have only: "holds p i e \<Longrightarrow> e = d" for e using p free by (auto simp: holds_def)
  have opened: "e \<in> fp_open p - {d} \<longleftrightarrow> (\<exists>k. holds p k e \<and> k \<noteq> i)" for e
  proof -
    have "holds p k d \<longrightarrow> k = i" for k using own ok' by blast
    moreover have "e \<in> fp_open p \<longleftrightarrow> (\<exists>k. holds p k e)" using ok' by blast
    ultimately show ?thesis using only by auto
  qed
  have fd: "fs_client_fds (fp_server p) ! i = d" "i \<in> dom (fp_workers p)" using ok' p by blast+
  have workers: "fs_client_fds (fp_server p) ! k = e" if "((fp_workers p)(i \<mapsto> (d, False))) k = Some (e, b)" for k e b
    using ok' that fd by (cases "k = i") auto
  have reserved: "k \<notin> dom ((fp_workers p)(i \<mapsto> (d, False)))" if "fp_accept p = Reserved e k" for k e
    using ok' that free by auto
  show ?thesis
    using ok' opened workers reserved
    unfolding pool_ok_def holds taken
    by simp blast
qed

lemma pool_ok_left:
  assumes ok: "pool_ok p" and p: "fp_workers p i = Some (d, False)"
  shows "pool_ok (p\<lparr>fp_workers := (fp_workers p)(i := None), fp_server := unregister_worker i (fp_server p)\<rparr>)" (is "pool_ok ?p")
proof -
  note ok' = ok [unfolded pool_ok_def]
  have free: "fp_accept p \<noteq> Reserved e i" for e using ok' p by auto
  have i: "i \<in> taken p" using p by (auto simp: taken_def)
  have taken: "taken ?p = taken p - {i}" using p free by (auto simp: taken_def split: accept_state.splits)
  have holds: "holds ?p k e \<longleftrightarrow> holds p k e" for k e using p free by (auto simp: holds_def)
  have slots: "(0 \<le> (fs_client_fds (fp_server p))[i := -1] ! k) = (k \<in> taken p - {i})" if "k < FAST_UPLOAD_CONNECTION_LIMIT" for k
    using ok' that by (cases "k = i") (auto simp: nth_list_update)
  have fds: "(fs_client_fds (fp_server p))[i := -1] ! k = e" if "((fp_workers p)(i := None)) k = Some (e, b)" for k e b
    using ok' that by (cases "k = i") (auto simp: nth_list_update)
  have reserved: "k \<notin> dom ((fp_workers p)(i := None)) \<and> (fs_client_fds (fp_server p))[i := -1] ! k = e" if "fp_accept p = Reserved e k" for k e
    using ok' that free by (cases "k = i") (auto simp: nth_list_update)
  have "\<not> fp_stopped p" using ok' i by auto
  then show ?thesis
    using ok' freed_slot [OF ok i] slots fds reserved
    unfolding pool_ok_def holds taken
    by (simp add: unregister_worker_def) blast
qed

lemma pool_step_ok:
  assumes "pool_step p p'" "pool_ok p"
  shows "pool_ok p'"
  using assms(1)
proof cases
  case (pool_accepted d state sv closed)
  obtain slot sv' where r: "reserve_slot d (fp_server p) = (slot, sv')" by force
  show ?thesis
  proof (cases slot)
    case None
    with r have "sv' = fp_server p" by (cases rule: reserve_cases) simp_all
    with pool_accepted None r have "p' = p" by (auto simp: accept_step_def)
    with assms(2) show ?thesis by simp
  next
    case (Some i)
    from pool_ok_reserved [OF assms(2) pool_accepted(2-4)] r Some pool_accepted show ?thesis by (auto simp: accept_step_def)
  qed
next
  case (pool_not_accepted event state sv closed)
  with assms(2) show ?thesis
    by (auto simp: accept_step_def pool_ok_def taken_def holds_def split: if_splits)
next
  case (pool_launch d slot memory thread started sv closed)
  with pool_ok_released [OF assms(2)] pool_ok_started [OF assms(2)] show ?thesis
    by (auto simp: launch_step_def split: if_splits)
next
  case (pool_close slot d)
  with pool_ok_closed [OF assms(2)] show ?thesis by simp
next
  case (pool_leave slot d)
  with pool_ok_left [OF assms(2)] show ?thesis by simp
next
  case (pool_stop shut closed sv)
  with assms(2) show ?thesis
    by (auto simp: fast_upload_server_stop_def Let_def pool_ok_def taken_def holds_def)
next
  case pool_stopped
  with assms(2) finite_taken [OF assms(2)] show ?thesis
    by (auto simp: stop_returns_def pool_ok_def taken_def holds_def)
qed

lemma pool_run_ok: "pool_run p \<Longrightarrow> pool_ok p"
proof (induction rule: pool_run.induct)
  case (pool_start calls ui_port requested_port sv closed)
  then have "sv = (new_server ui_port)\<lparr>fs_listener := fs_listener sv, fs_bound_port := fs_bound_port sv, fs_accept_thread_started := True\<rparr>"
    by (auto simp: fast_upload_server_start_def Let_def split: if_splits option.splits)
  then have "fs_client_fds sv = replicate FAST_UPLOAD_CONNECTION_LIMIT (-1)" "fs_active_workers sv = 0" "\<not> fs_stopping sv" "fs_accept_thread_started sv"
    by (cases sv; simp add: new_server_def)+
  then show ?case by (simp add: pool_ok_def taken_def holds_def)
next
  case (pool_go p p')
  then show ?case using pool_step_ok by blast
qed

section \<open>The properties\<close>

text \<open>C7: The listener never has more than eight connections, and its books are right at every moment, however its
  threads interleave and whichever calls fail: each worker has a slot of its own, with the number of its descriptor; the
  count of workers is the number of workers, with one more while the accepting thread has taken a slot and
  not yet started a worker, so that it neither overflows nor is decremented below zero; and no two workers share an
  open connection.\<close>
theorem workers_have_own_slots:
  assumes "pool_run p"
  shows "card (dom (fp_workers p)) \<le> FAST_UPLOAD_CONNECTION_LIMIT \<and>
    unat (fs_active_workers (fp_server p)) = card (dom (fp_workers p)) + (case fp_accept p of Reserved d i \<Rightarrow> 1 | _ \<Rightarrow> 0) \<and>
    (\<forall>i d b. fp_workers p i = Some (d, b) \<longrightarrow> i < FAST_UPLOAD_CONNECTION_LIMIT \<and> 0 \<le> d \<and> fs_client_fds (fp_server p) ! i = d) \<and>
    (\<forall>i j d. fp_workers p i = Some (d, True) \<longrightarrow> fp_workers p j = Some (d, True) \<longrightarrow> i = j)"
proof -
  note ok = pool_run_ok [OF assms]
  note ok' = ok [unfolded pool_ok_def]
  have fin: "finite (dom (fp_workers p))" using finite_taken [OF ok] by (simp add: taken_def)
  have "card (dom (fp_workers p)) \<le> card (taken p)" by (rule card_mono [OF finite_taken [OF ok]]) (simp add: taken_def)
  then have "card (dom (fp_workers p)) \<le> FAST_UPLOAD_CONNECTION_LIMIT" using card_taken [OF ok] by simp
  moreover have "unat (fs_active_workers (fp_server p)) = card (dom (fp_workers p)) + (case fp_accept p of Reserved d i \<Rightarrow> 1 | _ \<Rightarrow> 0)"
    using ok' fin by (cases "fp_accept p") (auto simp: taken_def)
  moreover have "i < FAST_UPLOAD_CONNECTION_LIMIT \<and> 0 \<le> d \<and> fs_client_fds (fp_server p) ! i = d" if "fp_workers p i = Some (d, b)" for i d b
  proof -
    have t: "i \<in> taken p" using that by (auto simp: taken_def)
    then have "i < FAST_UPLOAD_CONNECTION_LIMIT" using ok' by blast
    moreover have "fs_client_fds (fp_server p) ! i = d" using ok' that by blast
    ultimately show ?thesis using ok' t by blast
  qed
  moreover have "i = j" if "fp_workers p i = Some (d, True)" "fp_workers p j = Some (d, True)" for i j d
    using ok' that by (auto simp: holds_def)
  ultimately show ?thesis by blast
qed

text \<open>C8: The server is freed only when nothing uses it any more: whenever the stop has returned, every worker has left, every
  accepted connection is closed, the accepting thread has ended, and no thread can take another step.\<close>
theorem stop_leaves_nothing_behind:
  assumes "pool_run p" "fp_stopped p"
  shows "fp_workers p = Map.empty \<and> fp_open p = {} \<and> fp_accept p = Accept_ended \<and> \<not> (\<exists>p'. pool_step p p')"
proof -
  note ok = pool_run_ok [OF assms(1), unfolded pool_ok_def]
  have none: "fp_workers p = Map.empty" "fp_accept p = Accept_ended" "fs_stopping (fp_server p)" using ok assms(2) by (auto simp: taken_def)
  then have "fp_open p = {}" using ok by (auto simp: holds_def)
  moreover have "\<not> pool_step p p'" for p' using none assms(2) by (auto elim!: pool_stepE)
  ultimately show ?thesis using none by simp
qed

section \<open>Examples\<close>

definition example_listen :: listen_calls where
  "example_listen =
     \<lparr>lc_memory = True, lc_mutex = True, lc_condition = True, lc_socket = 3, lc_bind = (\<lambda>_. True), lc_listen = True,
      lc_name = (\<lambda>p. Some p), lc_thread = True\<rparr>"

definition example_server :: fast_server where
  "example_server = (new_server 80)\<lparr>fs_listener := 3, fs_bound_port := 81, fs_accept_thread_started := True\<rparr>"

text \<open>A connection has been accepted and has a worker; then the worker has closed it; then it has left.\<close>

definition example_busy :: "bool \<Rightarrow> fast_pool" where
  "example_busy is_open =
     \<lparr>fp_server = example_server\<lparr>fs_client_fds := (fs_client_fds example_server)[0 := 7], fs_active_workers := 1\<rparr>, fp_accept = Accepting,
      fp_workers = [0 \<mapsto> (7, is_open)], fp_open = (if is_open then {7} else {}), fp_stopped = False\<rparr>"

lemma example_started: "pool_run \<lparr>fp_server = example_server, fp_accept = Accepting, fp_workers = Map.empty, fp_open = {}, fp_stopped = False\<rparr>"
  by (rule pool_start [of example_listen 80 81 _ "[]"]) (simp add: fast_upload_server_start_def example_listen_def example_server_def)

lemma example_worker: "pool_run (example_busy True)"
proof -
  have reserve: "reserve_slot 7 example_server =
      (Some 0, example_server\<lparr>fs_client_fds := (fs_client_fds example_server)[0 := 7], fs_active_workers := 1\<rparr>)"
    by (simp add: reserve_slot_def example_server_def new_server_def FAST_UPLOAD_CONNECTION_LIMIT_def upt_rec)
  from pool_go [OF example_started pool_accepted [of _ 7]] reserve
  have "pool_run \<lparr>fp_server = example_server\<lparr>fs_client_fds := (fs_client_fds example_server)[0 := 7], fs_active_workers := 1\<rparr>,
      fp_accept = Reserved 7 0, fp_workers = Map.empty, fp_open = {7}, fp_stopped = False\<rparr>" (is "pool_run ?p")
    by (auto simp: accept_step_def)
  from pool_go [OF this pool_launch [of ?p 7 0 True True]] show ?thesis by (auto simp: launch_step_def example_busy_def)
qed

lemma example_closed: "pool_run (example_busy False)"
  using pool_go [OF example_worker pool_close [of _ 0 7]] by (simp add: example_busy_def)

theorem workers_have_own_slots_witness:
  "\<exists>p. pool_run p \<and> card (dom (fp_workers p)) = 1 \<and> unat (fs_active_workers (fp_server p)) = card (dom (fp_workers p)) \<and>
    fs_client_fds (fp_server p) ! 0 = 7"
  using workers_have_own_slots [OF example_worker] example_worker
  by (intro exI [of _ "example_busy True"])
    (simp add: example_busy_def example_server_def new_server_def FAST_UPLOAD_CONNECTION_LIMIT_def)

lemma example_stopped:
  "\<exists>p. pool_run p \<and> fp_stopped p"
proof -
  let ?idle = "\<lparr>fp_server = unregister_worker 0 (fp_server (example_busy False)), fp_accept = Accepting, fp_workers = Map.empty,
    fp_open = {}, fp_stopped = False\<rparr>"
  have "pool_run ?idle"
    using pool_go [OF example_closed pool_leave [of _ 0 7]] by (simp add: example_busy_def)
  from pool_go [OF this pool_stop] have "pool_run (?idle\<lparr>fp_server := snd (snd (fast_upload_server_stop (fp_server ?idle)))\<rparr>)" (is "pool_run ?stopping")
    by (simp add: fast_upload_server_stop_def Let_def unregister_worker_def example_busy_def example_server_def new_server_def)
  from pool_go [OF this pool_not_accepted [of _ Accept_failed]] have "pool_run (?stopping\<lparr>fp_accept := Accept_ended\<rparr>)" (is "pool_run ?ended")
    by (simp add: accept_step_def fast_upload_server_stop_def Let_def)
  from pool_go [OF this pool_stopped] have "pool_run (?ended\<lparr>fp_stopped := True\<rparr>)"
    by (simp add: stop_returns_def fast_upload_server_stop_def Let_def unregister_worker_def example_busy_def)
  then show ?thesis by (intro exI [of _ "?ended\<lparr>fp_stopped := True\<rparr>"]) simp
qed

theorem stop_leaves_nothing_behind_witness: "\<exists>p. pool_run p \<and> fp_stopped p \<and> fp_workers p = Map.empty \<and> fp_open p = {}"
  using example_stopped stop_leaves_nothing_behind by blast

text \<open>C40: A stop can shut down a descriptor that is not the listener's any more: a worker closes its connection before it
  gives its slot back, so that there are states in which a stop calls shutdown with a number that is already closed
  and that another thread may meanwhile have been given for something else.\<close>
theorem stop_shuts_closed_descriptor:
  "\<exists>p d. pool_run p \<and> \<not> fs_stopping (fp_server p) \<and> d \<in> set (fst (fast_upload_server_stop (fp_server p))) \<and>
     d \<noteq> fs_listener (fp_server p) \<and> d \<notin> fp_open p"
  by (intro exI [of _ "example_busy False"] exI [of _ 7] conjI example_closed)
    (simp_all add: example_busy_def example_server_def new_server_def fast_upload_server_stop_def FAST_UPLOAD_CONNECTION_LIMIT_def Let_def eval_nat_numeral)

end
