(* ===== verification/Startup.thy ===== *)
theory Startup
  imports FastPool
begin

text \<open>
  \<^verbatim>\<open>src/src/main.c\<close> and the start and stop of \<^verbatim>\<open>src/src/server.c\<close>: the command line, the settings, and the order in
  which the router, the daemon of libmicrohttpd and the fast listener come up and go down.  What the calls of the
  library and of the system return is an argument; what is printed is left out.
\<close>

section \<open>Signals and sleeping\<close>

text \<open>
  The flag \<open>shutdown_requested\<close>, which the handler of both signals sets.  The calls that install the handler are
  \<open>sigemptyset\<close> and twice \<open>sigaction\<close>; a call after a failing one is not made.
\<close>

definition handle_signal :: "bool \<Rightarrow> bool" where "handle_signal requested = True"

definition platform_init :: "bool \<times> bool \<times> bool \<Rightarrow> bool \<Rightarrow> bool \<times> bool" where
  "platform_init calls requested =
     (case calls of (emptied, interrupt, terminate) \<Rightarrow>
        if \<not> emptied \<or> \<not> interrupt \<or> \<not> terminate then (False, requested) else (True, False))"

definition platform_should_shutdown :: "bool \<Rightarrow> bool" where "platform_should_shutdown requested = requested"

text \<open>
  The seconds and nanoseconds that each \<open>nanosleep\<close> is asked for: an interrupted one leaves the rest in the same
  variable.  When the list of results is over, the next call sleeps to its end.
\<close>

datatype nanosleep_result = Slept | Sleep_interrupted "nat \<times> nat" | Sleep_failed

fun nanosleep_loop :: "nat \<times> nat \<Rightarrow> nanosleep_result list \<Rightarrow> (nat \<times> nat) list" where
  "nanosleep_loop duration (Sleep_interrupted rest # results) = duration # nanosleep_loop rest results"
| "nanosleep_loop duration _ = [duration]"

definition platform_sleep_ms :: "u32 \<Rightarrow> nanosleep_result list \<Rightarrow> (nat \<times> nat) list" where
  "platform_sleep_ms milliseconds = nanosleep_loop (unat (milliseconds div 1000), unat (milliseconds mod 1000) * 1000000)"

section \<open>The server\<close>

text \<open>
  \<open>dc_port\<close> is the port that the library says it has bound, \<open>dc_socket\<close> what \<open>getsockname\<close> says of its socket, as
  family and port; the two records are those of the first and the second attempt to start the fast listener.
\<close>

record daemon_calls =
  dc_memory :: bool
  dc_daemon :: "u16 \<Rightarrow> bool"
  dc_port :: "u16 option"
  dc_socket :: "(address_family \<times> u16) option"
  dc_fast :: listen_calls
  dc_fast_again :: listen_calls

text \<open>
  The options that the daemon's connections get, if the library gives the socket: the timeouts are the library's own.
\<close>

definition SERVER_SOCKET_BUFFER_BYTES :: nat where "SERVER_SOCKET_BUFFER_BYTES = 4194304"

definition tune_connection :: "bool \<Rightarrow> bool \<Rightarrow> bool \<Rightarrow> int option \<Rightarrow> (int \<times> socket_option list) option" where
  "tune_connection nodelay nosigpipe started connect_fd =
     (if \<not> started then None
      else case connect_fd of
          None \<Rightarrow> None
        | Some d \<Rightarrow>
            (if d = -1 then None
             else Some (d, [Receive_buffer SERVER_SOCKET_BUFFER_BYTES, Send_buffer SERVER_SOCKET_BUFFER_BYTES] @
               (if nodelay then [No_delay] else []) @ (if nosigpipe then [No_sigpipe] else []))))"

record http_server =
  hs_router :: router
  hs_fast :: fast_server
  hs_bound_port :: u16

definition bound_port_of :: "daemon_calls \<Rightarrow> u16 option" where
  "bound_port_of calls =
     (case dc_port calls of
        None \<Rightarrow> None
      | Some p \<Rightarrow>
          (if p \<noteq> 0 then Some p
           else case dc_socket calls of
               None \<Rightarrow> None
             | Some (family, p) \<Rightarrow> (if family \<in> {AF_INET, AF_INET6} then Some p else None)))"

text \<open>The port next to that of the pages, if the configuration names a port; or else any port.\<close>

definition start_fast :: "daemon_calls \<Rightarrow> u16 \<Rightarrow> u16 \<Rightarrow> fast_server option" where
  "start_fast calls config_port bound_port =
     (let requested = (if config_port \<noteq> 0 \<and> bound_port < 65535 then bound_port + 1 else 0)
      in case fst (fast_upload_server_start (dc_fast calls) bound_port requested) of
          Some f \<Rightarrow> Some f
        | None \<Rightarrow> (if requested \<noteq> 0 then fst (fast_upload_server_start (dc_fast_again calls) bound_port 0) else None))"

text \<open>When a start fails, the daemon, if it ran, is stopped, and the router is destroyed.\<close>

definition server_start :: "environment \<Rightarrow> daemon_calls \<Rightarrow> app_config \<Rightarrow> os \<Rightarrow> http_server option \<times> os" where
  "server_start env calls config s =
     (if \<not> dc_memory calls then (None, s)
      else case router_init env config s of
          (None, s) \<Rightarrow> (None, s)
        | (Some r, s) \<Rightarrow>
            (let destroyed = (case router_destroy r s of None \<Rightarrow> s | Some s \<Rightarrow> s)
             in if \<not> dc_daemon calls (port config) then (None, destroyed)
                else case bound_port_of calls of
                    None \<Rightarrow> (None, destroyed)
                  | Some bound_port \<Rightarrow>
                      (case start_fast calls (port config) bound_port of
                         None \<Rightarrow> (None, destroyed)
                       | Some f \<Rightarrow>
                           (Some \<lparr>hs_router = router_set_fast_upload_port (router_set_port r bound_port) (fast_upload_server_port (Some f)),
                                  hs_fast = f, hs_bound_port = bound_port\<rparr>, s))))"

definition server_port :: "http_server option \<Rightarrow> u16" where
  "server_port server = (case server of None \<Rightarrow> 0 | Some hs \<Rightarrow> hs_bound_port hs)"

text \<open>
  The end, once the fast listener has stopped (\<open>FastPool\<close>) and the library has ended its threads: nothing uses the router
  any more.  \<open>None\<close> is a router that still waits for a direct write.
\<close>

definition server_stop :: "http_server option \<Rightarrow> os \<Rightarrow> os option" where
  "server_stop server s = (case server of None \<Rightarrow> Some s | Some hs \<Rightarrow> router_destroy (hs_router hs) s)"

section \<open>The settings\<close>

definition CONFIG_ERROR_CAPACITY :: nat where "CONFIG_ERROR_CAPACITY = 256"

text \<open>
  Whether the program goes on, and the settings.  A load may leave its message unset; then \<open>garbage\<close> is what the buffer
  holds.
\<close>

definition load_configuration ::
  "environment \<Rightarrow> string \<Rightarrow> string \<Rightarrow> bool \<Rightarrow> os \<Rightarrow> bool \<times> app_config \<times> os" where
  "load_configuration env garbage path allow_missing s =
     (case config_load_file path s of
        ((result, message, config), s) \<Rightarrow>
          (if result = CONFIG_LOAD_OK then (True, config, s)
           else if result = CONFIG_LOAD_NOT_FOUND \<and> allow_missing
           then (True, config,
                 case safe_path_ensure_directory (platform_data_dir (ev_build env) (ev_data_dir env)) s of
                   (False, s) \<Rightarrow> s
                 | (True, s) \<Rightarrow> snd (config_save_file path config s))
           else let notification = ''PS5 LocalSend config error: '' @ (case message of None \<Rightarrow> garbage | Some t \<Rightarrow> t)
                in (False, config,
                    if notification \<noteq> [] \<and> length notification < CONFIG_ERROR_CAPACITY + 40
                    then snd (platform_notify (ev_build env) notification s) else s)))"

section \<open>The command line\<close>

record options =
  op_once :: bool
  op_allow_missing :: bool
  op_check_only :: bool
  op_requested_path :: "string option"
  op_port_override :: int

definition no_options :: options where
  "no_options = \<lparr>op_once = False, op_allow_missing = True, op_check_only = False, op_requested_path = None, op_port_override = -1\<rparr>"

text \<open>\<open>strtoul\<close> reads like \<open>strtoull\<close>, since \<open>unsigned long\<close> has 64 bits.\<close>

definition parse_port :: "string \<Rightarrow> int option" where
  "parse_port t =
     (case strtoull t of
        (parsed, rest, range_error) \<Rightarrow>
          (if range_error \<or> rest = t \<or> rest \<noteq> [] \<or> 65535 < parsed then None else Some (uint parsed)))"

fun parse_arguments :: "string list \<Rightarrow> options \<Rightarrow> options option" where
  "parse_arguments [] op = Some op"
| "parse_arguments (a # rest) op =
     (if a = ''--once'' \<and> \<not> op_once op then parse_arguments rest (op\<lparr>op_once := True\<rparr>)
      else case rest of
          [] \<Rightarrow> None
        | b # rest \<Rightarrow>
            (if a = ''--check-config'' \<and> op_requested_path op = None
             then parse_arguments rest
                    (op\<lparr>op_requested_path := Some b, op_allow_missing := False, op_once := True, op_check_only := True\<rparr>)
             else if a = ''--port'' \<and> op_port_override op < 0
             then (case parse_port b of None \<Rightarrow> None | Some p \<Rightarrow> parse_arguments rest (op\<lparr>op_port_override := p\<rparr>))
             else None))"

definition command_line :: "string list \<Rightarrow> options option" where
  "command_line args =
     (case parse_arguments args no_options of
        None \<Rightarrow> None
      | Some op \<Rightarrow> (if op_check_only op \<and> 0 \<le> op_port_override op then None else Some op))"

section \<open>The program\<close>

text \<open>What the system gives at the start besides the files.\<close>

record boot =
  bt_garbage :: string
  bt_signals :: "bool \<times> bool \<times> bool"
  bt_daemon :: daemon_calls
  bt_interfaces :: "interface list option"

definition ready_message :: "string option \<Rightarrow> u16 \<Rightarrow> string" where
  "ready_message address p =
     take 255 (case address of
                 Some a \<Rightarrow> ''PS5 LocalSend ready at http://'' @ a @ '':'' @ dec_string (unat p) @ ''/''
               | None \<Rightarrow> ''PS5 LocalSend ready on HTTP port '' @ dec_string (unat p))"

text \<open>Up to the loop that waits for a signal: the exit status of a program that ends before, or the running server.\<close>

definition main_start :: "environment \<Rightarrow> boot \<Rightarrow> string list \<Rightarrow> os \<Rightarrow> (nat + http_server) \<times> os" where
  "main_start env bt args s =
     (case command_line args of
        None \<Rightarrow> (Inl 2, s)
      | Some op \<Rightarrow>
          (if \<not> fst (platform_init (bt_signals bt) False) then (Inl 1, s)
           else case (case op_requested_path op of
                        Some path \<Rightarrow> Some path
                      | None \<Rightarrow>
                          (let path = platform_data_dir (ev_build env) (ev_data_dir env) @ ''/config.ini''
                           in if CONFIG_DESTINATION_CAPACITY \<le> length path then None else Some path)) of
               None \<Rightarrow> (Inl 1, s)
             | Some path \<Rightarrow>
                 (case load_configuration env (bt_garbage bt) path (op_allow_missing op) s of
                    (loaded, config, s) \<Rightarrow>
                      (if \<not> loaded then (Inl 1, s)
                       else if op_check_only op then (Inl 0, s)
                       else let config = (if 0 \<le> op_port_override op then config\<lparr>port := of_int (op_port_override op)\<rparr> else config)
                            in case server_start env (bt_daemon bt) config s of
                                (None, s) \<Rightarrow> (Inl 1, s)
                              | (Some hs, s) \<Rightarrow>
                                  (Inr hs, snd (platform_notify (ev_build env)
                                     (ready_message (platform_get_lan_address 64 (bt_interfaces bt)) (server_port (Some hs))) s))))))"

text \<open>
  The loop: how often it sleeps, given for each sleep whether a signal arrives in it.  \<open>None\<close> is a program that still
  runs when the list is over.
\<close>

fun main_wait :: "bool \<Rightarrow> bool \<Rightarrow> bool list \<Rightarrow> nat option" where
  "main_wait once requested signals =
     (if once \<or> platform_should_shutdown requested then Some 0
      else case signals of
          [] \<Rightarrow> None
        | arrives # signals \<Rightarrow> map_option Suc (main_wait once (if arrives then handle_signal requested else requested) signals))"

declare main_wait.simps [simp del]

lemma main_wait_signal: "main_wait False False (replicate n False @ True # signals) = Some (Suc n)"
  by (induction n) (simp_all add: main_wait.simps handle_signal_def platform_should_shutdown_def)

text \<open>The first \<open>nanosleep\<close> is asked for exactly the milliseconds, at any number of them.\<close>

lemma sleep_duration:
  "\<exists>seconds nanoseconds rest. platform_sleep_ms ms results = (seconds, nanoseconds) # rest \<and> nanoseconds < 1000000000 \<and>
    seconds * 1000000000 + nanoseconds = unat ms * 1000000"
proof -
  have loop: "\<exists>rest. nanosleep_loop d results = d # rest" for d
    by (cases results) (auto, metis nanosleep_loop.simps nanosleep_result.exhaust)
  have parts: "n div 1000 * 1000000000 + n mod 1000 * 1000000 = n * 1000000" for n :: nat
    using arg_cong [OF div_mult_mod_eq [of n 1000], of "\<lambda>k. k * 1000000"] by (simp only: distrib_right mult.assoc)
  then show ?thesis
    using loop [of "(unat (ms div 1000), unat (ms mod 1000) * 1000000)"] parts
    by (auto simp: platform_sleep_ms_def unat_div unat_mod)
qed

text \<open>After the loop; the exit status is zero.\<close>

definition main_end :: "http_server \<Rightarrow> os \<Rightarrow> os option" where
  "main_end hs s = server_stop (Some hs) s"

end
