(* ===== verification/UploadQueue.thy ===== *)
theory UploadQueue
  imports Upload
begin

text \<open>
  The ring of write buffers is a queue.  \<open>ring_ok\<close> is its invariant, \<open>ring_contents\<close> the blocks handed to
  the writer, oldest first, and \<open>ring_staged\<close> the bytes collected since the last one.  The locale
  \<open>byte_queue\<close> holds what the users of the ring rely on.
\<close>

section \<open>What a queue of bytes promises\<close>

locale byte_queue =
  fixes ok :: "'q \<Rightarrow> bool" and contents :: "'q \<Rightarrow> 'b list list" and staged :: "'q \<Rightarrow> 'b list"
    and capacity :: nat and stage :: "'b list \<Rightarrow> 'q \<Rightarrow> 'q" and push :: "'q \<Rightarrow> 'q" and pop :: "'q \<Rightarrow> 'q"
    and fits :: "'b list \<Rightarrow> 'q \<Rightarrow> bool"
  assumes length_contents: "ok q \<Longrightarrow> length (contents q) \<le> capacity"
    and stage: "ok q \<Longrightarrow> length (contents q) < capacity \<Longrightarrow> fits x q \<Longrightarrow>
      ok (stage x q) \<and> contents (stage x q) = contents q \<and> staged (stage x q) = staged q @ x"
    and push: "ok q \<Longrightarrow> length (contents q) < capacity \<Longrightarrow>
      ok (push q) \<and> contents (push q) = contents q @ [staged q] \<and> staged (push q) = []"
    and pop: "ok q \<Longrightarrow> contents q \<noteq> [] \<Longrightarrow>
      ok (pop q) \<and> contents (pop q) = tl (contents q) \<and> staged (pop q) = staged q"
begin

text \<open>Everything that is still in the queue, in order.\<close>

definition flow :: "'q \<Rightarrow> 'b list" where
  "flow q = concat (contents q) @ staged q"

lemma flow_stage: "ok q \<Longrightarrow> length (contents q) < capacity \<Longrightarrow> fits x q \<Longrightarrow> flow (stage x q) = flow q @ x"
  using stage by (simp add: flow_def)

lemma flow_push: "ok q \<Longrightarrow> length (contents q) < capacity \<Longrightarrow> flow (push q) = flow q"
  using push by (simp add: flow_def)

lemma flow_pop: "ok q \<Longrightarrow> contents q \<noteq> [] \<Longrightarrow> hd (contents q) @ flow (pop q) = flow q"
  using pop by (cases "contents q") (auto simp: flow_def)

lemma flow_drained: "contents q = [] \<Longrightarrow> flow q = staged q"
  by (simp add: flow_def)

end

section \<open>The ring\<close>

definition ring_index :: "write_queue \<Rightarrow> nat \<Rightarrow> nat" where
  "ring_index q i = (wq_head q + i) mod UPLOAD_WRITE_QUEUE_DEPTH"

definition ring_ok :: "write_queue \<Rightarrow> bool" where
  "ring_ok q \<longleftrightarrow>
     length (wq_slots q) = UPLOAD_WRITE_QUEUE_DEPTH \<and> length (wq_sizes q) = UPLOAD_WRITE_QUEUE_DEPTH \<and>
     wq_head q < UPLOAD_WRITE_QUEUE_DEPTH \<and> wq_queued q \<le> UPLOAD_WRITE_QUEUE_DEPTH \<and>
     wq_tail q = ring_index q (wq_queued q) \<and> wq_buffered q \<le> length (wq_slots q ! wq_tail q) \<and>
     wq_buffered q \<le> UPLOAD_WRITE_BUFFER_BYTES \<and> (wq_queued q = UPLOAD_WRITE_QUEUE_DEPTH \<longrightarrow> wq_buffered q = 0)"

definition ring_block :: "write_queue \<Rightarrow> nat \<Rightarrow> byte list" where
  "ring_block q i = take (wq_sizes q ! ring_index q i) (wq_slots q ! ring_index q i)"

definition ring_contents :: "write_queue \<Rightarrow> byte list list" where
  "ring_contents q = map (ring_block q) [0..<wq_queued q]"

definition ring_staged :: "write_queue \<Rightarrow> byte list" where
  "ring_staged q = take (wq_buffered q) (wq_slots q ! wq_tail q)"

definition ring_fits :: "byte list \<Rightarrow> write_queue \<Rightarrow> bool" where
  "ring_fits piece q \<longleftrightarrow> wq_buffered q + length piece \<le> UPLOAD_WRITE_BUFFER_BYTES"

definition ring_pop :: "write_queue \<Rightarrow> write_queue" where
  "ring_pop q = queue_written (wq_head q) q"

lemma ring_index_less [simp]: "ring_index q i < UPLOAD_WRITE_QUEUE_DEPTH"
  by (simp add: ring_index_def UPLOAD_WRITE_QUEUE_DEPTH_def)

lemma ring_index_neq:
  "i < j \<Longrightarrow> j < i + UPLOAD_WRITE_QUEUE_DEPTH \<Longrightarrow> ring_index q i \<noteq> ring_index q j"
proof
  assume ij: "i < j" "j < i + UPLOAD_WRITE_QUEUE_DEPTH" and eq: "ring_index q i = ring_index q j"
  from eq have "UPLOAD_WRITE_QUEUE_DEPTH dvd (wq_head q + j) - (wq_head q + i)"
    using ij by (intro mod_eq_dvd_iff_nat [THEN iffD1]) (simp_all add: ring_index_def)
  with ij show False by (auto dest: dvd_imp_le)
qed

lemma ring_buffered: "ring_ok q \<Longrightarrow> wq_buffered q \<le> length (wq_slots q ! wq_tail q)"
  and ring_queued: "ring_ok q \<Longrightarrow> wq_queued q \<le> UPLOAD_WRITE_QUEUE_DEPTH"
  unfolding ring_ok_def by blast+

lemma length_ring_contents [simp]: "length (ring_contents q) = wq_queued q"
  by (simp add: ring_contents_def)

lemma ring_contents_empty [simp]: "ring_contents q = [] \<longleftrightarrow> wq_queued q = 0"
  by (simp add: ring_contents_def)

lemma hd_ring_contents:
  "ring_ok q \<Longrightarrow> 0 < wq_queued q \<Longrightarrow> hd (ring_contents q) = take (wq_sizes q ! wq_head q) (wq_slots q ! wq_head q)"
  by (simp add: ring_contents_def hd_map ring_block_def ring_index_def ring_ok_def)

lemma length_overwrite: "offset \<le> length old \<Longrightarrow> length (overwrite old offset data) = max (length old) (offset + length data)"
  by (simp add: overwrite_def)

lemma take_overwrite: "offset \<le> length old \<Longrightarrow> take (offset + length data) (overwrite old offset data) = take offset old @ data"
  by (simp add: overwrite_def)

lemma ring_stage:
  assumes "ring_ok q" "wq_queued q < UPLOAD_WRITE_QUEUE_DEPTH" "ring_fits piece q"
  shows "ring_ok (buffer_bytes piece q) \<and> ring_contents (buffer_bytes piece q) = ring_contents q \<and>
    ring_staged (buffer_bytes piece q) = ring_staged q @ piece"
proof -
  let ?q = "buffer_bytes piece q"
  have fields: "wq_head ?q = wq_head q" "wq_tail ?q = wq_tail q" "wq_queued ?q = wq_queued q" "wq_sizes ?q = wq_sizes q"
    "wq_buffered ?q = wq_buffered q + length piece"
    "wq_slots ?q = (wq_slots q)[wq_tail q := overwrite (wq_slots q ! wq_tail q) (wq_buffered q) piece]"
    by (simp_all add: buffer_bytes_def)
  have index: "ring_index ?q = ring_index q" by (rule ext) (simp add: ring_index_def fields)
  have tail: "wq_tail q < length (wq_slots q)" using assms(1) by (simp add: ring_ok_def)
  have other: "wq_tail q \<noteq> ring_index q i" if "i < wq_queued q" for i
    using ring_index_neq [of i "wq_queued q" q] that assms(1,2) by (simp add: ring_ok_def)
  have "ring_block ?q i = ring_block q i" if "i < wq_queued q" for i
    using other [OF that] by (simp add: ring_block_def index fields)
  then have "ring_contents ?q = ring_contents q" by (simp add: ring_contents_def fields)
  moreover have "wq_buffered q \<le> length (wq_slots q ! wq_tail q)" using assms(1) by (rule ring_buffered)
  with tail have "ring_staged ?q = ring_staged q @ piece" by (simp add: ring_staged_def fields take_overwrite)
  moreover have "ring_ok ?q"
    using assms tail by (auto simp: ring_ok_def fields index ring_fits_def length_overwrite)
  ultimately show ?thesis by simp
qed

lemma ring_push:
  assumes "ring_ok q" "wq_queued q < UPLOAD_WRITE_QUEUE_DEPTH"
  shows "ring_ok (enqueue_buffer q) \<and> ring_contents (enqueue_buffer q) = ring_contents q @ [ring_staged q] \<and>
    ring_staged (enqueue_buffer q) = []"
proof -
  let ?q = "enqueue_buffer q"
  have fields: "wq_head ?q = wq_head q" "wq_tail ?q = (wq_tail q + 1) mod UPLOAD_WRITE_QUEUE_DEPTH"
    "wq_queued ?q = wq_queued q + 1" "wq_sizes ?q = (wq_sizes q)[wq_tail q := wq_buffered q]"
    "wq_buffered ?q = 0" "wq_slots ?q = wq_slots q"
    by (simp_all add: enqueue_buffer_def)
  have index: "ring_index ?q = ring_index q" by (rule ext) (simp add: ring_index_def fields)
  have tail: "wq_tail q < length (wq_sizes q)" "wq_tail q = ring_index q (wq_queued q)" using assms(1) by (simp_all add: ring_ok_def)
  have other: "wq_tail q \<noteq> ring_index q i" if "i < wq_queued q" for i
    using ring_index_neq [of i "wq_queued q" q] that assms by (simp add: ring_ok_def)
  have "ring_block ?q i = ring_block q i" if "i < wq_queued q" for i
    using other [OF that] by (simp add: ring_block_def index fields)
  moreover have "ring_block ?q (wq_queued q) = ring_staged q"
    using tail by (simp add: ring_block_def index fields ring_staged_def)
  ultimately have "ring_contents ?q = ring_contents q @ [ring_staged q]" by (simp add: ring_contents_def fields)
  moreover have "wq_tail ?q = ring_index q (wq_queued q + 1)"
    using tail(2) by (simp add: fields ring_index_def mod_Suc_eq)
  then have "ring_ok ?q"
    using assms tail by (simp add: ring_ok_def fields index)
  ultimately show ?thesis by (simp add: ring_staged_def fields)
qed

lemma ring_pop_correct:
  assumes "ring_ok q" "0 < wq_queued q"
  shows "ring_ok (ring_pop q) \<and> ring_contents (ring_pop q) = tl (ring_contents q) \<and> ring_staged (ring_pop q) = ring_staged q"
proof -
  let ?q = "ring_pop q"
  have fields: "wq_head ?q = (wq_head q + 1) mod UPLOAD_WRITE_QUEUE_DEPTH" "wq_tail ?q = wq_tail q"
    "wq_queued ?q = wq_queued q - 1" "wq_sizes ?q = (wq_sizes q)[wq_head q := 0]" "wq_buffered ?q = wq_buffered q"
    "wq_slots ?q = wq_slots q"
    by (simp_all add: ring_pop_def queue_written_def)
  have index: "ring_index ?q i = ring_index q (Suc i)" for i by (simp add: ring_index_def fields mod_add_left_eq)
  have head: "wq_head q = ring_index q 0" using assms(1) by (simp add: ring_ok_def ring_index_def)
  have "wq_head q \<noteq> ring_index q (Suc i)" if "i < wq_queued q - 1" for i
  proof -
    have "Suc i < UPLOAD_WRITE_QUEUE_DEPTH" using that assms(2) ring_queued [OF assms(1)] by linarith
    with ring_index_neq [of 0 "Suc i" q] head show ?thesis by simp
  qed
  then have "ring_block ?q i = ring_block q (Suc i)" if "i < wq_queued q - 1" for i
    using that by (simp add: ring_block_def index fields)
  then have "ring_contents ?q = map (\<lambda>i. ring_block q (Suc i)) [0..<wq_queued q - 1]" by (simp add: ring_contents_def fields)
  moreover have "ring_contents q = ring_block q 0 # map (\<lambda>i. ring_block q (Suc i)) [0..<wq_queued q - 1]"
    using assms(2) map_upt_Suc [of "ring_block q" "wq_queued q - 1"] by (simp add: ring_contents_def del: upt_Suc)
  moreover have "ring_ok ?q" using assms by (auto simp: ring_ok_def fields index UPLOAD_WRITE_QUEUE_DEPTH_def)
  ultimately show ?thesis by (simp add: ring_staged_def fields)
qed

interpretation ring: byte_queue ring_ok ring_contents ring_staged UPLOAD_WRITE_QUEUE_DEPTH buffer_bytes enqueue_buffer
    ring_pop ring_fits
proof unfold_locales
  fix q show "ring_ok q \<Longrightarrow> length (ring_contents q) \<le> UPLOAD_WRITE_QUEUE_DEPTH" by (simp add: ring_ok_def)
qed (simp_all add: ring_stage ring_push ring_pop_correct)


section \<open>Refinement\<close>

text \<open>
  The operations of the ring as the manager performs them, each under the condition the manager checks
  first, and the same on a plain list of at most four blocks.
\<close>

datatype ring_op = Stage "byte list" | Push | Pop

definition ring_op_allowed :: "ring_op \<Rightarrow> write_queue \<Rightarrow> bool" where
  "ring_op_allowed r q =
     (case r of
        Stage piece \<Rightarrow> wq_queued q \<noteq> UPLOAD_WRITE_QUEUE_DEPTH \<and> length piece \<le> UPLOAD_WRITE_BUFFER_BYTES - wq_buffered q
      | Push \<Rightarrow> wq_buffered q \<noteq> 0 \<and> wq_queued q \<noteq> UPLOAD_WRITE_QUEUE_DEPTH
      | Pop \<Rightarrow> wq_queued q \<noteq> 0)"

definition ring_step :: "ring_op \<Rightarrow> write_queue \<Rightarrow> byte list list \<times> write_queue" where
  "ring_step r q =
     (if \<not> ring_op_allowed r q then ([], q)
      else case r of
          Stage piece \<Rightarrow> ([], buffer_bytes piece q)
        | Push \<Rightarrow> ([], enqueue_buffer q)
        | Pop \<Rightarrow> ([take (wq_sizes q ! wq_head q) (wq_slots q ! wq_head q)], queue_written (wq_head q) q))"

fun ring_run :: "ring_op list \<Rightarrow> write_queue \<Rightarrow> byte list list \<times> write_queue" where
  "ring_run [] q = ([], q)"
| "ring_run (r # rs) q = (case ring_step r q of (out, q) \<Rightarrow> (case ring_run rs q of (outs, q) \<Rightarrow> (out @ outs, q)))"

type_synonym fifo = "byte list list \<times> byte list"

definition fifo_step :: "ring_op \<Rightarrow> fifo \<Rightarrow> byte list list \<times> fifo" where
  "fifo_step r f =
     (case f of
        (blocks, staged) \<Rightarrow>
          (case r of
             Stage piece \<Rightarrow>
               (if length blocks \<noteq> UPLOAD_WRITE_QUEUE_DEPTH \<and> length piece \<le> UPLOAD_WRITE_BUFFER_BYTES - length staged
                then ([], blocks, staged @ piece) else ([], f))
           | Push \<Rightarrow>
               (if staged \<noteq> [] \<and> length blocks \<noteq> UPLOAD_WRITE_QUEUE_DEPTH then ([], blocks @ [staged], []) else ([], f))
           | Pop \<Rightarrow> (if blocks \<noteq> [] then ([hd blocks], tl blocks, staged) else ([], f))))"

fun fifo_run :: "ring_op list \<Rightarrow> fifo \<Rightarrow> byte list list \<times> fifo" where
  "fifo_run [] f = ([], f)"
| "fifo_run (r # rs) f = (case fifo_step r f of (out, f) \<Rightarrow> (case fifo_run rs f of (outs, f) \<Rightarrow> (out @ outs, f)))"

definition ring_fifo :: "write_queue \<Rightarrow> fifo" where
  "ring_fifo q = (ring_contents q, ring_staged q)"

lemma length_ring_staged: "ring_ok q \<Longrightarrow> length (ring_staged q) = wq_buffered q"
  using ring_buffered [of q] by (simp add: ring_staged_def)

lemma ring_step_refines:
  assumes "ring_ok q"
  shows "ring_ok (snd (ring_step r q)) \<and>
    fifo_step r (ring_fifo q) = (fst (ring_step r q), ring_fifo (snd (ring_step r q)))"
proof (cases "ring_op_allowed r q")
  case False
  with assms show ?thesis
    by (cases r) (auto simp: ring_op_allowed_def ring_step_def fifo_step_def ring_fifo_def length_ring_staged
        simp flip: length_greater_0_conv)
next
  case True
  have room: "wq_queued q < UPLOAD_WRITE_QUEUE_DEPTH" if "wq_queued q \<noteq> UPLOAD_WRITE_QUEUE_DEPTH"
    using that ring_queued [OF assms] by simp
  show ?thesis
  proof (cases r)
    case (Stage piece)
    then have "ring_fits piece q" "wq_queued q < UPLOAD_WRITE_QUEUE_DEPTH"
      using True assms room by (auto simp: ring_op_allowed_def ring_fits_def ring_ok_def)
    from ring.stage [OF assms _ this(1)] this True Stage show ?thesis
      by (simp add: ring_step_def fifo_step_def ring_fifo_def ring_op_allowed_def length_ring_staged assms)
  next
    case Push
    then have "wq_queued q < UPLOAD_WRITE_QUEUE_DEPTH" using True room by (simp add: ring_op_allowed_def)
    moreover have "ring_staged q \<noteq> []"
      using True Push length_ring_staged [OF assms] by (auto simp: ring_op_allowed_def)
    ultimately show ?thesis using ring.push [OF assms] True Push
      by (simp add: ring_step_def fifo_step_def ring_fifo_def ring_op_allowed_def)
  next
    case Pop
    then have "0 < wq_queued q" using True by (simp add: ring_op_allowed_def)
    with ring.pop [OF assms] True Pop hd_ring_contents [OF assms] show ?thesis
      by (simp add: ring_step_def fifo_step_def ring_fifo_def ring_op_allowed_def ring_pop_def)
  qed
qed

lemma ring_run_refines:
  "ring_ok q \<Longrightarrow> fifo_run rs (ring_fifo q) = (fst (ring_run rs q), ring_fifo (snd (ring_run rs q)))"
proof (induction rs arbitrary: q)
  case (Cons r rs)
  from ring_step_refines [OF Cons.prems, of r] Cons.IH [of "snd (ring_step r q)"] show ?case
    by (simp split: prod.splits)
qed simp

lemma ring_ok_empty: "length slots = UPLOAD_WRITE_QUEUE_DEPTH \<Longrightarrow> ring_ok (empty_queue slots)"
  by (simp add: ring_ok_def empty_queue_def ring_index_def UPLOAD_WRITE_QUEUE_DEPTH_def)

lemma ring_fifo_empty: "ring_fifo (empty_queue slots) = ([], [])"
  by (simp add: ring_fifo_def ring_staged_def ring_contents_def empty_queue_def)

text \<open>C15: The ring of four write buffers is a queue: whatever sequence of collecting bytes, handing over a buffer and
  taking one for the writer is performed on it (whatever old bytes the buffers still hold), the blocks that come out
  and everything that can be observed afterwards are those of a plain bounded list of blocks; no block is lost,
  repeated, reordered or overwritten while it waits.\<close>
theorem ring_refines_fifo:
  "fifo_run rs ([], []) = (let (out, q) = ring_run rs (empty_queue [a, b, c, d]) in (out, ring_fifo q))"
  using ring_run_refines [OF ring_ok_empty [of "[a, b, c, d]"]]
  by (simp add: ring_fifo_empty UPLOAD_WRITE_QUEUE_DEPTH_def split: prod.splits)

end
