(* ===== verification/UploadSlot.thy ===== *)
theory UploadSlot
  imports UploadQueue
begin

text \<open>
  What ends an upload: \<open>clear_slot\<close>, the lease, and two calls that end an upload of another client.
  A system is \<open>calm\<close> when no call of it fails and its clock stands still.
\<close>

section \<open>Clearing\<close>

definition cleared :: "upload_manager \<Rightarrow> bool" where
  "cleared m \<longleftrightarrow> mg_slot m = empty_slot \<and> mg_chunks m = no_chunks \<and> mg_timing m = no_timing \<and>
     wq_queued (mg_queue m) = 0 \<and> wq_buffered (mg_queue m) = 0 \<and> wt_error (mg_writer m) = E0 \<and>
     \<not> wt_discard (mg_writer m)"

lemma clear_slot_cleared: "clear_slot r m s = (ok, m', s') \<Longrightarrow> cleared m'"
  by (auto simp: clear_slot_def cleared_def reset_queue_def empty_queue_def split: prod.splits)

lemma cleared_free [simp]: "cleared m \<Longrightarrow> \<not> owns m upload_id"
  by (simp add: cleared_def owns_def empty_slot_def)

lemma reap_locked_cases:
  assumes "reap_locked now m s = (m', s')"
  obtains "\<not> lease_expired m now" "m' = m" "s' = s" | "lease_expired m now" "cleared m'"
proof (cases "lease_expired m now")
  case True
  obtain ok u v where c: "clear_slot True m s = (ok, u, v)" by (rule prod_cases3)
  with True assms have "m' = u" by (simp add: reap_locked_def)
  with True that(2) clear_slot_cleared [OF c] show thesis by simp
next
  case False
  with assms have "m' = m" "s' = s" by (simp_all add: reap_locked_def)
  with False that(1) show thesis by simp
qed

lemma read_seconds_store: "read_seconds s = (now, t) \<Longrightarrow> same_store s t \<and> os_faults t = os_faults s"
  by (auto simp: read_seconds_def same_store_def split: list.splits)

lemma read_nanos_store: "read_nanos s = (now, t) \<Longrightarrow> same_store s t \<and> os_faults t = os_faults s \<and> os_seconds t = os_seconds s"
  by (auto simp: read_nanos_def same_store_def split: list.splits)

text \<open>The lease check either changes nothing but the clock or clears the slot.\<close>

lemma reap_now_cases:
  assumes "reap_now m s = (m', s')"
  obtains (kept) "m' = m" "same_store s s'" "os_faults s' = os_faults s" "s' = snd (read_seconds s)"
      "\<not> lease_expired m (fst (read_seconds s))"
    | (expired) "cleared m'" "lease_expired m (fst (read_seconds s))"
proof -
  obtain now t where r: "read_seconds s = (now, t)" by force
  note store = read_seconds_store [OF r]
  from assms r have "reap_locked now m t = (m', s')" by (simp add: reap_now_def)
  then show thesis
  proof (rule reap_locked_cases)
    assume "\<not> lease_expired m now" "m' = m" "s' = t"
    with kept store r show thesis by simp
  next
    assume "lease_expired m now" "cleared m'"
    with expired r show thesis by simp
  qed
qed

lemma reap_now_owns: "reap_now m s = (m', s') \<Longrightarrow> owns m' upload_id \<Longrightarrow>
    m' = m \<and> same_store s s' \<and> os_faults s' = os_faults s \<and> s' = snd (read_seconds s)"
  by (erule reap_now_cases) auto

lemma reap_now_foreign: "reap_now m s = (m', s') \<Longrightarrow> \<not> owns m upload_id \<Longrightarrow> \<not> owns m' upload_id"
  by (erule reap_now_cases) auto

section \<open>Two calls that end the upload of another client\<close>

text \<open>C17: A second request to prepare an upload destroys the one in progress: while an upload is being received (its
  slot is occupied and started, its file is open and its lease runs), a well-formed request of any client is answered
  with 'busy', and afterwards the slot is empty: the client that was sending gets 'not found' for its next bytes.\<close>
theorem busy_prepare_ends_upload:
  assumes "length client < 64" "length authorization < UPLOAD_AUTH_BYTES" "length body \<le> UPLOAD_METADATA_BYTES"
    "parse_metadata (SAFE_PATH_NAME_BYTES + 1) (Some body) = Some (requested, amount, hash)" "amount \<le> mg_max_file_bytes m"
    "sl_occupied (mg_slot m)" "sl_started (mg_slot m)" "sl_fd (mg_slot m) \<noteq> None" "\<not> lease_expired m (fst (read_seconds s))"
  shows "\<exists>m' s'. upload_prepare b m client authorization (Some body) s = (UPLOAD_BUSY, None, m', s') \<and>
    mg_slot m' = empty_slot \<and> (\<exists>m'' s''. upload_write m' (sl_id (mg_slot m)) data s' = Some (UPLOAD_NOT_FOUND, m'', s''))"
proof -
  obtain now t where r: "read_seconds s = (now, t)" by force
  have reap: "reap_now m s = (m, t)" using assms(9) r by (simp add: reap_now_def reap_locked_def)
  obtain ok m' s' where c: "clear_slot True m t = (ok, m', s')" by (rule prod_cases3)
  note cleared = clear_slot_cleared [OF c]
  have "upload_prepare b m client authorization (Some body) s = (UPLOAD_BUSY, None, m', s')"
    unfolding upload_prepare_def using assms(1-8) reap c by (simp add: Let_def)
  moreover obtain m2 s2 where w: "reap_now m' s' = (m2, s2)" by force
  from cleared have "\<not> owns m2 (sl_id (mg_slot m))" using reap_now_foreign [OF w] by simp
  with w have "upload_write m' (sl_id (mg_slot m)) data s' = Some (UPLOAD_NOT_FOUND, m2, s2)" by (simp add: upload_write_def)
  ultimately show ?thesis using cleared by (auto simp: cleared_def)
qed

text \<open>C18: A late call to finish ends the upload of another client: finishing with an id that is not the current one (an
  upload that was cancelled, or whose lease ran out while its last bytes arrived) reports 'not found' or, when the
  cleaning fails, an input/output error, and leaves the slot empty, whoever had occupied it.\<close>
theorem stale_finish_ends_upload:
  assumes "sl_id (mg_slot m) \<noteq> upload_id"
  shows "\<exists>r digest m' s'. upload_finish_with_metrics b m upload_id s = Some (r, digest, m', s') \<and>
    r \<in> {UPLOAD_NOT_FOUND, UPLOAD_IO_ERROR} \<and> mg_slot m' = empty_slot"
proof -
  obtain m1 s1 where reap: "reap_now m s = (m1, s1)" by force
  have foreign: "\<not> owns m1 upload_id" using reap_now_foreign [OF reap] assms by (simp add: owns_def)
  obtain ok m2 s2 where c: "clear_slot True m1 s1 = (ok, m2, s2)" by (rule prod_cases3)
  have "upload_finish_with_metrics b m upload_id s =
      Some (if ok then UPLOAD_NOT_FOUND else UPLOAD_IO_ERROR, [], m2, s2)"
    using foreign reap c
    by (simp add: upload_finish_with_metrics_def upload_finish_start_def upload_finish_end_def clear_failed_def)
  then show ?thesis using clear_slot_cleared [OF c] by (auto simp: cleared_def)
qed

section \<open>Examples\<close>

definition idle_manager :: upload_manager where
  "idle_manager =
     \<lparr>mg_queue = empty_queue (replicate UPLOAD_WRITE_QUEUE_DEPTH []), mg_writer = idle_writer, mg_chunks = no_chunks,
      mg_slot = empty_slot, mg_timing = no_timing, mg_destination = ''/data/in'', mg_max_file_bytes = 1000, mg_max_files = 10,
      mg_lease_seconds = 60, mg_completed_files = 0, mg_completed_authorization = [], mg_has_last_metrics = False,
      mg_last_completed_size = 0, mg_last_metrics = no_metrics\<rparr>"

text \<open>An upload of three bytes of which none has arrived.\<close>

definition receiving_manager :: upload_manager where
  "receiving_manager =
     on_slot (\<lambda>x. x\<lparr>sl_occupied := True, sl_started := True, sl_fd := Some 3, sl_expected := 3, sl_id := ''a'',
       sl_client := ''c'', sl_authorization := ''t'', sl_part_path := ''/data/in/p'', sl_final_path := ''/data/in/f''\<rparr>) idle_manager"

definition small_body :: "byte list" where
  "small_body = map uchar (metadata_text ''f'' 3 ''t'' [])"

lemma small_body_parsed: "parse_metadata (SAFE_PATH_NAME_BYTES + 1) (Some small_body) = Some (''f'', 3, [])"
  unfolding small_body_def by (rule parse_metadata_text) code_simp+

lemma small_body_length: "length small_body \<le> UPLOAD_METADATA_BYTES"
  by code_simp

theorem busy_prepare_ends_upload_witness:
  "\<exists>m s. upload_prepare PS5 receiving_manager ''other'' ''u'' (Some small_body) (mounted [''/data'', ''/data/in'']) = (UPLOAD_BUSY, None, m, s) \<and>
    mg_slot m = empty_slot"
proof -
  have "\<not> lease_expired receiving_manager (fst (read_seconds (mounted [''/data'', ''/data/in''])))"
    by (simp add: lease_expired_def receiving_manager_def empty_slot_def idle_manager_def)
  with busy_prepare_ends_upload [of "''other''" "''u''" small_body "''f''" 3 "[]" receiving_manager _ PS5 "[1]",
      OF _ _ small_body_length small_body_parsed]
  show ?thesis by (fastforce simp: receiving_manager_def idle_manager_def UPLOAD_AUTH_BYTES_def)
qed

theorem stale_finish_ends_upload_witness:
  "\<exists>r digest m s. upload_finish_with_metrics PS5 receiving_manager ''stale'' (mounted [''/data'', ''/data/in'']) = Some (r, digest, m, s) \<and>
    sl_occupied (mg_slot receiving_manager) \<and> mg_slot m = empty_slot"
  using stale_finish_ends_upload [of receiving_manager "''stale''" PS5 "mounted [''/data'', ''/data/in'']"]
  by (auto simp: receiving_manager_def)

end
