(* ===== verification/UploadStream.thy ===== *)
theory UploadStream
  imports UploadSlot
begin

text \<open>
  An upload that arrives as one stream.  \<open>streaming d n data m s\<close> is its invariant: what has been written
  to the file \<open>n\<close>, followed by what is still in the ring, is the \<open>data\<close> received so far, unless the writer
  has failed; the hash and the counter are those of \<open>data\<close>.
\<close>

section \<open>The invariant\<close>

text \<open>The writer is idle or writes the oldest block of the ring.\<close>

definition queue_job :: "upload_manager \<Rightarrow> bool" where
  "queue_job m \<longleftrightarrow>
     (let q = mg_queue m; w = mg_writer m
      in if wt_active w
         then 0 < wq_queued q \<and> wt_job w = Some (Queue_job (wq_head q) (wq_slots q ! wq_head q) (wq_sizes q ! wq_head q))
         else wt_job w = None)"

definition stream_slot :: "nat \<Rightarrow> byte list \<Rightarrow> upload_slot \<Rightarrow> bool" where
  "stream_slot d data x \<longleftrightarrow> sl_occupied x \<and> sl_started x \<and> \<not> sl_fast_direct x \<and> sl_fd x = Some d \<and>
     sha_holds (sl_sha256 x) data \<and> sl_received x = of_nat (length data) \<and> length data \<le> unat (sl_expected x)"

definition streaming :: "nat \<Rightarrow> nat \<Rightarrow> byte list \<Rightarrow> upload_manager \<Rightarrow> os \<Rightarrow> bool" where
  "streaming d n data m s \<longleftrightarrow>
     ring_ok (mg_queue m) \<and> queue_job m \<and> \<not> wt_shutdown (mg_writer m) \<and> \<not> wt_discard (mg_writer m) \<and>
     \<not> ct_transport (mg_chunks m) \<and> stream_slot d data (mg_slot m) \<and>
     os_names s (sl_part_path (mg_slot m)) = Some (Regular n) \<and>
     (\<exists>written. stored d n (unat (sl_expected (mg_slot m))) written s \<and>
        (wt_error (mg_writer m) = E0 \<longrightarrow> written @ ring.flow (mg_queue m) = data))"

text \<open>When no call fails: nothing but the clock of the model's script is consumed.\<close>

definition undisturbed :: "os \<Rightarrow> os \<Rightarrow> bool" where
  "undisturbed s t \<longleftrightarrow> (os_faults s = [] \<longrightarrow> os_faults t = [] \<and> os_seconds t = os_seconds s)"

lemma undisturbed_refl [simp]: "undisturbed s s"
  by (simp add: undisturbed_def)

lemma undisturbed_trans: "undisturbed s t \<Longrightarrow> undisturbed t u \<Longrightarrow> undisturbed s u"
  by (simp add: undisturbed_def)

section \<open>The writer\<close>

lemma writer_done_queue:
  assumes "wt_job (mg_writer m) = Some (Queue_job i buffer len)" "writer_done m s = (m', s')"
  obtains e s1 s2 t where "same_store s s1" "os_faults s1 = os_faults s" "os_seconds s1 = os_seconds s"
    "write_all (sl_fd (mg_slot m)) (take len buffer) s1 = (e, s2)"
    "same_store s2 s'" "os_faults s' = os_faults s2" "os_seconds s' = os_seconds s2"
    "m' = m\<lparr>mg_timing := t, mg_queue := queue_written i (mg_queue m),
       mg_writer := (mg_writer m)\<lparr>wt_active := False, wt_job := None,
         wt_error := (if e \<noteq> E0 \<and> wt_error (mg_writer m) = E0 then e else wt_error (mg_writer m))\<rparr>\<rparr>"
proof -
  obtain start s1 where r1: "read_nanos s = (start, s1)" by force
  obtain e s2 where w: "write_all (sl_fd (mg_slot m)) (take len buffer) s1 = (e, s2)" by force
  obtain finish s3 where r2: "read_nanos s2 = (finish, s3)" by force
  note n1 = read_nanos_store [OF r1] and n2 = read_nanos_store [OF r2]
  let ?m = "m\<lparr>mg_timing := (mg_timing m)\<lparr>tm_write_elapsed := tm_write_elapsed (mg_timing m) + elapsed_nanoseconds start finish\<rparr>,
      mg_queue := queue_written i (mg_queue m),
      mg_writer := (mg_writer m)\<lparr>wt_active := False, wt_job := None,
        wt_error := (if e \<noteq> E0 \<and> wt_error (mg_writer m) = E0 then e else wt_error (mg_writer m))\<rparr>\<rparr>"
  have "writer_done m s = (?m, s3)" by (simp add: writer_done_def Let_def assms(1) r1 w r2)
  with assms(2) have "m' = ?m" "s' = s3" by simp_all
  with that [OF _ _ _ w _ _ _ this(1)] n1 n2 show thesis by simp
qed

lemma streaming_writer_done:
  assumes inv: "streaming d n data m s" and active: "wt_active (mg_writer m)" and step: "writer_done m s = (m', s')"
  shows "streaming d n data m' s'" and "wq_queued (mg_queue m') < wq_queued (mg_queue m)"
    and "mg_slot m' = mg_slot m" and "ring_staged (mg_queue m') = ring_staged (mg_queue m)" and "only_file n s s'"
    and "undisturbed s s'" and "os_faults s = [] \<Longrightarrow> wt_error (mg_writer m') = wt_error (mg_writer m)"
    and "mg_chunks m' = mg_chunks m" and "mg_lease_seconds m' = mg_lease_seconds m"
    and "wq_buffered (mg_queue m') = wq_buffered (mg_queue m)"
    and "wt_error (mg_writer m') = E0 \<Longrightarrow> wt_error (mg_writer m) = E0"
proof -
  let ?q = "mg_queue m"
  from inv active have job: "0 < wq_queued ?q"
    "wt_job (mg_writer m) = Some (Queue_job (wq_head ?q) (wq_slots ?q ! wq_head ?q) (wq_sizes ?q ! wq_head ?q))"
    by (simp_all add: streaming_def queue_job_def Let_def)
  from inv have ring: "ring_ok ?q" and fd: "sl_fd (mg_slot m) = Some d" by (simp_all add: streaming_def stream_slot_def)
  obtain written where written: "stored d n (unat (sl_expected (mg_slot m))) written s"
    "wt_error (mg_writer m) = E0 \<longrightarrow> written @ ring.flow ?q = data" using inv by (auto simp: streaming_def)
  obtain e s1 s2 t where s1: "same_store s s1" "os_faults s1 = os_faults s" "os_seconds s1 = os_seconds s"
    and written_block: "write_all (sl_fd (mg_slot m)) (take (wq_sizes ?q ! wq_head ?q) (wq_slots ?q ! wq_head ?q)) s1 = (e, s2)"
    and s2: "same_store s2 s'" "os_faults s' = os_faults s2" "os_seconds s' = os_seconds s2"
    and result: "m' = m\<lparr>mg_timing := t, mg_queue := queue_written (wq_head ?q) ?q,
       mg_writer := (mg_writer m)\<lparr>wt_active := False, wt_job := None,
         wt_error := (if e \<noteq> E0 \<and> wt_error (mg_writer m) = E0 then e else wt_error (mg_writer m))\<rparr>\<rparr>"
    by (rule writer_done_queue [OF job(2) step])
  note w = written_block [unfolded fd, folded hd_ring_contents [OF ring job(1)]] and m' = result [folded ring_pop_def]
  note pop = ring_pop_correct [OF ring job(1)]
  have "stored d n (unat (sl_expected (mg_slot m))) written s1"
    using written(1) s1(1) by (simp add: same_store_def stored_def)
  from write_all_stored [OF w this] obtain k where
    k: "stored d n (unat (sl_expected (mg_slot m))) (written @ take k (hd (ring_contents ?q))) s2" "only_file n s1 s2"
      "e = E0 \<longrightarrow> k = length (hd (ring_contents ?q))" by auto
  have on_disk: "stored d n (unat (sl_expected (mg_slot m))) (written @ take k (hd (ring_contents ?q))) s'"
    using k(1) s2(1) by (simp add: same_store_def stored_def)
  show only: "only_file n s s'" using k(2) s1(1) s2(1) by (simp add: only_file_def same_store_def)
  have flow: "hd (ring_contents ?q) @ ring.flow (ring_pop ?q) = ring.flow ?q"
    using ring.flow_pop [OF ring] job(1) by simp
  show "streaming d n data m' s'"
    using inv pop on_disk only written(2) k(3) flow
    by (auto simp: streaming_def m' queue_job_def Let_def only_file_def intro!: exI [of _ "written @ take k (hd (ring_contents ?q))"])
  show "wq_queued (mg_queue m') < wq_queued (mg_queue m)" "mg_slot m' = mg_slot m"
    "ring_staged (mg_queue m') = ring_staged (mg_queue m)" "wq_buffered (mg_queue m') = wq_buffered (mg_queue m)"
    "mg_chunks m' = mg_chunks m" "mg_lease_seconds m' = mg_lease_seconds m"
    using job(1) pop by (simp_all add: m' ring_pop_def queue_written_def)
  show "wt_error (mg_writer m') = E0 \<Longrightarrow> wt_error (mg_writer m) = E0" by (simp add: m' split: if_splits)
  have calm: "e = E0 \<and> os_faults s' = [] \<and> os_seconds s' = os_seconds s" if "os_faults s = []"
    using write_all_faultless [OF _ _ w] that s1 s2 written(1) by (simp add: stored_def same_store_def)
  then show "undisturbed s s'" "os_faults s = [] \<Longrightarrow> wt_error (mg_writer m') = wt_error (mg_writer m)"
    by (simp_all add: undisturbed_def m')
qed

lemma writer_take_queue:
  assumes "streaming d n data m s" "\<not> wt_active (mg_writer m)" "writer_ready m"
  shows "streaming d n data (writer_take m) s" "wt_active (mg_writer (writer_take m))" "0 < wq_queued (mg_queue m)"
    "mg_slot (writer_take m) = mg_slot m" "mg_chunks (writer_take m) = mg_chunks m" "mg_queue (writer_take m) = mg_queue m"
    "mg_lease_seconds (writer_take m) = mg_lease_seconds m" "wt_error (mg_writer (writer_take m)) = wt_error (mg_writer m)"
proof -
  have "\<not> chunk_ready_for_writer (mg_chunks m)" using assms(1) by (simp add: streaming_def chunk_ready_for_writer_def)
  then show queued: "0 < wq_queued (mg_queue m)" using assms(3) by (simp add: writer_ready_def)
  then have take: "writer_take m = m\<lparr>mg_writer := (mg_writer m)\<lparr>wt_active := True,
      wt_job := Some (Queue_job (wq_head (mg_queue m)) (wq_slots (mg_queue m) ! wq_head (mg_queue m)) (wq_sizes (mg_queue m) ! wq_head (mg_queue m)))\<rparr>\<rparr>"
    by (simp add: writer_take_def Let_def)
  from assms(1) queued show "streaming d n data (writer_take m) s"
    by (simp add: take streaming_def queue_job_def)
  show "wt_active (mg_writer (writer_take m))" "mg_slot (writer_take m) = mg_slot m" "mg_chunks (writer_take m) = mg_chunks m"
    "mg_queue (writer_take m) = mg_queue m" "mg_lease_seconds (writer_take m) = mg_lease_seconds m" "wt_error (mg_writer (writer_take m)) = wt_error (mg_writer m)" by (simp_all add: take)
qed

section \<open>Waiting\<close>

text \<open>What a wait keeps: everything but the writer, the blocks it has taken, and its time.\<close>

definition waited :: "upload_manager \<Rightarrow> upload_manager \<Rightarrow> bool" where
  "waited m m' \<longleftrightarrow> mg_slot m' = mg_slot m \<and> mg_chunks m' = mg_chunks m \<and> mg_lease_seconds m' = mg_lease_seconds m \<and>
     ring_staged (mg_queue m') = ring_staged (mg_queue m) \<and> wq_buffered (mg_queue m') = wq_buffered (mg_queue m) \<and>
     wq_queued (mg_queue m') \<le> wq_queued (mg_queue m)"

lemma waited_refl [simp]: "waited m m"
  by (simp add: waited_def)

lemma waited_trans: "waited m m1 \<Longrightarrow> waited m1 m2 \<Longrightarrow> waited m m2"
  by (simp add: waited_def)

text \<open>What happens between two states of a stream.\<close>

definition stream_progress :: "nat \<Rightarrow> upload_manager \<Rightarrow> os \<Rightarrow> upload_manager \<Rightarrow> os \<Rightarrow> bool" where
  "stream_progress n m s m' s' \<longleftrightarrow> only_file n s s' \<and> undisturbed s s' \<and>
     (os_faults s = [] \<longrightarrow> wt_error (mg_writer m') = wt_error (mg_writer m)) \<and>
     (wt_error (mg_writer m') = E0 \<longrightarrow> wt_error (mg_writer m) = E0)"

lemma stream_progress_refl [simp]: "stream_progress n m s m s"
  by (simp add: stream_progress_def only_file_def)

lemma stream_progress_trans: "stream_progress n m s m1 s1 \<Longrightarrow> stream_progress n m1 s1 m2 s2 \<Longrightarrow> stream_progress n m s m2 s2"
  by (auto simp: stream_progress_def undisturbed_def intro: only_file_trans)

lemma stream_writer_step:
  assumes inv: "streaming d n data m s" and ready: "wt_active (mg_writer m) \<or> writer_ready m"
  defines "m1 \<equiv> if wt_active (mg_writer m) then m else writer_take m"
  obtains m' s' where "writer_done m1 s = (m', s')" "streaming d n data m' s'" "waited m m'"
    "wq_queued (mg_queue m') < wq_queued (mg_queue m)" "stream_progress n m s m' s'"
proof -
  have taken: "streaming d n data m1 s \<and> wt_active (mg_writer m1) \<and> waited m m1 \<and> mg_queue m1 = mg_queue m \<and>
      wt_error (mg_writer m1) = wt_error (mg_writer m)"
  proof (cases "wt_active (mg_writer m)")
    case False
    with ready have "writer_ready m" by simp
    from writer_take_queue [OF inv False this] False show ?thesis by (simp add: m1_def waited_def)
  qed (use inv in \<open>simp add: m1_def\<close>)
  obtain m' s' where finished: "writer_done m1 s = (m', s')" by force
  from taken have "streaming d n data m1 s" "wt_active (mg_writer m1)" by simp_all
  note step = streaming_writer_done [OF this finished]
  show thesis
    by (rule that [OF finished step(1)]) (use step taken in \<open>auto simp: waited_def stream_progress_def\<close>)
qed

text \<open>A wait for room or for an empty queue ends: every job of the writer shortens the queue.\<close>

lemma await_streaming:
  assumes "streaming d n data m s"
    and "\<And>m s. streaming d n data m s \<Longrightarrow> waiting m \<Longrightarrow> wt_error (mg_writer m) = E0 \<and> wq_queued (mg_queue m) \<noteq> 0"
  shows "\<exists>m' s'. await waiting m s = Some (m', s') \<and> streaming d n data m' s' \<and> waited m m' \<and> \<not> waiting m' \<and>
    stream_progress n m s m' s'"
  using assms(1)
proof (induction "wq_queued (mg_queue m)" arbitrary: m s rule: less_induct)
  case less
  show ?case
  proof (cases "waiting m")
    case False
    with less.prems show ?thesis by (simp add: await.simps)
  next
    case True
    from assms(2) [OF less.prems True] less.prems have ready: "wt_active (mg_writer m) \<or> writer_ready m"
      by (simp add: writer_ready_def streaming_def)
    define m1 where "m1 = (if wt_active (mg_writer m) then m else writer_take m)"
    obtain m2 s2 where step: "writer_done m1 s = (m2, s2)" "streaming d n data m2 s2" "waited m m2"
      "wq_queued (mg_queue m2) < wq_queued (mg_queue m)" "stream_progress n m s m2 s2"
      using stream_writer_step [OF less.prems ready] unfolding m1_def by metis
    have "await waiting m s = await waiting m2 s2"
      using True ready step(1) by (subst await.simps) (simp add: m1_def split: if_splits)
    with less.hyps [OF step(4,2)] step(3,5) show ?thesis
      by (auto intro: waited_trans stream_progress_trans)
  qed
qed

section \<open>Writing\<close>

definition same_terms :: "upload_manager \<Rightarrow> upload_manager \<Rightarrow> bool" where
  "same_terms m m' \<longleftrightarrow> sl_id (mg_slot m') = sl_id (mg_slot m) \<and> sl_expected (mg_slot m') = sl_expected (mg_slot m) \<and>
     sl_final_path (mg_slot m') = sl_final_path (mg_slot m) \<and> sl_part_path (mg_slot m') = sl_part_path (mg_slot m) \<and>
     sl_expected_hash (mg_slot m') = sl_expected_hash (mg_slot m) \<and> mg_lease_seconds m' = mg_lease_seconds m \<and>
     mg_chunks m' = mg_chunks m"

lemma same_terms_refl [simp]: "same_terms m m"
  by (simp add: same_terms_def)

lemma same_terms_trans: "same_terms m m1 \<Longrightarrow> same_terms m1 m2 \<Longrightarrow> same_terms m m2"
  by (simp add: same_terms_def)

lemma waited_same_terms: "waited m m' \<Longrightarrow> same_terms m m'"
  by (simp add: waited_def same_terms_def)

text \<open>There is room in the buffer being filled, unless the writer has failed.\<close>

definition buffer_room :: "upload_manager \<Rightarrow> bool" where
  "buffer_room m \<longleftrightarrow> (wt_error (mg_writer m) = E0 \<longrightarrow> wq_buffered (mg_queue m) < UPLOAD_WRITE_BUFFER_BYTES)"

lemma touch_outcome:
  assumes "touch m s = (m', s')"
  shows "m' = on_slot (\<lambda>x. x\<lparr>sl_last_activity := fst (read_seconds s)\<rparr>) m" "same_store s s'" "os_faults s' = os_faults s"
    "s' = snd (read_seconds s)"
proof -
  obtain now t where r: "read_seconds s = (now, t)" by force
  from assms r have "m' = on_slot (\<lambda>x. x\<lparr>sl_last_activity := now\<rparr>) m" "s' = t" by (simp_all add: touch_def)
  with read_seconds_store [OF r] r show "m' = on_slot (\<lambda>x. x\<lparr>sl_last_activity := fst (read_seconds s)\<rparr>) m" "same_store s s'"
    "os_faults s' = os_faults s" "s' = snd (read_seconds s)" by simp_all
qed

lemma streaming_store: "streaming d n data m s \<Longrightarrow> same_store s s' \<Longrightarrow> streaming d n data m s'"
  by (simp add: streaming_def stored_def same_store_def)

lemma streaming_touch:
  assumes "streaming d n data m s" "touch m s = (m', s')"
  shows "streaming d n data m' s'" "same_terms m m'" "mg_queue m' = mg_queue m" "mg_writer m' = mg_writer m" "same_store s s'"
proof -
  note touched = touch_outcome [OF assms(2)]
  have "streaming d n data m' s"
    using assms(1) by (simp add: touched(1) streaming_def stream_slot_def queue_job_def)
  then show "streaming d n data m' s'" using touched(2) by (rule streaming_store)
  show "same_terms m m'" "mg_queue m' = mg_queue m" "mg_writer m' = mg_writer m" by (simp_all add: touched(1) same_terms_def)
  show "same_store s s'" by (rule touched(2))
qed

lemma tail_not_head:
  "ring_ok q \<Longrightarrow> 0 < wq_queued q \<Longrightarrow> wq_queued q < UPLOAD_WRITE_QUEUE_DEPTH \<Longrightarrow> wq_tail q \<noteq> wq_head q"
  using ring_index_neq [of 0 "wq_queued q" q] by (auto simp: ring_ok_def ring_index_def)

lemma streaming_accept:
  assumes "streaming d n data m s" "wq_queued (mg_queue m) < UPLOAD_WRITE_QUEUE_DEPTH" "ring_fits x (mg_queue m)"
    "length data + length x \<le> unat (sl_expected (mg_slot m))"
  shows "streaming d n (data @ x) (accept_piece x m) s" "same_terms m (accept_piece x m)"
    "mg_writer (accept_piece x m) = mg_writer m" "mg_queue (accept_piece x m) = buffer_bytes x (mg_queue m)"
proof -
  let ?q = "mg_queue m"
  from assms(1) have ring: "ring_ok ?q" by (simp add: streaming_def)
  note staged = ring_stage [OF ring assms(2,3)]
  have flow: "ring.flow (buffer_bytes x ?q) = ring.flow ?q @ x"
    using ring.flow_stage [OF ring] assms(2,3) by simp
  have "queue_job (accept_piece x m)"
    using assms(1,2) tail_not_head [OF ring]
    by (auto simp: streaming_def queue_job_def Let_def accept_piece_def buffer_bytes_def)
  moreover have "stream_slot d (data @ x) (mg_slot (accept_piece x m))"
    using assms(1,4) by (auto simp: streaming_def stream_slot_def accept_piece_def intro: sha_holds_update)
  ultimately show "streaming d n (data @ x) (accept_piece x m) s"
    using assms(1) staged flow by (auto simp: streaming_def accept_piece_def)
  show "same_terms m (accept_piece x m)" "mg_writer (accept_piece x m) = mg_writer m"
    "mg_queue (accept_piece x m) = buffer_bytes x (mg_queue m)"
    by (simp_all add: accept_piece_def same_terms_def)
qed

lemma streaming_enqueue:
  assumes "streaming d n data m s" "wq_queued (mg_queue m) < UPLOAD_WRITE_QUEUE_DEPTH"
  shows "streaming d n data (on_queue enqueue_buffer m) s"
proof -
  let ?q = "mg_queue m"
  from assms(1) have ring: "ring_ok ?q" by (simp add: streaming_def)
  have "queue_job (on_queue enqueue_buffer m)"
    using assms tail_not_head [OF ring] by (auto simp: streaming_def queue_job_def Let_def enqueue_buffer_def)
  with assms(1) ring_push [OF ring assms(2)] ring.flow_push [OF ring] assms(2) show ?thesis
    by (auto simp: streaming_def)
qed

text \<open>Handing over the buffer never waits when something is in it: the ring then has a free buffer.\<close>

lemma enqueue_write_buffer_streaming:
  assumes "streaming d n data m s" "wt_error (mg_writer m) = E0" "wq_queued (mg_queue m) < UPLOAD_WRITE_QUEUE_DEPTH"
  shows "enqueue_write_buffer m s = Some (E0, if wq_buffered (mg_queue m) = 0 then m else on_queue enqueue_buffer m, s)"
  using assms by (simp add: enqueue_write_buffer_def await.simps queue_full_def streaming_def)

text \<open>Nothing fails, the clock stands still, and the lease is not zero.\<close>

definition calm :: "u64 \<Rightarrow> upload_manager \<Rightarrow> os \<Rightarrow> bool" where
  "calm now m s \<longleftrightarrow> os_faults s = [] \<and> os_seconds s = [now] \<and> wt_error (mg_writer m) = E0 \<and>
     sl_last_activity (mg_slot m) = now \<and> mg_lease_seconds m \<noteq> 0"

lemma calm_progress: "calm now m s \<Longrightarrow> stream_progress n m s m' s' \<Longrightarrow> waited m m' \<Longrightarrow> calm now m' s'"
  by (simp add: calm_def stream_progress_def undisturbed_def waited_def)

lemma calm_touch:
  assumes "os_faults s = []" "os_seconds s = [now]" "wt_error (mg_writer m) = E0" "mg_lease_seconds m \<noteq> 0" "touch m s = (m', s')"
  shows "calm now m' s'"
  using assms touch_outcome [OF assms(5)] by (simp add: calm_def read_seconds_def)

lemma capacity_positive: "0 < UPLOAD_WRITE_BUFFER_BYTES"
  by (simp add: UPLOAD_WRITE_BUFFER_BYTES_def)

lemma write_pieces_streaming:
  assumes "streaming d n data m s" "buffer_room m" "length data + length x \<le> unat (sl_expected (mg_slot m))"
  shows "\<exists>r m' s' k. write_pieces m x s = Some (r, m', s') \<and> k \<le> length x \<and> streaming d n (data @ take k x) m' s' \<and>
    buffer_room m' \<and> same_terms m m' \<and> only_file n s s' \<and>
    (if r = UPLOAD_OK then k = length x
     else r = storage_result (wt_error (mg_writer m')) \<and> wt_error (mg_writer m') \<noteq> E0) \<and>
    (\<forall>now. calm now m s \<longrightarrow> r = UPLOAD_OK \<and> calm now m' s')"
  using assms
proof (induction "length x" arbitrary: data m s x rule: less_induct)
  case less
  show ?case
  proof (cases "x = []")
    case True
    with less.prems show ?thesis
      by (intro exI [of _ UPLOAD_OK] exI [of _ m] exI [of _ s] exI [of _ 0]) (simp add: write_pieces.simps only_file_def)
  next
    case False
    obtain m1 s1 where w: "await queue_full m s = Some (m1, s1)" "streaming d n data m1 s1" "waited m m1" "\<not> queue_full m1"
      "stream_progress n m s m1 s1"
      using await_streaming [OF less.prems(1), of queue_full] by (auto simp: queue_full_def UPLOAD_WRITE_QUEUE_DEPTH_def)
    from w(3,5) have kept: "same_terms m m1" "only_file n s s1"
      by (simp_all add: waited_same_terms stream_progress_def)
    show ?thesis
    proof (cases "wt_error (mg_writer m1) = E0")
      case error: False
      with False w have "write_pieces m x s = Some (storage_result (wt_error (mg_writer m1)), m1, s1\<lparr>os_errno := wt_error (mg_writer m1)\<rparr>)"
        by (subst write_pieces.simps) simp
      moreover have "streaming d n data m1 (s1\<lparr>os_errno := wt_error (mg_writer m1)\<rparr>)"
        using w(2) by (rule streaming_store) (simp add: same_store_def)
      moreover have "\<not> calm now m s" for now using calm_progress [OF _ w(5,3), of now] error by (auto simp: calm_def)
      moreover have "storage_result e \<noteq> UPLOAD_OK" for e by (simp add: storage_result_def)
      ultimately show ?thesis using kept error
        by (intro exI [of _ "storage_result (wt_error (mg_writer m1))"] exI [of _ m1] exI [of _ "s1\<lparr>os_errno := wt_error (mg_writer m1)\<rparr>"] exI [of _ 0])
          (simp add: buffer_room_def only_file_def)
    next
      case ok: True
      have free: "wq_queued (mg_queue m1) < UPLOAD_WRITE_QUEUE_DEPTH"
        using w(2,4) ok ring_queued [of "mg_queue m1"] by (auto simp: streaming_def queue_full_def)
      define count where "count = min (length x) (UPLOAD_WRITE_BUFFER_BYTES - wq_buffered (mg_queue m1))"
      have room: "wq_buffered (mg_queue m1) < UPLOAD_WRITE_BUFFER_BYTES"
        using less.prems(2) w(3,5) ok by (simp add: buffer_room_def waited_def stream_progress_def)
      have count: "0 < count" "count \<le> length x" using room False by (simp_all add: count_def)
      have fits: "ring_fits (take count x) (mg_queue m1)" using room by (simp add: ring_fits_def count_def)
      have "length data + length (take count x) \<le> unat (sl_expected (mg_slot m1))"
        using less.prems(3) kept(1) by (simp add: same_terms_def)
      note accepted = streaming_accept [OF w(2) free fits this]
      obtain m3 s3 where t: "touch (accept_piece (take count x) m1) s1 = (m3, s3)" by force
      note touched = streaming_touch [OF accepted(1) t]
      define m4 where "m4 = (if wq_buffered (mg_queue m3) = UPLOAD_WRITE_BUFFER_BYTES then on_queue enqueue_buffer m3 else m3)"
      have free3: "wq_queued (mg_queue m3) < UPLOAD_WRITE_QUEUE_DEPTH" and ok3: "wt_error (mg_writer m3) = E0"
        and buffered3: "wq_buffered (mg_queue m3) \<le> UPLOAD_WRITE_BUFFER_BYTES"
        using free ok fits touched(3,4) accepted(3,4) by (simp_all add: buffer_bytes_def ring_fits_def)
      have step: "write_pieces m x s = write_pieces m4 (drop count x) s3"
        using False w(1) ok t enqueue_write_buffer_streaming [OF touched(1) ok3 free3] capacity_positive
        by (subst write_pieces.simps) (simp add: Let_def m4_def count_def [symmetric])
      have s4: "streaming d n (data @ take count x) m4 s3"
        using touched(1) streaming_enqueue [OF touched(1) free3] by (simp add: m4_def)
      have room4: "buffer_room m4"
        using buffered3 by (simp add: m4_def buffer_room_def enqueue_buffer_def UPLOAD_WRITE_BUFFER_BYTES_def)
      have same4: "same_terms m m4"
        using kept(1) accepted(2) touched(2) by (auto simp: m4_def same_terms_def)
      have only4: "only_file n s s3" using kept(2) touched(5) by (simp add: only_file_def same_store_def)
      have calm4: "calm now m4 s3" if "calm now m s" for now
      proof -
        from calm_progress [OF that w(5,3)] have "calm now m1 s1" .
        with calm_touch [OF _ _ _ _ t, of now] accepted(2,3) have "calm now m3 s3" by (simp add: calm_def same_terms_def)
        then show ?thesis by (simp add: m4_def calm_def)
      qed
      have "length (drop count x) < length x" using count False by simp
      moreover have "length (data @ take count x) + length (drop count x) \<le> unat (sl_expected (mg_slot m4))"
        using less.prems(3) same4 count by (simp add: same_terms_def)
      ultimately obtain r m' s' k where
        r: "write_pieces m4 (drop count x) s3 = Some (r, m', s')" "k \<le> length (drop count x)"
          "streaming d n ((data @ take count x) @ take k (drop count x)) m' s'" "buffer_room m'" "same_terms m4 m'"
          "only_file n s3 s'" "if r = UPLOAD_OK then k = length (drop count x)
            else r = storage_result (wt_error (mg_writer m')) \<and> wt_error (mg_writer m') \<noteq> E0"
          "\<forall>now. calm now m4 s3 \<longrightarrow> r = UPLOAD_OK \<and> calm now m' s'"
        using less.hyps [OF _ s4 room4] by metis
      have "streaming d n (data @ take (count + k) x) m' s'" using r(3) by (simp add: take_add)
      with r step count same_terms_trans [OF same4 r(5)] only_file_trans [OF only4 r(6)] calm4 show ?thesis
        by (intro exI [of _ r] exI [of _ m'] exI [of _ s'] exI [of _ "count + k"]) (auto split: if_splits)
    qed
  qed
qed

lemma unat_of_nat_u64: "n < 18446744073709551616 \<Longrightarrow> unat (of_nat n :: u64) = n"
  by (simp add: unat_of_nat)

lemma room_left:
  fixes amount :: u64
  assumes "amount - of_nat k \<ge> of_nat n" "k \<le> unat amount" "n < 2 ^ 64"
  shows "k + n \<le> unat amount"
proof -
  have k: "unat (of_nat k :: u64) = k" using assms(2) unat_u64_bound [of amount] by (simp add: unat_of_nat_u64)
  have n: "unat (of_nat n :: u64) = n" using assms(3) by (simp add: unat_of_nat_u64)
  have "unat (amount - of_nat k) = unat amount - k" using assms(2) k by (subst unat_diff_le) (simp_all add: word_nat)
  with assms(1,2) n show ?thesis by (simp add: word_nat)
qed

lemma upload_write_streaming:
  assumes "streaming d n data m s" "buffer_room m" "length x < 2 ^ 64"
  shows "\<exists>r m' s'. upload_write m upload_id x s = Some (r, m', s') \<and>
    (r = UPLOAD_OK \<longrightarrow> streaming d n (data @ x) m' s' \<and> buffer_room m' \<and> same_terms m m' \<and> only_file n s s')"
proof -
  obtain m1 s1 where reap: "reap_now m s = (m1, s1)" by force
  show ?thesis
  proof (cases "owns m1 upload_id \<and> sl_started (mg_slot m1) \<and> \<not> sl_expected (mg_slot m1) - sl_received (mg_slot m1) < of_nat (length x)")
    case False
    then show ?thesis using reap by (auto simp: upload_write_def)
  next
    case True
    with reap_now_owns [OF reap] have m1: "m1 = m" "same_store s s1" by auto
    from streaming_store [OF assms(1) m1(2)] have s1: "streaming d n data m s1" .
    from True m1 s1 have "length data + length x \<le> unat (sl_expected (mg_slot m))"
      by (intro room_left [OF _ _ assms(3)]) (simp_all add: streaming_def stream_slot_def not_less)
    from write_pieces_streaming [OF s1 assms(2) this] obtain r m' s' k where
      r: "write_pieces m x s1 = Some (r, m', s')" "streaming d n (data @ take k x) m' s'" "buffer_room m'" "same_terms m m'"
        "only_file n s1 s'" "r = UPLOAD_OK \<longrightarrow> k = length x" by metis
    have "upload_write m upload_id x s = Some (r, m', s')" using True reap m1 r(1) by (simp add: upload_write_def)
    moreover have "only_file n s s'" using r(5) m1(2) by (simp add: only_file_def same_store_def)
    ultimately show ?thesis using r by auto
  qed
qed

lemma unat_u32_to_u64: "unat (ucast (x :: u32) :: u64) = unat x"
proof -
  have "unat x < 2 ^ 64" using unsigned_less [of x, where 'a = nat] by simp
  then show ?thesis by (simp add: unsigned_ucast_eq take_bit_nat_eq_self)
qed

lemma calm_reap: "calm now m s \<Longrightarrow> reap_now m s = (m, s)"
proof -
  assume c: "calm now m s"
  then have "0 < unat (mg_lease_seconds m)" by (simp add: calm_def word_neq_0_conv word_less_nat_alt)
  then have "\<not> (ucast (mg_lease_seconds m) :: u64) \<le> 0" by (simp add: word_le_nat_alt unat_u32_to_u64)
  with c show ?thesis by (simp add: calm_def reap_now_def read_seconds_def reap_locked_def lease_expired_def)
qed

lemma upload_write_calm:
  assumes "streaming d n data m s" "buffer_room m" "calm now m s" "length data + length x \<le> unat (sl_expected (mg_slot m))"
    "sl_id (mg_slot m) = upload_id"
  shows "\<exists>m' s'. upload_write m upload_id x s = Some (UPLOAD_OK, m', s') \<and> calm now m' s' \<and>
    streaming d n (data @ x) m' s' \<and> buffer_room m' \<and> same_terms m m' \<and> only_file n s s'"
proof -
  from write_pieces_streaming [OF assms(1,2,4)] assms(3) obtain m' s' where
    r: "write_pieces m x s = Some (UPLOAD_OK, m', s')" "streaming d n (data @ x) m' s'" "buffer_room m'" "same_terms m m'"
      "only_file n s s'" "calm now m' s'" by (metis take_all_iff le_refl)
  have fit: "\<not> sl_expected (mg_slot m) - sl_received (mg_slot m) < of_nat (length x)"
  proof -
    have "sl_received (mg_slot m) = of_nat (length data)" using assms(1) by (simp add: streaming_def stream_slot_def)
    moreover have "unat (of_nat (length data) :: u64) = length data" "unat (of_nat (length x) :: u64) = length x"
      using assms(4) unat_u64_bound [of "sl_expected (mg_slot m)"] by (simp_all add: unat_of_nat_u64)
    ultimately show ?thesis using assms(4) by (simp add: word_nat)
  qed
  have "upload_write m upload_id x s = Some (UPLOAD_OK, m', s')"
    using assms(1,5) calm_reap [OF assms(3)] r(1) fit by (simp add: upload_write_def owns_def streaming_def stream_slot_def)
  with r show ?thesis by auto
qed

section \<open>Flushing\<close>

lemma flush_queue_streaming:
  assumes "streaming d n data m s" "buffer_room m" "wt_error (mg_writer m) = E0"
  shows "\<exists>e m' s'. flush_queue m s = Some (e, m', s') \<and> streaming d n data m' s' \<and> same_terms m m' \<and> only_file n s s' \<and>
    (e = E0 \<longrightarrow> \<not> wt_active (mg_writer m') \<and> stored d n (unat (sl_expected (mg_slot m))) data s') \<and>
    (\<forall>now. calm now m s \<longrightarrow> e = E0 \<and> calm now m' s')"
proof -
  let ?waiting = "\<lambda>m. wt_error (mg_writer m) = E0 \<and> (wq_queued (mg_queue m) \<noteq> 0 \<or> wt_active (mg_writer m))"
  define m1 where "m1 = (if wq_buffered (mg_queue m) = 0 then m else on_queue enqueue_buffer m)"
  have "wq_queued (mg_queue m) < UPLOAD_WRITE_QUEUE_DEPTH" if "wq_buffered (mg_queue m) \<noteq> 0"
    using assms(1) that by (auto simp: streaming_def ring_ok_def le_less)
  then have m1: "enqueue_write_buffer m s = Some (E0, m1, s)" "streaming d n data m1 s"
    using enqueue_write_buffer_streaming [OF assms(1,3)] streaming_enqueue [OF assms(1)] assms(1)
    by (auto simp: m1_def enqueue_write_buffer_def)
  have empty: "wq_buffered (mg_queue m1) = 0" "same_terms m m1" "wt_error (mg_writer m1) = E0" "calm now m1 s = calm now m s" for now
    using assms(3) by (simp_all add: m1_def enqueue_buffer_def same_terms_def calm_def)
  have "\<exists>m' s'. await ?waiting m1 s = Some (m', s') \<and> streaming d n data m' s' \<and> waited m1 m' \<and> \<not> ?waiting m' \<and>
      stream_progress n m1 s m' s'"
    by (rule await_streaming [OF m1(2)]) (auto simp: streaming_def queue_job_def Let_def split: if_splits)
  then obtain m' s' where
    w: "await ?waiting m1 s = Some (m', s')" "streaming d n data m' s'" "waited m1 m'" "\<not> ?waiting m'" "stream_progress n m1 s m' s'"
    by blast
  have "flush_queue m s = Some (wt_error (mg_writer m'), m', s')"
    using m1(1) w(1) by (simp add: flush_queue_def wait_for_write_queue_def)
  moreover have same: "same_terms m m'" by (rule same_terms_trans [OF empty(2) waited_same_terms [OF w(3)]])
  moreover have "stored d n (unat (sl_expected (mg_slot m))) data s'" if "wt_error (mg_writer m') = E0"
  proof -
    have "wq_queued (mg_queue m') = 0" "wq_buffered (mg_queue m') = 0" using that w(3,4) empty(1) by (simp_all add: waited_def)
    then have "ring.flow (mg_queue m') = []" by (simp add: ring.flow_def ring_staged_def ring_contents_def)
    with w(2) that same show ?thesis by (auto simp: streaming_def same_terms_def)
  qed
  moreover have "calm now m' s'" if "calm now m s" for now using calm_progress [OF _ w(5,3)] that empty(4) by simp
  ultimately show ?thesis using w by (auto simp: stream_progress_def calm_def)
qed

end
