(* ===== verification/UploadPublish.thy ===== *)
theory UploadPublish
  imports UploadStream
begin

text \<open>
  The end of a streamed upload, and whole runs: preparation, the start, the data with the writer working
  between the calls, and the finish.
\<close>

section \<open>Clearing and concluding\<close>

text \<open>Clearing touches no name but the temporary one and no file but the one the writer may be working on.\<close>

lemma clear_slot_effect:
  assumes "clear_slot remove m s = (ok, m', s')"
    and "wt_active (mg_writer m) \<Longrightarrow> (\<exists>i b len. wt_job (mg_writer m) = Some (Queue_job i b len)) \<and>
      (\<exists>d amount data. sl_fd (mg_slot m) = Some d \<and> stored d n amount data s)"
  shows "\<And>p. p \<noteq> sl_part_path (mg_slot m) \<Longrightarrow> os_names s' p = os_names s p"
    and "\<And>k. k \<noteq> n \<Longrightarrow> os_files s' k = os_files s k"
    and "\<not> remove \<or> sl_part_path (mg_slot m) = [] \<Longrightarrow> os_names s' = os_names s"
    and "\<not> wt_active (mg_writer m) \<Longrightarrow> os_files s' = os_files s"
    and "\<not> wt_active (mg_writer m')"
proof -
  let ?m = "on_writer (\<lambda>w. w\<lparr>wt_discard := True\<rparr>) m"
  obtain m1 s1 where settle: "settle_writer ?m s = (m1, s1)" by force
  have s1: "only_file n s s1 \<and> mg_slot m1 = mg_slot m \<and> (\<not> wt_active (mg_writer m) \<longrightarrow> s1 = s) \<and> \<not> wt_active (mg_writer m1)"
  proof (cases "wt_active (mg_writer m)")
    case False
    with settle show ?thesis by (auto simp: settle_writer_def only_file_def)
  next
    case True
    with assms(2) obtain i b len d amount data where job: "wt_job (mg_writer ?m) = Some (Queue_job i b len)"
      and fd: "sl_fd (mg_slot m) = Some d" "stored d n amount data s" by auto
    from True settle have step: "writer_done ?m s = (m1, s1)" by (simp add: settle_writer_def)
    obtain e u v t where
      u: "same_store s u" "write_all (sl_fd (mg_slot ?m)) (take len b) u = (e, v)" "same_store v s1"
        "m1 = ?m\<lparr>mg_timing := t, mg_queue := queue_written i (mg_queue ?m),
          mg_writer := (mg_writer ?m)\<lparr>wt_active := False, wt_job := None,
            wt_error := (if e \<noteq> E0 \<and> wt_error (mg_writer ?m) = E0 then e else wt_error (mg_writer ?m))\<rparr>\<rparr>"
      by (rule writer_done_queue [OF job step])
    have "stored d n amount data u" using fd(2) u(1) by (simp add: stored_def same_store_def)
    from write_all_stored [OF _ this, of "take len b" e v] u(2) fd(1) have "only_file n u v" by auto
    with u True show ?thesis by (simp add: only_file_def same_store_def)
  qed
  obtain closed s2 where c: "close_slot (mg_slot m) s1 = (closed, s2)" by force
  obtain removed s3 where r: "unlink_part remove (mg_slot m) s2 = (removed, s3)" by force
  have s': "s' = s3" using assms(1) settle c r s1 by (simp add: clear_slot_def)
  have c2: "os_names s2 = os_names s1 \<and> os_files s2 = os_files s1"
    using c sys_close_store by (auto simp: close_slot_def split: option.splits)
  have r3: "os_files s3 = os_files s2 \<and> (\<forall>p. p \<noteq> sl_part_path (mg_slot m) \<longrightarrow> os_names s3 p = os_names s2 p) \<and>
      (\<not> remove \<or> sl_part_path (mg_slot m) = [] \<longrightarrow> os_names s3 = os_names s2)"
  proof (cases "remove \<and> sl_part_path (mg_slot m) \<noteq> []")
    case True
    obtain ok1 u where un: "sys_unlink (sl_part_path (mg_slot m)) s2 = (ok1, u)" by force
    with True r have "s3 = u" by (simp add: unlink_part_def)
    with sys_unlink_outcome [OF un] True show ?thesis by simp
  next
    case False
    with r have "s3 = s2" by (simp add: unlink_part_def)
    then show ?thesis by simp
  qed
  show "\<And>p. p \<noteq> sl_part_path (mg_slot m) \<Longrightarrow> os_names s' p = os_names s p"
    and "\<And>k. k \<noteq> n \<Longrightarrow> os_files s' k = os_files s k"
    and "\<not> remove \<or> sl_part_path (mg_slot m) = [] \<Longrightarrow> os_names s' = os_names s"
    and "\<not> wt_active (mg_writer m) \<Longrightarrow> os_files s' = os_files s"
    using s1 c2 r3 by (auto simp: s' only_file_def)
  have "mg_writer m' = (mg_writer m1)\<lparr>wt_error := E0, wt_discard := False\<rparr>"
    using assms(1) settle c r s1 by (auto simp: clear_slot_def)
  with s1 show "\<not> wt_active (mg_writer m')" by simp
qed

text \<open>How a conclusion that succeeds leaves the files, and that one that fails publishes nothing.\<close>

lemma sync_loop_store: "sync_loop fd s = (ok, t) \<Longrightarrow> same_store s t"
proof (induction fd s arbitrary: ok t rule: sync_loop.induct)
  case (1 fd s)
  obtain r u where f: "sys_fsync fd s = (r, u)" by force
  have "same_store s u" using f next_fault_store [of s]
    by (auto simp: sys_fsync_def fails_def same_store_def split: prod.splits fault.splits if_splits)
  moreover have "same_store u t"
    using 1 f by (cases r; subst (asm) (3) sync_loop.simps) (auto split: if_splits)
  ultimately show ?case by (rule same_store_trans)
qed

lemma sync_for_publication_store: "sync_for_publication b fd s = (ok, t) \<Longrightarrow> same_store s t"
  using sync_loop_store by (auto simp: sync_for_publication_def fails_def same_store_def split: build.splits option.splits)

lemma published_effect:
  assumes "published transfer k m s = (m', s')" "\<not> wt_active (mg_writer m)"
  shows "cleared m'" "os_files s' = os_files s" "\<And>p. p \<noteq> sl_part_path (mg_slot m) \<Longrightarrow> os_names s' p = os_names s p"
    "mg_last_completed_size m' = sl_expected (mg_slot m)"
proof -
  obtain t s1 where t: "(case transfer of Some t \<Rightarrow> (t, s)
      | None \<Rightarrow> (case read_nanos s of (now, s) \<Rightarrow> (elapsed_nanoseconds (tm_transfer_start (mg_timing m)) now, s))) = (t, s1)" by force
  have s1: "same_store s s1" using t read_nanos_store by (fastforce split: option.splits prod.splits)
  define s2 where "s2 = (if k = 0 then snd (sys_unlink (sl_part_path (mg_slot m)) s1) else s1)"
  obtain ok s2' where u: "sys_unlink (sl_part_path (mg_slot m)) s1 = (ok, s2')" by force
  have s2: "os_files s2 = os_files s1 \<and> (\<forall>p. p \<noteq> sl_part_path (mg_slot m) \<longrightarrow> os_names s2 p = os_names s1 p)"
    using sys_unlink_outcome [OF u] u by (auto simp: s2_def)
  let ?m = "(record_metrics t m)\<lparr>mg_completed_files := mg_completed_files (record_metrics t m) + 1\<rparr>"
  obtain ok1 m1 s3 where c: "clear_slot False ?m s2 = (ok1, m1, s3)" by (rule prod_cases3)
  have fields: "mg_slot ?m = mg_slot m" "mg_writer ?m = mg_writer m" "mg_last_completed_size ?m = sl_expected (mg_slot m)"
    by (simp_all add: record_metrics_def)
  have out: "m' = m1" "s' = s3"
    using assms(1) t c by (simp_all add: published_def s2_def Let_def)
  note clear = clear_slot_effect [OF c, unfolded fields]
  show "cleared m'" using clear_slot_cleared [OF c] out by simp
  show "os_files s' = os_files s" using clear(4) assms(2) s1 s2 by (simp add: out same_store_def)
  show "os_names s' p = os_names s p" if "p \<noteq> sl_part_path (mg_slot m)" for p
    using clear(3) assms(2) s1 s2 that by (simp add: out same_store_def)
  show "mg_last_completed_size m' = sl_expected (mg_slot m)"
    using c fields(3) assms(2) fields(2) by (auto simp: out clear_slot_def settle_writer_def split: prod.splits)
qed

lemma conclude_effect:
  assumes "conclude b digest transfer m s = (r, m', s')" "\<not> wt_active (mg_writer m)"
    "os_names s (sl_part_path (mg_slot m)) = Some (Regular n)"
  defines "x \<equiv> mg_slot m"
  shows "os_files s' = os_files s"
    "r \<noteq> UPLOAD_OK \<Longrightarrow> os_names s' = os_names s \<and> sl_part_path (mg_slot m') = sl_part_path x \<and> mg_writer m' = mg_writer m"
    "r = UPLOAD_OK \<Longrightarrow> (sl_expected_hash x = [] \<or> sl_expected_hash x = digest) \<and> os_names s (sl_final_path x) = None \<and>
      os_names s' (sl_final_path x) = Some (Regular n) \<and>
      (\<forall>p. p \<noteq> sl_final_path x \<longrightarrow> p \<noteq> sl_part_path x \<longrightarrow> os_names s' p = os_names s p) \<and>
      cleared m' \<and> mg_last_completed_size m' = sl_expected x"
proof -
  have "os_files s' = os_files s \<and> (if r = UPLOAD_OK then (sl_expected_hash x = [] \<or> sl_expected_hash x = digest) \<and> os_names s (sl_final_path x) = None \<and>
      os_names s' (sl_final_path x) = Some (Regular n) \<and>
      (\<forall>p. p \<noteq> sl_final_path x \<longrightarrow> p \<noteq> sl_part_path x \<longrightarrow> os_names s' p = os_names s p) \<and>
      cleared m' \<and> mg_last_completed_size m' = sl_expected x
    else os_names s' = os_names s \<and> sl_part_path (mg_slot m') = sl_part_path x \<and> mg_writer m' = mg_writer m)"
  proof (cases "sl_expected_hash x \<noteq> [] \<and> sl_expected_hash x \<noteq> digest")
    case True
    with assms(1) show ?thesis by (auto simp: conclude_def x_def)
  next
    case hash: False
    obtain synced s1 where sync: "sync_for_publication b (sl_fd x) s = (synced, s1)" by force
    have s1: "same_store s s1" by (rule sync_for_publication_store [OF sync])
    show ?thesis
    proof (cases synced)
      case False
      with assms(1) hash sync s1 show ?thesis
        by (auto simp: conclude_def x_def storage_result_def same_store_def split: if_splits)
    next
      case True
      obtain closed s2 where close: "(case sl_fd x of None \<Rightarrow> fails EBADF s1 | Some fd \<Rightarrow> sys_close fd s1) = (closed, s2)" by force
      have s2: "os_names s2 = os_names s \<and> os_files s2 = os_files s"
        using close s1 sys_close_store by (auto simp: fails_def same_store_def split: option.splits)
      define m1 where "m1 = on_slot (\<lambda>x. x\<lparr>sl_fd := None\<rparr>) m"
      show ?thesis
      proof (cases closed)
        case False
        with assms(1) hash sync close True s2 show ?thesis by (auto simp: conclude_def x_def)
      next
        case closed: True
        obtain k s3 where publish: "publish_part b (sl_part_path x) (sl_final_path x) s2 = (k, s3)" by force
        have "os_names s2 (sl_part_path x) = Some (Regular n)" using assms(3) s2 by (simp add: x_def)
        note effect = publish_part_effect [OF publish this]
        show ?thesis
        proof (cases k)
          case None
          with assms(1) hash sync close True closed publish s2 effect show ?thesis by (auto simp: conclude_def x_def Let_def split: if_splits)
        next
          case (Some kind)
          obtain m2 s4 where finished: "published transfer kind m1 s3 = (m2, s4)" by force
          have "conclude b digest transfer m s = (UPLOAD_OK, m2, s4)"
            using hash sync close True closed publish Some finished by (auto simp: conclude_def x_def Let_def m1_def)
          with assms(1) have out: "r = UPLOAD_OK" "m' = m2" "s' = s4" by simp_all
          have fields: "sl_part_path (mg_slot m1) = sl_part_path x" "\<not> wt_active (mg_writer m1)" "sl_expected (mg_slot m1) = sl_expected x"
            using assms(2) by (simp_all add: m1_def x_def)
          note pub = published_effect [OF finished fields(2), unfolded fields]
          have distinct: "sl_final_path x \<noteq> sl_part_path x" using effect Some assms(3) s2 by (auto simp: x_def)
          show ?thesis using effect Some pub s2 hash distinct by (auto simp: out)
        qed
      qed
    qed
  qed
  then show "os_files s' = os_files s"
    "r \<noteq> UPLOAD_OK \<Longrightarrow> os_names s' = os_names s \<and> sl_part_path (mg_slot m') = sl_part_path x \<and> mg_writer m' = mg_writer m"
    "r = UPLOAD_OK \<Longrightarrow> (sl_expected_hash x = [] \<or> sl_expected_hash x = digest) \<and> os_names s (sl_final_path x) = None \<and>
      os_names s' (sl_final_path x) = Some (Regular n) \<and>
      (\<forall>p. p \<noteq> sl_final_path x \<longrightarrow> p \<noteq> sl_part_path x \<longrightarrow> os_names s' p = os_names s p) \<and>
      cleared m' \<and> mg_last_completed_size m' = sl_expected x"
    by (simp_all split: if_splits)
qed

section \<open>Finishing a stream\<close>

lemma streaming_job: "streaming d n data m s \<Longrightarrow> wt_active (mg_writer m) \<Longrightarrow>
    (\<exists>i b len. wt_job (mg_writer m) = Some (Queue_job i b len)) \<and>
    (\<exists>d amount data. sl_fd (mg_slot m) = Some d \<and> stored d n amount data s)"
  by (auto simp: streaming_def queue_job_def stream_slot_def Let_def)

text \<open>Only the temporary name and the file of the upload may differ.\<close>

definition only_upload :: "string \<Rightarrow> nat \<Rightarrow> os \<Rightarrow> os \<Rightarrow> bool" where
  "only_upload part n s t \<longleftrightarrow> (\<forall>p. p \<noteq> part \<longrightarrow> os_names t p = os_names s p) \<and> (\<forall>k. k \<noteq> n \<longrightarrow> os_files t k = os_files s k)"

lemma only_upload_trans: "only_upload part n s t \<Longrightarrow> only_upload part n t u \<Longrightarrow> only_upload part n s u"
  by (simp add: only_upload_def)

lemma only_file_upload: "only_file n s t \<Longrightarrow> only_upload part n s t"
  by (simp add: only_file_def only_upload_def)

lemma same_store_upload: "same_store s t \<Longrightarrow> only_upload part n s t"
  by (simp add: same_store_def only_upload_def)

lemma clear_streaming:
  assumes "streaming d n data m s" "clear_slot True m s = (ok, m', s')"
  shows "cleared m' \<and> \<not> wt_active (mg_writer m') \<and> only_upload (sl_part_path (mg_slot m)) n s s'"
  using clear_slot_effect [OF assms(2) streaming_job [OF assms(1)]] clear_slot_cleared [OF assms(2)] by (simp add: only_upload_def)

lemma clear_failed_streaming:
  assumes "streaming d n data m s" "clear_failed r m s = (r', m', s')" "r \<noteq> UPLOAD_OK"
  shows "r' \<noteq> UPLOAD_OK \<and> cleared m' \<and> only_upload (sl_part_path (mg_slot m)) n s s'"
proof -
  obtain ok m1 s1 where c: "clear_slot True m s = (ok, m1, s1)" by (rule prod_cases3)
  with assms(2,3) clear_streaming [OF assms(1) c] show ?thesis by (auto simp: clear_failed_def split: if_splits)
qed

lemma clear_failed_idle:
  assumes "\<not> wt_active (mg_writer m)" "clear_failed r m s = (r', m', s')" "r \<noteq> UPLOAD_OK"
  shows "r' \<noteq> UPLOAD_OK" "cleared m'" "only_upload (sl_part_path (mg_slot m)) n s s'"
    "sl_part_path (mg_slot m) = [] \<Longrightarrow> only_upload part n s s'"
proof -
  obtain ok m1 s1 where c: "clear_slot True m s = (ok, m1, s1)" by (rule prod_cases3)
  note effect = clear_slot_effect [OF c]
  from assms(2,3) c clear_slot_cleared [OF c] show "r' \<noteq> UPLOAD_OK" "cleared m'" by (auto simp: clear_failed_def split: if_splits)
  from assms(2) c have "s' = s1" by (simp add: clear_failed_def)
  with effect(1,3,4) assms(1) show "only_upload (sl_part_path (mg_slot m)) n s s'"
    "sl_part_path (mg_slot m) = [] \<Longrightarrow> only_upload part n s s'" by (simp_all add: only_upload_def)
qed

lemma reap_streaming:
  assumes "streaming d n data m s" "reap_now m s = (m', s')"
  obtains (kept) "m' = m" "same_store s s'" "os_faults s' = os_faults s" "s' = snd (read_seconds s)"
    | (expired) "cleared m'" "\<not> wt_active (mg_writer m')" "only_upload (sl_part_path (mg_slot m)) n s s'"
proof (cases "lease_expired m (fst (read_seconds s))")
  case False
  from reap_now_cases [OF assms(2)] False kept show thesis by metis
next
  case True
  obtain now t where r: "read_seconds s = (now, t)" by force
  note store = read_seconds_store [OF r]
  obtain ok m1 s1 where c: "clear_slot True m t = (ok, m1, s1)" by (rule prod_cases3)
  from assms(2) True r c have "m' = m1" "s' = s1" by (simp_all add: reap_now_def reap_locked_def)
  with clear_streaming [OF streaming_store [OF assms(1)] c] store expired same_store_upload [of s t]
  show thesis by (metis only_upload_trans)
qed

text \<open>What a finish of the received \<open>data\<close> may do.\<close>

definition finished :: "nat \<Rightarrow> byte list \<Rightarrow> upload_manager \<Rightarrow> os \<Rightarrow> upload_result \<Rightarrow> string \<Rightarrow> upload_manager \<Rightarrow> os \<Rightarrow> bool" where
  "finished n data m s r digest m' s' \<longleftrightarrow> cleared m' \<and>
     (let x = mg_slot m
      in if r = UPLOAD_OK
         then length data = unat (sl_expected x) \<and> digest = sha256_hex (sha256_spec data) \<and>
           (sl_expected_hash x = [] \<or> sl_expected_hash x = digest) \<and> os_names s (sl_final_path x) = None \<and>
           os_names s' (sl_final_path x) = Some (Regular n) \<and> inode_bytes (os_files s' n) = data \<and>
           (\<forall>p. p \<noteq> sl_final_path x \<longrightarrow> p \<noteq> sl_part_path x \<longrightarrow> os_names s' p = os_names s p) \<and>
           (\<forall>k. k \<noteq> n \<longrightarrow> os_files s' k = os_files s k) \<and> mg_last_completed_size m' = sl_expected x
         else only_upload (sl_part_path x) n s s')"

text \<open>The end of a finish once everything is in the file.\<close>

lemma finish_flushed:
  assumes "streaming d n data m s" "\<not> wt_active (mg_writer m)" "stored d n (unat (sl_expected (mg_slot m))) data s"
    "length data = unat (sl_expected (mg_slot m))"
    "upload_finish_end b m upload_id (Finish_stream transfer) s = (r, digest, m', s')"
  shows "finished n data m s r digest m' s'"
proof -
  let ?x = "mg_slot m"
  have sha: "sha256_final (sl_sha256 ?x) = (sha256_spec data, sha256_zero)"
    using assms(1) by (intro sha256_final_spec) (simp add: streaming_def stream_slot_def)
  let ?m = "on_slot (\<lambda>x. x\<lparr>sl_sha256 := sha256_zero\<rparr>) m"
  let ?digest = "sha256_hex (sha256_spec data)"
  obtain r1 m1 s1 where c: "conclude b ?digest (Some transfer) ?m s = (r1, m1, s1)" by (rule prod_cases3)
  have "os_names s (sl_part_path (mg_slot ?m)) = Some (Regular n)" using assms(1) by (simp add: streaming_def)
  note effect = conclude_effect [OF c _ this]
  have bytes: "inode_bytes (os_files s n) = data" using assms(3,4) by (rule stored_complete)
  show ?thesis
  proof (cases "r1 = UPLOAD_OK")
    case True
    then have "r = UPLOAD_OK" "digest = ?digest" "m' = m1" "s' = s1"
      using assms(5) c by (simp_all add: upload_finish_end_def stream_digest_def sha)
    with effect True bytes assms(2,4) show ?thesis by (simp add: finished_def Let_def)
  next
    case False
    obtain r2 m2 s2 where f: "clear_failed r1 m1 s1 = (r2, m2, s2)" by (rule prod_cases3)
    have out: "r = r2" "m' = m2" "s' = s2"
      using assms(5) c f False by (simp_all add: upload_finish_end_def stream_digest_def sha)
    from effect(2) False assms(2) have "\<not> wt_active (mg_writer m1)" "sl_part_path (mg_slot m1) = sl_part_path ?x" by simp_all
    with clear_failed_idle(1-3) [OF _ f False] have "r \<noteq> UPLOAD_OK" "cleared m'" "only_upload (sl_part_path ?x) n s1 s'"
      using out by simp_all
    moreover have "only_upload (sl_part_path ?x) n s s1" using effect(1,2) False assms(2) by (simp add: only_upload_def)
    ultimately show ?thesis by (auto simp: finished_def intro: only_upload_trans)
  qed
qed

lemma finished_earlier:
  assumes "finished n data m1 s1 r digest m' s'" "same_terms m m1" "only_file n s s1"
  shows "finished n data m s r digest m' s'"
  using assms unfolding finished_def same_terms_def only_file_def only_upload_def Let_def by (auto split: if_splits)

lemma finished_error:
  "cleared m' \<Longrightarrow> r \<noteq> UPLOAD_OK \<Longrightarrow> only_upload (sl_part_path (mg_slot m)) n s s' \<Longrightarrow> finished n data m s r digest m' s'"
  by (simp add: finished_def)

lemma finish_stops:
  assumes start: "upload_finish_start m upload_id s = Some (Finish_stop r, m2, s2)" "r \<noteq> UPLOAD_OK"
    and m2: "streaming d n data m2 s2 \<and> same_terms m m2 \<or> cleared m2 \<and> \<not> wt_active (mg_writer m2)"
    and only: "only_upload (sl_part_path (mg_slot m)) n s s2"
  shows "\<exists>r digest m' s'. upload_finish_with_metrics b m upload_id s = Some (r, digest, m', s') \<and> finished n data m s r digest m' s'"
proof -
  obtain r3 m3 s3 where f: "clear_failed r m2 s2 = (r3, m3, s3)" by (rule prod_cases3)
  have "r3 \<noteq> UPLOAD_OK \<and> cleared m3 \<and> only_upload (sl_part_path (mg_slot m)) n s2 s3"
    using m2
  proof
    assume "streaming d n data m2 s2 \<and> same_terms m m2"
    with clear_failed_streaming [OF _ f start(2)] show ?thesis by (auto simp: same_terms_def)
  next
    assume "cleared m2 \<and> \<not> wt_active (mg_writer m2)"
    with clear_failed_idle(1,2,4) [OF _ f start(2)] show ?thesis by (simp add: cleared_def empty_slot_def)
  qed
  with only have "finished n data m s r3 [] m3 s3" by (auto intro: finished_error only_upload_trans)
  moreover have "upload_finish_with_metrics b m upload_id s = Some (r3, [], m3, s3)"
    using start f by (simp add: upload_finish_with_metrics_def upload_finish_end_def)
  ultimately show ?thesis by blast
qed

text \<open>The first part of a finish stops with an error, or everything received is in the file.\<close>

definition finish_stopped :: "nat \<Rightarrow> nat \<Rightarrow> byte list \<Rightarrow> upload_manager \<Rightarrow> os \<Rightarrow> finish_phase \<times> upload_manager \<times> os \<Rightarrow> bool" where
  "finish_stopped d n data m s p \<longleftrightarrow>
     (case p of (phase, m2, s2) \<Rightarrow> (\<exists>r. phase = Finish_stop r \<and> r \<noteq> UPLOAD_OK) \<and>
        (streaming d n data m2 s2 \<and> same_terms m m2 \<or> cleared m2 \<and> \<not> wt_active (mg_writer m2)) \<and>
        only_upload (sl_part_path (mg_slot m)) n s s2)"

definition finish_drained :: "nat \<Rightarrow> nat \<Rightarrow> byte list \<Rightarrow> upload_manager \<Rightarrow> os \<Rightarrow> finish_phase \<times> upload_manager \<times> os \<Rightarrow> bool" where
  "finish_drained d n data m s p \<longleftrightarrow>
     (case p of (phase, m2, s2) \<Rightarrow> (\<exists>t. phase = Finish_stream t) \<and> streaming d n data m2 s2 \<and> same_terms m m2 \<and> only_file n s s2 \<and>
        \<not> wt_active (mg_writer m2) \<and> stored d n (unat (sl_expected (mg_slot m))) data s2 \<and>
        length data = unat (sl_expected (mg_slot m)))"

lemma finish_start_flush:
  assumes "streaming d n data m s" "buffer_room m" "wt_error (mg_writer m) = E0" "length data = unat (sl_expected (mg_slot m))"
    "owns m upload_id" "reap_now m s0 = (m, s)" "same_store s0 s"
  obtains p where "upload_finish_start m upload_id s0 = Some p" "finish_stopped d n data m s0 p \<or> finish_drained d n data m s0 p"
proof -
  from flush_queue_streaming [OF assms(1-3)] obtain e m2 s2 where
    flush: "flush_queue m s = Some (e, m2, s2)" "streaming d n data m2 s2" "same_terms m m2" "only_file n s s2"
      "e = E0 \<longrightarrow> \<not> wt_active (mg_writer m2) \<and> stored d n (unat (sl_expected (mg_slot m))) data s2" by blast
  let ?s = "if e \<noteq> E0 then s2\<lparr>os_errno := e\<rparr> else s2"
  obtain now s3 where nanos: "read_nanos ?s = (now, s3)" by force
  have s3: "same_store s2 s3" using read_nanos_store [OF nanos] by (simp add: same_store_def split: if_splits)
  have kept: "streaming d n data m2 s3" "only_file n s0 s3"
    using streaming_store [OF flush(2) s3] flush(4) s3 assms(7) by (simp_all add: only_file_def same_store_def)
  from assms(1,4) have slot: "\<not> sl_fast_direct (mg_slot m)" "sl_started (mg_slot m)" "sl_received (mg_slot m) = sl_expected (mg_slot m)"
    by (simp_all add: streaming_def stream_slot_def)
  let ?phase = "if e \<noteq> E0 then Finish_stop (storage_result e)
    else Finish_stream (elapsed_nanoseconds (tm_transfer_start (mg_timing m2)) now)"
  have "upload_finish_start m upload_id s0 = Some (?phase, m2, s3)"
    using assms(3,5,6) slot flush(1) nanos by (simp add: upload_finish_start_def)
  moreover have "finish_stopped d n data m s0 (?phase, m2, s3) \<or> finish_drained d n data m s0 (?phase, m2, s3)"
    using kept flush(3,5) s3 assms(4)
    by (auto simp: finish_stopped_def finish_drained_def storage_result_def only_file_upload stored_def same_store_def)
  ultimately show thesis using that by blast
qed

lemma finish_start_streaming:
  assumes "streaming d n data m s" "buffer_room m"
  obtains p where "upload_finish_start m upload_id s = Some p" "finish_stopped d n data m s p \<or> finish_drained d n data m s p"
proof -
  obtain m1 s1 where reap: "reap_now m s = (m1, s1)" by force
  from assms(1) reap show thesis
  proof (cases rule: reap_streaming)
    case expired
    then have "upload_finish_start m upload_id s = Some (Finish_stop UPLOAD_NOT_FOUND, m1, s1)"
      using reap by (simp add: upload_finish_start_def)
    with expired that show thesis by (simp add: finish_stopped_def)
  next
    case kept
    from streaming_store [OF assms(1) kept(2)] have s1: "streaming d n data m s1" .
    have stopped: "finish_stopped d n data m s (Finish_stop r, m, t)" if "r \<noteq> UPLOAD_OK" "same_store s1 t" for r t
      using that streaming_store [OF s1 that(2)] kept(2) by (simp add: finish_stopped_def same_store_upload [OF same_store_trans])
    have len: "length data = unat (sl_expected (mg_slot m))" if "sl_received (mg_slot m) = sl_expected (mg_slot m)"
    proof -
      have "sl_received (mg_slot m) = of_nat (length data)" "length data \<le> unat (sl_expected (mg_slot m))"
        using s1 by (simp_all add: streaming_def stream_slot_def)
      with that unat_of_nat_u64 [of "length data"] unat_u64_bound [of "sl_expected (mg_slot m)"] show ?thesis by simp
    qed
    consider "\<not> owns m upload_id" | "owns m upload_id" "sl_received (mg_slot m) \<noteq> sl_expected (mg_slot m)"
      | "owns m upload_id" "sl_received (mg_slot m) = sl_expected (mg_slot m)" "wt_error (mg_writer m) \<noteq> E0"
      | "owns m upload_id" "sl_received (mg_slot m) = sl_expected (mg_slot m)" "wt_error (mg_writer m) = E0" by blast
    then show thesis
    proof cases
      case 1
      then have "upload_finish_start m upload_id s = Some (Finish_stop UPLOAD_NOT_FOUND, m, s1)"
        using reap kept(1) by (simp add: upload_finish_start_def)
      then show thesis using that stopped by simp
    next
      case 2
      then have "upload_finish_start m upload_id s = Some (Finish_stop UPLOAD_SIZE_MISMATCH, m, s1)"
        using reap kept(1) s1 by (simp add: upload_finish_start_def streaming_def stream_slot_def)
      then show thesis using that stopped by simp
    next
      case 3
      then have "upload_finish_start m upload_id s =
          Some (Finish_stop (storage_result (wt_error (mg_writer m))), m, s1\<lparr>os_errno := wt_error (mg_writer m)\<rparr>)"
        using reap kept(1) s1 by (simp add: upload_finish_start_def streaming_def stream_slot_def)
      then show thesis using that stopped by (simp add: storage_result_def same_store_def)
    next
      case 4
      from finish_start_flush [OF s1 assms(2) 4(3) len [OF 4(2)] 4(1)] reap kept(1,2) that show thesis by metis
    qed
  qed
qed

text \<open>A finish of a stream returns, and only with the data published or with nothing published.\<close>

lemma finish_streaming:
  assumes "streaming d n data m s" "buffer_room m"
  shows "\<exists>r digest m' s'. upload_finish_with_metrics b m upload_id s = Some (r, digest, m', s') \<and> finished n data m s r digest m' s'"
proof -
  obtain phase m2 s2 where start: "upload_finish_start m upload_id s = Some (phase, m2, s2)"
    and cases: "finish_stopped d n data m s (phase, m2, s2) \<or> finish_drained d n data m s (phase, m2, s2)"
    using finish_start_streaming [OF assms] by (metis prod_cases3)
  from cases show ?thesis
  proof
    assume "finish_stopped d n data m s (phase, m2, s2)"
    with start finish_stops [of m upload_id s _ m2 s2 d n data] show ?thesis by (auto simp: finish_stopped_def)
  next
    assume drained: "finish_drained d n data m s (phase, m2, s2)"
    then obtain t where phase: "phase = Finish_stream t" by (auto simp: finish_drained_def)
    obtain r digest m' s' where fin: "upload_finish_end b m2 upload_id (Finish_stream t) s2 = (r, digest, m', s')" by (metis prod_cases4)
    have "finished n data m2 s2 r digest m' s'"
      by (rule finish_flushed [OF _ _ _ _ fin, where d = d]) (use drained in \<open>simp_all add: finish_drained_def same_terms_def\<close>)
    with drained have "finished n data m s r digest m' s'" by (auto simp: finish_drained_def intro: finished_earlier)
    with start phase fin show ?thesis by (simp add: upload_finish_with_metrics_def)
  qed
qed

end
