(* ===== verification/UploadRuns.thy ===== *)
theory UploadRuns
  imports UploadPublish
begin

text \<open>
  Whole streamed uploads: a free manager prepares one, its client begins it and sends the data in any
  pieces while the writer works in between, and finishes it.
\<close>

section \<open>Preparation\<close>

lemma open_excl_new:
  assumes "sys_open_excl path s = (Some d, t)"
  shows "\<exists>n. os_names t = (os_names s)(path \<mapsto> Regular n) \<and> os_fds t d = Some (n, 0) \<and> inode_bytes (os_files t n) = [] \<and>
    (\<forall>k. k \<noteq> n \<longrightarrow> os_files t k = os_files s k)"
proof -
  obtain f u where u: "next_fault s = (f, u)" by force
  show ?thesis using assms next_fault_store [OF u] unfolding sys_open_excl_def u
    by (auto simp: no_fd_def new_file_def Let_def same_store_def split: fault.splits if_splits)
qed

lemma open_excl_fails: "sys_open_excl path s = (None, t) \<Longrightarrow> same_store s t"
  using next_fault_store [of s]
  by (auto simp: sys_open_excl_def no_fd_def new_file_def Let_def same_store_def split: prod.splits fault.splits if_splits)

lemma open_trunc_new:
  assumes "sys_open_trunc path s = (Some d, t)" "os_names s path = None"
  shows "\<exists>n. os_names t = (os_names s)(path \<mapsto> Regular n) \<and> os_fds t d = Some (n, 0) \<and> inode_bytes (os_files t n) = [] \<and>
    (\<forall>k. k \<noteq> n \<longrightarrow> os_files t k = os_files s k)"
proof -
  obtain f u where u: "next_fault s = (f, u)" by force
  have store: "same_store s u" by (rule next_fault_store [OF u])
  with assms(2) have p: "resolve 41 u path = Inr path" "os_names u path = None" by (simp_all add: resolve_absent same_store_def)
  show ?thesis using assms(1) store p unfolding sys_open_trunc_def u
    by (cases f) (auto simp: no_fd_def new_file_def Let_def same_store_def split: if_splits)
qed

lemma open_part_file_new:
  assumes "open_part_file b path s = (Some d, t)" "os_names s path = None"
  shows "\<exists>n. os_names t = (os_names s)(path \<mapsto> Regular n) \<and> os_fds t d = Some (n, 0) \<and> inode_bytes (os_files t n) = [] \<and>
    (\<forall>k. k \<noteq> n \<longrightarrow> os_files t k = os_files s k)"
proof -
  obtain r u where o: "sys_open_excl path s = (r, u)" by force
  show ?thesis
  proof (cases r)
    case (Some d')
    with assms(1) o open_excl_new [of path s d' u] show ?thesis by (simp add: open_part_file_def)
  next
    case None
    with o open_excl_fails have u: "same_store s u" by simp
    with assms(2) have absent: "os_names u path = None" by (simp add: same_store_def)
    from assms(1) o None have "sys_open_excl path u = (Some d, t) \<or> sys_open_trunc path u = (Some d, t)"
      by (auto simp: open_part_file_def split: build.splits if_splits)
    with open_excl_new [of path u d t] open_trunc_new [of path u d t] absent u show ?thesis by (auto simp: same_store_def)
  qed
qed

lemma reserve_stored:
  assumes "reserve_upload_space b d amount s = (True, t)" "os_fds s d = Some (n, 0)" "inode_bytes (os_files s n) = []"
  shows "stored d n (unat amount) [] t \<and> only_file n s t"
proof -
  obtain f u where u: "next_fault s = (f, u)" by force
  have store: "same_store s u" by (rule next_fault_store [OF u])
  obtain e v where fa: "sys_fallocate d (unat amount) s = (e, v)" by force
  have "stored d n (unat amount) [] v \<and> only_file n s v"
    using fa store assms(2,3) unfolding sys_fallocate_def u
    by (cases f) (auto simp: Let_def stored_def only_file_def same_store_def split: option.splits)
  moreover have "t = s \<or> t = v"
    using assms(1) fa by (auto simp: reserve_upload_space_def fails_def split: build.splits if_splits)
  ultimately show ?thesis using assms(2,3) by (auto simp: stored_def only_file_def)
qed

lemma allocate_store: "allocate s = (ok, t) \<Longrightarrow> same_store s t"
  using next_fault_store by (auto simp: allocate_def split: prod.splits)

lemma allocate_chunks_store:
  assumes "allocate_chunks count c s = (c', t)"
  shows "same_store s t" "ct_transport c' = ct_transport c" "ct_active_writes c' = ct_active_writes c"
    "ct_finalizing c' = ct_finalizing c"
proof -
  obtain a1 s1 where 1: "allocate s = (a1, s1)" by force
  obtain a2 s2 where 2: "allocate s1 = (a2, s2)" by force
  obtain a3 s3 where 3: "allocate s2 = (a3, s3)" by force
  note stores = allocate_store [OF 1] allocate_store [OF 2] allocate_store [OF 3]
  show "same_store s t" using assms 1 2 3 stores by (auto simp: allocate_chunks_def same_store_def split: if_splits)
  show "ct_transport c' = ct_transport c" "ct_active_writes c' = ct_active_writes c" "ct_finalizing c' = ct_finalizing c"
    using assms 1 2 3 by (auto simp: allocate_chunks_def split: if_splits)
qed

text \<open>The manager is free and its writer has nothing to do.\<close>

definition free_manager :: "upload_manager \<Rightarrow> bool" where
  "free_manager m \<longleftrightarrow> ring_ok (mg_queue m) \<and> wq_queued (mg_queue m) = 0 \<and> wq_buffered (mg_queue m) = 0 \<and>
     \<not> wt_active (mg_writer m) \<and> wt_job (mg_writer m) = None \<and> \<not> wt_shutdown (mg_writer m) \<and> \<not> wt_discard (mg_writer m) \<and>
     wt_error (mg_writer m) = E0 \<and> mg_chunks m = no_chunks \<and>
     \<not> sl_occupied (mg_slot m) \<and> \<not> sl_started (mg_slot m) \<and> sl_received (mg_slot m) = 0 \<and> \<not> sl_fast_direct (mg_slot m) \<and> sl_fd (mg_slot m) = None"

text \<open>An upload is prepared and nothing of it has arrived.\<close>

definition prepared :: "nat \<Rightarrow> nat \<Rightarrow> upload_manager \<Rightarrow> os \<Rightarrow> bool" where
  "prepared d n m s \<longleftrightarrow> ring_ok (mg_queue m) \<and> wq_queued (mg_queue m) = 0 \<and> wq_buffered (mg_queue m) = 0 \<and>
     \<not> wt_active (mg_writer m) \<and> wt_job (mg_writer m) = None \<and> \<not> wt_shutdown (mg_writer m) \<and> \<not> wt_discard (mg_writer m) \<and>
     wt_error (mg_writer m) = E0 \<and> \<not> ct_transport (mg_chunks m) \<and> ct_active_writes (mg_chunks m) = 0 \<and>
     \<not> ct_finalizing (mg_chunks m) \<and> sl_occupied (mg_slot m) \<and> \<not> sl_started (mg_slot m) \<and> sl_received (mg_slot m) = 0 \<and> \<not> sl_fast_direct (mg_slot m) \<and>
     sl_fd (mg_slot m) = Some d \<and> os_names s (sl_part_path (mg_slot m)) = Some (Regular n) \<and>
     stored d n (unat (sl_expected (mg_slot m))) [] s"

lemma free_manager_create:
  assumes "upload_manager_create b upload_dir data_dir lease config s = (Some m, s')"
  shows "free_manager m"
proof -
  have "mg_queue m = empty_queue (replicate UPLOAD_WRITE_QUEUE_DEPTH []) \<and> mg_writer m = idle_writer \<and> mg_chunks m = no_chunks \<and>
      mg_slot m = empty_slot"
    using assms by (auto simp: upload_manager_create_def split: prod.splits bool.splits option.splits if_splits)
  then show ?thesis
    using ring_ok_empty [of "replicate UPLOAD_WRITE_QUEUE_DEPTH []"]
    by (simp add: free_manager_def idle_writer_def empty_slot_def empty_queue_def)
qed

lemma random_id_store: "random_id s = (r, t) \<Longrightarrow> same_store s t"
  by (auto simp: random_id_def secure_random_def same_store_def split: prod.splits list.splits option.splits if_splits)

lemma prepare_names_ok:
  assumes "prepare_names m authorization requested amount s = (UPLOAD_OK, m', s')"
  shows "same_store s s' \<and> mg_queue m' = mg_queue m \<and> mg_writer m' = mg_writer m \<and> mg_chunks m' = mg_chunks m \<and>
    mg_lease_seconds m' = mg_lease_seconds m \<and>
    safe_path_join (mg_destination m) (sl_final_name (mg_slot m')) SAFE_PATH_FULL_BYTES = Some (sl_final_path (mg_slot m')) \<and>
    sl_part_path (mg_slot m') = part_path_text (mg_destination m) (sl_id (mg_slot m')) \<and>
    (\<exists>name path upload_id part. mg_slot m' = (mg_slot m)\<lparr>sl_final_name := name, sl_final_path := path, sl_id := upload_id, sl_part_path := part\<rparr>)"
proof -
  define m0 where "m0 = (if mg_completed_authorization m \<noteq> authorization
    then m\<lparr>mg_completed_files := 0, mg_completed_authorization := authorization\<rparr> else m)"
  have m0: "mg_queue m0 = mg_queue m" "mg_writer m0 = mg_writer m" "mg_chunks m0 = mg_chunks m" "mg_slot m0 = mg_slot m"
    "mg_destination m0 = mg_destination m" "mg_lease_seconds m0 = mg_lease_seconds m" by (simp_all add: m0_def)
  obtain space s1 where 1: "sys_statvfs s = (space, s1)" by force
  obtain name s2 where 2: "safe_path_unique_name (mg_destination m) requested s1 = (name, s2)" by force
  obtain upload_id s3 where 3: "random_id s2 = (upload_id, s3)" by force
  from assms 1 2 3 obtain n path u where
    n: "name = Some n" "safe_path_join (mg_destination m) n SAFE_PATH_FULL_BYTES = Some path" "upload_id = Some u"
      "length (part_path_text (mg_destination m) u) < SAFE_PATH_FULL_BYTES" "s' = s3"
      "m' = on_slot (\<lambda>x. x\<lparr>sl_id := u, sl_part_path := take (SAFE_PATH_FULL_BYTES - 1) (part_path_text (mg_destination m) u)\<rparr>)
        (on_slot (\<lambda>x. x\<lparr>sl_final_path := path\<rparr>) (on_slot (\<lambda>x. x\<lparr>sl_final_name := n\<rparr>) m0))"
    unfolding prepare_names_def m0_def [symmetric] Let_def m0
    by (auto simp: m0 not_le split: if_splits option.splits)
  have "same_store s s3"
    using 1 unique_name_free [OF 2 [unfolded n(1)]] random_id_store [OF 3]
    by (auto simp: sys_statvfs_def same_store_def split: list.splits)
  moreover have "take (SAFE_PATH_FULL_BYTES - 1) (part_path_text (mg_destination m) u) = part_path_text (mg_destination m) u"
    using n(4) by simp
  ultimately show ?thesis using n m0 by auto
qed

lemma prepare_file_ok:
  assumes "prepare_file b m client authorization amount hash s = (UPLOAD_OK, m', s')"
    "os_names s (sl_part_path (mg_slot m)) = None"
  shows "\<exists>d n. os_names s' = (os_names s)(sl_part_path (mg_slot m) \<mapsto> Regular n) \<and> (\<forall>k. k \<noteq> n \<longrightarrow> os_files s' k = os_files s k) \<and>
    stored d n (unat amount) [] s' \<and> mg_queue m' = mg_queue m \<and> mg_writer m' = mg_writer m \<and>
    ct_transport (mg_chunks m') = ct_transport (mg_chunks m) \<and> ct_active_writes (mg_chunks m') = ct_active_writes (mg_chunks m) \<and>
    ct_finalizing (mg_chunks m') = ct_finalizing (mg_chunks m) \<and> mg_lease_seconds m' = mg_lease_seconds m \<and>
    (\<exists>now. mg_slot m' = (mg_slot m)\<lparr>sl_fd := Some d, sl_direct_io := False, sl_occupied := True, sl_expected := amount,
      sl_last_activity := now, sl_client := client, sl_authorization := authorization, sl_expected_hash := hash\<rparr>)"
proof -
  obtain start s1 where 1: "read_nanos s = (start, s1)" by force
  obtain fd s2 where 2: "open_part_file b (sl_part_path (mg_slot m)) s1 = (fd, s2)" by force
  obtain d where fd: "fd = Some d" using assms(1) 1 2
    by (cases fd) (auto simp: prepare_file_def Let_def storage_result_def split: if_splits)
  obtain ok s3 where 3: "reserve_upload_space b d amount s2 = (ok, s3)" by force
  have ok: "ok" using assms(1) 1 2 fd 3
    by (cases ok) (auto simp: prepare_file_def Let_def storage_result_def split: if_splits)
  obtain c s4 where 4: "allocate_chunks (chunk_count_for amount) (mg_chunks m) s3 = (c, s4)" by force
  obtain finish s5 where 5: "read_nanos s4 = (finish, s5)" by force
  obtain now s6 where 6: "read_seconds s5 = (now, s6)" by force
  note out = assms(1) [unfolded prepare_file_def 1 prod.case 2 fd option.case 3 Let_def]
  have s': "s' = s6" and m': "mg_queue m' = mg_queue m \<and> mg_writer m' = mg_writer m \<and> ct_transport (mg_chunks m') = ct_transport c \<and>
      ct_active_writes (mg_chunks m') = ct_active_writes c \<and> ct_finalizing (mg_chunks m') = ct_finalizing c \<and> mg_lease_seconds m' = mg_lease_seconds m \<and>
      mg_slot m' = (mg_slot m)\<lparr>sl_fd := Some d, sl_direct_io := False, sl_occupied := True, sl_expected := amount,
        sl_last_activity := now, sl_client := client, sl_authorization := authorization, sl_expected_hash := hash\<rparr>"
    using out ok 4 5 6 by (auto split: if_splits)
  have "os_names s1 (sl_part_path (mg_slot m)) = None" using assms(2) read_nanos_store [OF 1] by (simp add: same_store_def)
  from open_part_file_new [OF 2 [unfolded fd] this] read_nanos_store [OF 1] obtain n where
    n: "os_names s2 = (os_names s)(sl_part_path (mg_slot m) \<mapsto> Regular n)" "os_fds s2 d = Some (n, 0)"
      "inode_bytes (os_files s2 n) = []" "\<forall>k. k \<noteq> n \<longrightarrow> os_files s2 k = os_files s k"
    by (auto simp: same_store_def)
  from reserve_stored [OF 3 [unfolded eqTrueI [OF ok]] n(2,3)] have s3: "stored d n (unat amount) [] s3" "only_file n s2 s3" by simp_all
  have "same_store s3 s6"
    using allocate_chunks_store(1) [OF 4] read_nanos_store [OF 5] read_seconds_store [OF 6] by (auto intro: same_store_trans)
  with s3 n have "os_names s6 = (os_names s)(sl_part_path (mg_slot m) \<mapsto> Regular n)" "\<forall>k. k \<noteq> n \<longrightarrow> os_files s6 k = os_files s k"
    "stored d n (unat amount) [] s6" by (auto simp: same_store_def only_file_def stored_def)
  with s' m' allocate_chunks_store(2-4) [OF 4] show ?thesis by metis
qed

lemma prepare_file_terms:
  assumes "prepare_file b m client authorization amount hash s = (r, m', s')"
  shows "sl_id (mg_slot m') = sl_id (mg_slot m) \<and> sl_final_name (mg_slot m') = sl_final_name (mg_slot m)"
  using assms by (auto simp: prepare_file_def Let_def split: prod.splits option.splits bool.splits if_splits)

lemma upload_prepare_ok:
  assumes "upload_prepare b m client authorization json s = (UPLOAD_OK, Some p, m', s')" "free_manager m"
    "os_names s (part_path_text (mg_destination m) (pr_upload_id p)) = None"
  obtains d n requested where "prepared d n m' s'" "sl_id (mg_slot m') = pr_upload_id p"
    "parse_metadata (SAFE_PATH_NAME_BYTES + 1) json = Some (requested, pr_size p, sl_expected_hash (mg_slot m'))"
    "sl_expected (mg_slot m') = pr_size p"
    "safe_path_join (mg_destination m) (pr_final_name p) SAFE_PATH_FULL_BYTES = Some (sl_final_path (mg_slot m'))"
    "sl_part_path (mg_slot m') = part_path_text (mg_destination m) (pr_upload_id p)"
    "os_names s' = (os_names s)(sl_part_path (mg_slot m') \<mapsto> Regular n)" "\<forall>k. k \<noteq> n \<longrightarrow> os_files s' k = os_files s k"
proof -
  from assms(1) obtain requested amount hash where
    parsed: "parse_metadata (SAFE_PATH_NAME_BYTES + 1) json = Some (requested, amount, hash)"
    by (auto simp: upload_prepare_def split: if_splits option.splits)
  obtain m1 s1 where reap: "reap_now m s = (m1, s1)" by force
  have free: "\<not> sl_occupied (mg_slot m)" using assms(2) by (simp add: free_manager_def)
  then have m1: "m1 = m" "same_store s s1"
    using reap_now_cases [OF reap] by (auto simp: lease_expired_def)
  obtain r m2 s2 where names: "prepare_names m authorization requested amount s1 = (r, m2, s2)" by (rule prod_cases3)
  obtain r3 m3 s3 where prep: "prepare_file b m2 client authorization amount hash s2 = (r3, m3, s3)" by (rule prod_cases3)
  note out = assms(1) [unfolded upload_prepare_def parsed option.case prod.case reap m1(1)]
  have r: "r = UPLOAD_OK" "r3 = UPLOAD_OK" "m' = m3" "s' = s3"
    "p = \<lparr>pr_upload_id = sl_id (mg_slot m3), pr_final_name = sl_final_name (mg_slot m3), pr_size = amount\<rparr>"
    using out free names prep by (auto simp: Let_def split: if_splits prod.splits)
  from prepare_names_ok [OF names [unfolded r(1)]] obtain name path upload_id part where
    n: "same_store s1 s2" "mg_queue m2 = mg_queue m" "mg_writer m2 = mg_writer m" "mg_chunks m2 = mg_chunks m"
      "safe_path_join (mg_destination m) name SAFE_PATH_FULL_BYTES = Some path" "part = part_path_text (mg_destination m) upload_id"
      "mg_slot m2 = (mg_slot m)\<lparr>sl_final_name := name, sl_final_path := path, sl_id := upload_id, sl_part_path := part\<rparr>"
    by auto
  have p: "p = \<lparr>pr_upload_id = upload_id, pr_final_name = name, pr_size = amount\<rparr>"
    using r(5) prepare_file_terms [OF prep] n(7) by simp
  then have absent: "os_names s2 (sl_part_path (mg_slot m2)) = None" and chunks: "\<not> ct_transport (mg_chunks m2)" "ct_active_writes (mg_chunks m2) = 0" "\<not> ct_finalizing (mg_chunks m2)"
    using assms(2,3) n m1(2) by (simp_all add: same_store_def free_manager_def no_chunks_def)
  from prepare_file_ok [OF prep [unfolded r(2)] absent] obtain d k now where
    f: "os_names s3 = (os_names s2)(sl_part_path (mg_slot m2) \<mapsto> Regular k)" "\<forall>j. j \<noteq> k \<longrightarrow> os_files s3 j = os_files s2 j"
      "stored d k (unat amount) [] s3" "mg_queue m3 = mg_queue m2" "mg_writer m3 = mg_writer m2"
      "ct_transport (mg_chunks m3) = ct_transport (mg_chunks m2)" "ct_active_writes (mg_chunks m3) = ct_active_writes (mg_chunks m2)"
      "ct_finalizing (mg_chunks m3) = ct_finalizing (mg_chunks m2)"
      "mg_slot m3 = (mg_slot m2)\<lparr>sl_fd := Some d, sl_direct_io := False, sl_occupied := True, sl_expected := amount,
        sl_last_activity := now, sl_client := client, sl_authorization := authorization, sl_expected_hash := hash\<rparr>"
    by blast
  have "prepared d k m' s'"
    using assms(2) n f chunks r(3,4) by (simp add: prepared_def free_manager_def)
  then show thesis
    by (rule that [where requested = requested]) (use parsed p n f r(3,4) m1(2) in \<open>simp_all add: same_store_def\<close>)
qed

section \<open>The start\<close>

lemma upload_begin_ok:
  assumes "upload_begin m upload_id client authorization amount s = (UPLOAD_OK, m', s')" "prepared d n m s"
  shows "streaming d n [] m' s' \<and> buffer_room m' \<and> same_terms m m' \<and> only_file n s s'"
proof -
  obtain m1 s1 where reap: "reap_now m s = (m1, s1)" by force
  have owned: "owns m1 upload_id" using assms(1) reap by (auto simp: upload_begin_def split: if_splits)
  from reap_now_owns [OF reap owned] have m1: "m1 = m" "same_store s s1" by blast+
  obtain m2 s2 where t: "touch (on_slot (\<lambda>x. x\<lparr>sl_started := True\<rparr>) m) s1 = (m2, s2)" by force
  obtain start s3 where r: "read_nanos s2 = (start, s3)" by force
  note touched = touch_outcome [OF t]
  have out: "s' = s3" "m' = on_timing (\<lambda>t. t\<lparr>tm_transfer_start := start, tm_write_elapsed := 0\<rparr>) (on_slot (\<lambda>x. x\<lparr>sl_sha256 := sha256_init\<rparr>) m2)"
    using assms(1) reap m1(1) t r by (auto simp: upload_begin_def split: if_splits)
  have s3: "same_store s s3" using m1(2) touched(2) read_nanos_store [OF r] by (auto intro: same_store_trans)
  have "ring.flow (mg_queue m) = []"
    using assms(2) by (simp add: prepared_def ring.flow_def ring_staged_def ring_contents_def)
  then show ?thesis using assms(2) s3 sha_holds_init
    by (auto simp: out touched(1) prepared_def streaming_def queue_job_def Let_def stream_slot_def buffer_room_def
        same_terms_def UPLOAD_WRITE_BUFFER_BYTES_def same_store_def only_file_def stored_def)
qed

section \<open>Runs\<close>

text \<open>
  \<open>stream_run upload_id m0 s0 data m s\<close>: the client has begun the upload in \<open>m0\<close> and \<open>s0\<close> and sent
  \<open>data\<close>, in calls that succeeded; between them the writer takes and finishes jobs.  The length of one
  piece is a \<open>size_t\<close>.
\<close>

inductive stream_run :: "string \<Rightarrow> upload_manager \<Rightarrow> os \<Rightarrow> byte list \<Rightarrow> upload_manager \<Rightarrow> os \<Rightarrow> bool" for upload_id m0 s0 where
  stream_begin: "upload_begin m0 upload_id client authorization amount s0 = (UPLOAD_OK, m, s) \<Longrightarrow> stream_run upload_id m0 s0 [] m s"
| stream_write: "stream_run upload_id m0 s0 data m s \<Longrightarrow> length x < 2 ^ 64 \<Longrightarrow>
    upload_write m upload_id x s = Some (UPLOAD_OK, m', s') \<Longrightarrow> stream_run upload_id m0 s0 (data @ x) m' s'"
| stream_take: "stream_run upload_id m0 s0 data m s \<Longrightarrow> \<not> wt_active (mg_writer m) \<Longrightarrow> writer_ready m \<Longrightarrow>
    stream_run upload_id m0 s0 data (writer_take m) s"
| stream_done: "stream_run upload_id m0 s0 data m s \<Longrightarrow> wt_active (mg_writer m) \<Longrightarrow> writer_done m s = (m', s') \<Longrightarrow>
    stream_run upload_id m0 s0 data m' s'"

lemma stream_run_inv:
  assumes "stream_run upload_id m0 s0 data m s" "prepared d n m0 s0"
  shows "streaming d n data m s \<and> buffer_room m \<and> same_terms m0 m \<and> only_file n s0 s"
  using assms(1)
proof (induction rule: stream_run.induct)
  case (stream_begin client authorization amount m s)
  from upload_begin_ok [OF stream_begin assms(2)] show ?case .
next
  case (stream_write data m s x m' s')
  then obtain r m1 s1 where "upload_write m upload_id x s = Some (r, m1, s1)"
    "r = UPLOAD_OK \<longrightarrow> streaming d n (data @ x) m1 s1 \<and> buffer_room m1 \<and> same_terms m m1 \<and> only_file n s s1"
    using upload_write_streaming [of d n data m s x upload_id] by blast
  with stream_write show ?case by (auto intro: same_terms_trans only_file_trans)
next
  case (stream_take data m s)
  with writer_take_queue [of d n data m s] show ?case by (simp add: buffer_room_def same_terms_def)
next
  case (stream_done data m s m' s')
  then have inv: "streaming d n data m s" by simp
  from stream_done streaming_writer_done [OF inv stream_done(2,3)] show ?case
    by (auto simp: buffer_room_def same_terms_def intro: only_file_trans)
qed

text \<open>C16: Nothing in a streamed upload waits forever: in every state that a run of it reaches, whatever the system calls
  do, the next write and the finish return a result (each wait for the writer ends, since every job of the writer,
  failed or not, shortens its queue).\<close>
theorem stream_calls_return:
  assumes "prepared d n m0 s0" "stream_run upload_id m0 s0 data m s" "length x < 2 ^ 64"
  shows "(\<exists>result. upload_write m upload_id x s = Some result) \<and> (\<exists>result. upload_finish_with_metrics b m upload_id s = Some result)"
  using stream_run_inv [OF assms(2,1)] upload_write_streaming [of d n data m s x upload_id] finish_streaming [of d n data m s b upload_id]
    assms(3) by blast

text \<open>C13: What a streamed upload stores: let a free manager prepare an upload, let its client begin it, send the data in
  any pieces, with the writer working at any moment in between, and finish it.  If the finish succeeds, the data has
  exactly the announced length, its SHA-256 digest is the one returned and the one announced if any was, and a file
  with exactly these bytes has appeared at the announced place, where nothing was before; apart from the temporary
  name no other name, and no other file, differs from before the preparation.  If it fails, nothing but the
  temporary name and the new file differs.\<close>
theorem stream_stores_data:
  assumes "free_manager m0" "upload_prepare b m0 client authorization json s0 = (UPLOAD_OK, Some p, m1, s1)"
    "os_names s0 (part_path_text (mg_destination m0) (pr_upload_id p)) = None"
    "stream_run (pr_upload_id p) m1 s1 data m2 s2"
    "upload_finish_with_metrics b m2 (pr_upload_id p) s2 = Some (result, digest, m3, s3)"
  shows "\<exists>n final. safe_path_join (mg_destination m0) (pr_final_name p) SAFE_PATH_FULL_BYTES = Some final \<and>
    mg_slot m3 = empty_slot \<and> (\<forall>k. k \<noteq> n \<longrightarrow> os_files s3 k = os_files s0 k) \<and>
    (\<forall>q. q \<noteq> part_path_text (mg_destination m0) (pr_upload_id p) \<longrightarrow> result = UPLOAD_OK \<and> q = final \<or> os_names s3 q = os_names s0 q) \<and>
    (result = UPLOAD_OK \<longrightarrow> length data = unat (pr_size p) \<and> digest = sha256_hex (sha256_spec data) \<and>
      (\<exists>name hash. parse_metadata (SAFE_PATH_NAME_BYTES + 1) json = Some (name, pr_size p, hash) \<and> (hash = [] \<or> hash = digest)) \<and>
      os_names s0 final = None \<and> os_names s3 final = Some (Regular n) \<and> inode_bytes (os_files s3 n) = data)"
proof -
  obtain d n requested where prep: "prepared d n m1 s1"
    "parse_metadata (SAFE_PATH_NAME_BYTES + 1) json = Some (requested, pr_size p, sl_expected_hash (mg_slot m1))"
    "sl_expected (mg_slot m1) = pr_size p"
    "safe_path_join (mg_destination m0) (pr_final_name p) SAFE_PATH_FULL_BYTES = Some (sl_final_path (mg_slot m1))"
    "sl_part_path (mg_slot m1) = part_path_text (mg_destination m0) (pr_upload_id p)"
    "os_names s1 = (os_names s0)(sl_part_path (mg_slot m1) \<mapsto> Regular n)" "\<forall>k. k \<noteq> n \<longrightarrow> os_files s1 k = os_files s0 k"
    using upload_prepare_ok [OF assms(2,1,3)] by metis
  from stream_run_inv [OF assms(4) prep(1)] have run: "streaming d n data m2 s2" "buffer_room m2" "same_terms m1 m2" "only_file n s1 s2"
    by simp_all
  from finish_streaming [OF run(1,2), of b "pr_upload_id p"] assms(5) have "finished n data m2 s2 result digest m3 s3" by fastforce
  from finished_earlier [OF this run(3,4)] have fin: "finished n data m1 s1 result digest m3 s3" .
  show ?thesis
  proof (intro exI [of _ n] exI [of _ "sl_final_path (mg_slot m1)"] conjI)
    show "safe_path_join (mg_destination m0) (pr_final_name p) SAFE_PATH_FULL_BYTES = Some (sl_final_path (mg_slot m1))" by (rule prep(4))
    show "mg_slot m3 = empty_slot" using fin by (simp add: finished_def cleared_def)
    show "\<forall>k. k \<noteq> n \<longrightarrow> os_files s3 k = os_files s0 k"
      using fin prep(7) by (auto simp: finished_def Let_def only_upload_def split: if_splits)
    show "\<forall>q. q \<noteq> part_path_text (mg_destination m0) (pr_upload_id p) \<longrightarrow>
        result = UPLOAD_OK \<and> q = sl_final_path (mg_slot m1) \<or> os_names s3 q = os_names s0 q"
      using fin prep(5,6) by (auto simp: finished_def Let_def only_upload_def split: if_splits)
    show "result = UPLOAD_OK \<longrightarrow> length data = unat (pr_size p) \<and> digest = sha256_hex (sha256_spec data) \<and>
      (\<exists>name hash. parse_metadata (SAFE_PATH_NAME_BYTES + 1) json = Some (name, pr_size p, hash) \<and> (hash = [] \<or> hash = digest)) \<and>
      os_names s0 (sl_final_path (mg_slot m1)) = None \<and> os_names s3 (sl_final_path (mg_slot m1)) = Some (Regular n) \<and>
      inode_bytes (os_files s3 n) = data"
      using fin prep(2,3,6) by (auto simp: finished_def Let_def split: if_splits)
  qed
qed

section \<open>When no call fails\<close>

lemma sync_calm: "os_faults s = [] \<Longrightarrow> os_fds s d \<noteq> None \<Longrightarrow> sync_for_publication b (Some d) s = (True, s)"
  by (auto simp: sync_for_publication_def sync_loop.simps sys_fsync_def split: build.splits)

lemma publish_calm:
  assumes "os_faults s = []" "os_names s part = Some (Regular n)" "os_names s final = None" "parent_exists s final"
  shows "\<exists>k t. publish_part b part final s = (Some k, t)"
  using assms parent_exists_cong [of "s\<lparr>os_errno := ENOENT\<rparr>" s final]
  by (cases b) (auto simp: publish_part_def sys_link_def rename_new_def sys_lstat_def sys_rename_def)

lemma conclude_calm:
  assumes "os_faults s = []" "sl_fd (mg_slot m) = Some d" "os_fds s d \<noteq> None"
    "sl_expected_hash (mg_slot m) = [] \<or> sl_expected_hash (mg_slot m) = digest"
    "os_names s (sl_part_path (mg_slot m)) = Some (Regular n)" "os_names s (sl_final_path (mg_slot m)) = None"
    "parent_exists s (sl_final_path (mg_slot m))"
  shows "\<exists>m' s'. conclude b digest transfer m s = (UPLOAD_OK, m', s')"
proof -
  let ?s = "s\<lparr>os_fds := (os_fds s)(d := None)\<rparr>"
  have close: "sys_close d s = (True, ?s)" using assms(1,3) by (auto simp: sys_close_def)
  have "parent_exists ?s (sl_final_path (mg_slot m))" using assms(7) parent_exists_cong [of ?s s] by simp
  with publish_calm [of ?s "sl_part_path (mg_slot m)" n "sl_final_path (mg_slot m)" b] assms(1,5,6) obtain k t where
    "publish_part b (sl_part_path (mg_slot m)) (sl_final_path (mg_slot m)) ?s = (Some k, t)" by auto
  with assms(2,4) sync_calm [OF assms(1,3)] close show ?thesis
    by (auto simp: conclude_def Let_def split: prod.splits)
qed

lemma upload_begin_calm:
  assumes "prepared d n m s" "calm now m s"
  shows "\<exists>m' s'. upload_begin m (sl_id (mg_slot m)) (sl_client (mg_slot m)) (sl_authorization (mg_slot m)) (sl_expected (mg_slot m)) s =
    (UPLOAD_OK, m', s')"
  using assms(1) calm_reap [OF assms(2)]
  by (simp add: upload_begin_def prepared_def owns_def binding_matches_def touch_def split: prod.splits)

lemma stream_run_calm:
  assumes "stream_run upload_id m0 s0 data m s" "prepared d n m0 s0" "calm now m0 s0"
  shows "calm now m s \<and> upload_id = sl_id (mg_slot m)"
  using assms(1)
proof (induction rule: stream_run.induct)
  case (stream_begin client authorization amount m s)
  note reap = calm_reap [OF assms(3)]
  obtain m2 s2 where t: "touch (on_slot (\<lambda>x. x\<lparr>sl_started := True\<rparr>) m0) s0 = (m2, s2)" by force
  obtain start s3 where r: "read_nanos s2 = (start, s3)" by force
  have owned: "owns m0 upload_id" using stream_begin reap by (auto simp: upload_begin_def split: if_splits)
  have out: "s = s3" "m = on_timing (\<lambda>t. t\<lparr>tm_transfer_start := start, tm_write_elapsed := 0\<rparr>) (on_slot (\<lambda>x. x\<lparr>sl_sha256 := sha256_init\<rparr>) m2)"
    using stream_begin reap t r by (auto simp: upload_begin_def split: if_splits)
  have "calm now m2 s2" using calm_touch [OF _ _ _ _ t, of now] assms(3) by (simp add: calm_def)
  then show ?case using read_nanos_store [OF r] owned touch_outcome(1) [OF t] by (simp add: out calm_def owns_def)
next
  case (stream_write data m s x m' s')
  from stream_run_inv [OF stream_write(1) assms(2)] have inv: "streaming d n data m s" "buffer_room m" by simp_all
  from stream_write have c: "calm now m s" and own: "upload_id = sl_id (mg_slot m)" by simp_all
  have fit: "length data + length x \<le> unat (sl_expected (mg_slot m))"
  proof (rule room_left [OF _ _ stream_write(2)])
    show "of_nat (length x) \<le> sl_expected (mg_slot m) - of_nat (length data)"
      using stream_write(3) calm_reap [OF c] inv(1) by (auto simp: upload_write_def streaming_def stream_slot_def not_less split: if_splits)
    show "length data \<le> unat (sl_expected (mg_slot m))" using inv(1) by (simp add: streaming_def stream_slot_def)
  qed
  from upload_write_calm [OF inv c fit own [symmetric]] stream_write(3) own show ?case by (auto simp: same_terms_def)
next
  case (stream_take data m s)
  from stream_run_inv [OF stream_take(1) assms(2)] have "streaming d n data m s" by simp
  from writer_take_queue [OF this stream_take(2,3)] stream_take show ?case by (simp add: calm_def)
next
  case (stream_done data m s m' s')
  from stream_run_inv [OF stream_done(1) assms(2)] have "streaming d n data m s" by simp
  from streaming_writer_done [OF this stream_done(2,3)] stream_done show ?case by (simp add: calm_def undisturbed_def)
qed

lemma finish_calm:
  assumes "streaming d n data m s" "buffer_room m" "calm now m s" "length data = unat (sl_expected (mg_slot m))"
    "sl_expected_hash (mg_slot m) = [] \<or> sl_expected_hash (mg_slot m) = sha256_hex (sha256_spec data)"
    "os_names s (sl_final_path (mg_slot m)) = None" "parent_exists s (sl_final_path (mg_slot m))"
  shows "\<exists>digest m' s'. upload_finish_with_metrics b m (sl_id (mg_slot m)) s = Some (UPLOAD_OK, digest, m', s')"
proof -
  from assms(3) have ok: "wt_error (mg_writer m) = E0" by (simp add: calm_def)
  from flush_queue_streaming [OF assms(1,2) ok] assms(3) obtain m2 s2 where
    flush: "flush_queue m s = Some (E0, m2, s2)" "streaming d n data m2 s2" "same_terms m m2" "only_file n s s2" "calm now m2 s2"
    by blast
  obtain end_time s3 where r: "read_nanos s2 = (end_time, s3)" by force
  note s3 = read_nanos_store [OF r]
  have slot: "sl_occupied (mg_slot m)" "sl_started (mg_slot m)" "\<not> sl_fast_direct (mg_slot m)" "sl_received (mg_slot m) = sl_expected (mg_slot m)"
    using assms(1,4) by (simp_all add: streaming_def stream_slot_def)
  have start: "upload_finish_start m (sl_id (mg_slot m)) s =
      Some (Finish_stream (elapsed_nanoseconds (tm_transfer_start (mg_timing m2)) end_time), m2, s3)"
    using slot ok flush(1) r calm_reap [OF assms(3)] by (simp add: upload_finish_start_def owns_def)
  have sha: "sha256_final (sl_sha256 (mg_slot m2)) = (sha256_spec data, sha256_zero)"
    using flush(2) by (intro sha256_final_spec) (simp add: streaming_def stream_slot_def)
  let ?m = "on_slot (\<lambda>x. x\<lparr>sl_sha256 := sha256_zero\<rparr>) m2"
  have "\<exists>m' s'. conclude b (sha256_hex (sha256_spec data)) (Some (elapsed_nanoseconds (tm_transfer_start (mg_timing m2)) end_time)) ?m s3 =
      (UPLOAD_OK, m', s')"
  proof (rule conclude_calm)
    show "os_faults s3 = []" using flush(5) s3 by (simp add: calm_def)
    show "sl_fd (mg_slot ?m) = Some d" using flush(2) by (simp add: streaming_def stream_slot_def)
    show "os_fds s3 d \<noteq> None" using flush(2) s3 by (auto simp: streaming_def stored_def same_store_def)
    show "sl_expected_hash (mg_slot ?m) = [] \<or> sl_expected_hash (mg_slot ?m) = sha256_hex (sha256_spec data)"
      using flush(3) assms(5) by (simp add: same_terms_def)
    show "os_names s3 (sl_part_path (mg_slot ?m)) = Some (Regular n)" using flush(2) s3 by (simp add: streaming_def same_store_def)
    show "os_names s3 (sl_final_path (mg_slot ?m)) = None"
      using flush(3,4) s3 assms(6) by (simp add: same_terms_def only_file_def same_store_def)
    have "os_names s3 = os_names s" using flush(4) s3 by (simp add: only_file_def same_store_def)
    then show "parent_exists s3 (sl_final_path (mg_slot ?m))"
      using parent_exists_cong [of s3 s] flush(3) assms(7) by (simp add: same_terms_def)
  qed
  then show ?thesis using start by (auto simp: upload_finish_with_metrics_def upload_finish_end_def stream_digest_def sha)
qed

text \<open>C14: A streamed upload works: on a prepared upload, when no system call fails and the clock stands still (so that
  the lease does not run out), every write that keeps within the announced size is accepted, in whatever pieces and
  however far the writer has got, even with all four buffers full; and once everything has arrived the finish
  succeeds, provided the digest is the announced one (if any) and nothing is stored at the final place.\<close>
theorem stream_works:
  assumes "prepared d n m0 s0" "calm now m0 s0" "stream_run upload_id m0 s0 data m s"
    "os_names s0 (sl_final_path (mg_slot m0)) = None" "parent_exists s0 (sl_final_path (mg_slot m0))"
    "sl_expected_hash (mg_slot m0) \<in> {[], sha256_hex (sha256_spec data)}"
  shows "(length data + length x \<le> unat (sl_expected (mg_slot m0)) \<longrightarrow>
      (\<exists>m' s'. upload_write m upload_id x s = Some (UPLOAD_OK, m', s'))) \<and>
    (length data = unat (sl_expected (mg_slot m0)) \<longrightarrow>
      (\<exists>digest m' s'. upload_finish_with_metrics b m upload_id s = Some (UPLOAD_OK, digest, m', s')))" (is "?more \<and> ?ending")
proof
  note inv = stream_run_inv [OF assms(3,1), THEN conjunct1] stream_run_inv [OF assms(3,1), THEN conjunct2, THEN conjunct1]
    stream_run_inv [OF assms(3,1), THEN conjunct2, THEN conjunct2, THEN conjunct1]
    stream_run_inv [OF assms(3,1), THEN conjunct2, THEN conjunct2, THEN conjunct2]
  note c = stream_run_calm [OF assms(3,1,2), THEN conjunct1] stream_run_calm [OF assms(3,1,2), THEN conjunct2]
  have names: "os_names s = os_names s0" using inv(4) by (simp add: only_file_def)
  show ?more using upload_write_calm [OF inv(1,2) c(1), of x upload_id] c(2) inv(3) by (auto simp: same_terms_def)
  show ?ending using finish_calm [OF inv(1,2) c(1), of b] c(2) inv(3) assms(4-6) names parent_exists_cong [OF names]
    by (auto simp: same_terms_def)
qed

section \<open>An example\<close>

text \<open>Three bytes are announced; two arrive, then one.\<close>

definition example_os :: os where
  "example_os = (mounted [''/data'', ''/data/in''])\<lparr>os_seconds := [5], os_nanos := [7],
     os_random := [Some (replicate 16 0xab)], os_space := [Some (4096, 100)]\<rparr>"

definition example_prepare :: "upload_result \<times> upload_prepared option \<times> upload_manager \<times> os" where
  "example_prepare = upload_prepare PS5 idle_manager ''c'' ''t'' (Some small_body) example_os"

lemma free_idle_manager: "free_manager idle_manager"
  using ring_ok_empty [of "replicate UPLOAD_WRITE_QUEUE_DEPTH []"]
  by (simp add: free_manager_def idle_manager_def idle_writer_def empty_slot_def empty_queue_def)

definition example_id :: string where "example_id = concat (replicate 16 ''ab'')"

definition example_manager :: upload_manager where "example_manager = fst (snd (snd example_prepare))"
definition example_system :: os where "example_system = snd (snd (snd example_prepare))"

lemma example_prepare_fields:
  "case example_prepare of (r, p, m, s) \<Rightarrow>
     (r = UPLOAD_OK \<and> p = Some \<lparr>pr_upload_id = example_id, pr_final_name = ''f'', pr_size = 3\<rparr>) \<and>
     (sl_id (mg_slot m) = example_id \<and> sl_expected (mg_slot m) = 3 \<and> sl_expected_hash (mg_slot m) = [] \<and>
      sl_final_path (mg_slot m) = ''/data/in/f'') \<and>
     (os_faults s = [] \<and> os_seconds s = [5] \<and> wt_error (mg_writer m) = E0 \<and> sl_last_activity (mg_slot m) = 5 \<and>
      mg_lease_seconds m = 60) \<and>
     os_names s ''/data/in/f'' = None \<and> parent_exists s ''/data/in/f''"
  by code_simp

lemma example_prepare_eq:
  "example_prepare = (UPLOAD_OK, Some \<lparr>pr_upload_id = example_id, pr_final_name = ''f'', pr_size = 3\<rparr>, example_manager, example_system)"
  using example_prepare_fields by (simp add: example_manager_def example_system_def prod_eq_iff case_prod_beta)

lemmas example_prepared = example_prepare_eq [unfolded example_prepare_def]
  and example_fields = example_prepare_fields [unfolded example_prepare_eq prod.case]

lemma example_part_new: "os_names example_os (part_path_text (mg_destination idle_manager) example_id) = None"
  by code_simp

lemma example_terms:
  "sl_id (mg_slot example_manager) = example_id" "sl_expected (mg_slot example_manager) = 3"
  "sl_expected_hash (mg_slot example_manager) = []" "sl_final_path (mg_slot example_manager) = ''/data/in/f''"
  using example_fields by simp_all

lemma example_calm: "calm 5 example_manager example_system"
  using example_fields by (simp add: calm_def)

lemma example_final_free: "os_names example_system ''/data/in/f'' = None"
  and example_parent: "parent_exists example_system ''/data/in/f''"
  using example_fields by simp_all

lemma example_ready: obtains d n where "prepared d n example_manager example_system"
  using upload_prepare_ok [OF example_prepared free_idle_manager] example_part_new by force

lemma example_run:
  obtains m s where "stream_run example_id example_manager example_system ([1, 2] @ [3]) m s"
proof -
  obtain d n where ready: "prepared d n example_manager example_system" by (rule example_ready)
  obtain m1 s1 where b: "stream_run example_id example_manager example_system [] m1 s1"
    using upload_begin_calm [OF ready example_calm] by (metis example_terms(1) stream_run.stream_begin)
  note inv = stream_run_inv [OF b ready] and c = stream_run_calm [OF b ready example_calm]
  have "length [] + length [1, 2 :: byte] \<le> unat (sl_expected (mg_slot m1))" using inv example_terms by (simp add: same_terms_def)
  then obtain m2 s2 where "upload_write m1 example_id [1, 2] s1 = Some (UPLOAD_OK, m2, s2)"
    using inv c upload_write_calm [of d n "[]" m1 s1 5 "[1, 2]" example_id] by auto
  then have b2: "stream_run example_id example_manager example_system ([] @ [1, 2]) m2 s2"
    by (intro stream_run.stream_write [OF b]) simp_all
  note inv2 = stream_run_inv [OF b2 ready] and c2 = stream_run_calm [OF b2 ready example_calm]
  have "length ([] @ [1, 2 :: byte]) + length [3 :: byte] \<le> unat (sl_expected (mg_slot m2))"
    using inv2 example_terms by (simp add: same_terms_def)
  then obtain m3 s3 where "upload_write m2 example_id [3] s2 = Some (UPLOAD_OK, m3, s3)"
    using inv2 c2 upload_write_calm [of d n "[] @ [1, 2]" m2 s2 5 "[3]" example_id] by auto
  with stream_run.stream_write [OF b2, of "[3]"] show thesis by (intro that) simp
qed

lemma example_finish:
  assumes "stream_run example_id example_manager example_system ([1, 2] @ [3]) m s"
  obtains digest m' s' where "upload_finish_with_metrics PS5 m example_id s = Some (UPLOAD_OK, digest, m', s')"
proof -
  obtain d n where ready: "prepared d n example_manager example_system" by (rule example_ready)
  note inv = stream_run_inv [OF assms ready] and c = stream_run_calm [OF assms ready example_calm]
  from inv have names: "os_names s = os_names example_system" by (simp add: only_file_def)
  have "\<exists>digest m' s'. upload_finish_with_metrics PS5 m (sl_id (mg_slot m)) s = Some (UPLOAD_OK, digest, m', s')"
    by (rule finish_calm [of d n "[1, 2] @ [3]" m s 5])
      (use inv c example_terms example_final_free example_parent names parent_exists_cong [OF names] in \<open>auto simp: same_terms_def\<close>)
  with c show thesis using that by auto
qed

theorem stream_calls_return_witness:
  "\<exists>m s. stream_run example_id example_manager example_system ([1, 2] @ [3]) m s \<and>
    (\<exists>result. upload_write m example_id [4] s = Some result) \<and> (\<exists>result. upload_finish_with_metrics PS5 m example_id s = Some result)"
proof -
  obtain d n where ready: "prepared d n example_manager example_system" by (rule example_ready)
  obtain m s where run: "stream_run example_id example_manager example_system ([1, 2] @ [3]) m s" by (rule example_run)
  have "length [4 :: byte] < 2 ^ 64" by simp
  from stream_calls_return [OF ready run this, of PS5] run show ?thesis by blast
qed

theorem stream_stores_data_witness:
  "\<exists>m s digest m' s' n. stream_run example_id example_manager example_system ([1, 2] @ [3]) m s \<and>
    upload_finish_with_metrics PS5 m example_id s = Some (UPLOAD_OK, digest, m', s') \<and>
    digest = sha256_hex (sha256_spec [1, 2, 3]) \<and> os_names s' ''/data/in/f'' = Some (Regular n) \<and> inode_bytes (os_files s' n) = [1, 2, 3]"
proof -
  obtain m s where run: "stream_run example_id example_manager example_system ([1, 2] @ [3]) m s" by (rule example_run)
  obtain digest m' s' where fin: "upload_finish_with_metrics PS5 m example_id s = Some (UPLOAD_OK, digest, m', s')"
    by (rule example_finish [OF run])
  have join: "safe_path_join (mg_destination idle_manager) ''f'' SAFE_PATH_FULL_BYTES = Some ''/data/in/f''" by code_simp
  have "os_names example_os (part_path_text (mg_destination idle_manager)
      (pr_upload_id \<lparr>pr_upload_id = example_id, pr_final_name = ''f'', pr_size = 3\<rparr>)) = None" using example_part_new by simp
  from stream_stores_data [OF free_idle_manager example_prepared this, unfolded upload_prepared.select_convs, OF run fin] join
  obtain n where "digest = sha256_hex (sha256_spec ([1, 2] @ [3]))" "os_names s' ''/data/in/f'' = Some (Regular n)"
    "inode_bytes (os_files s' n) = [1, 2] @ [3]" by auto
  with run fin show ?thesis
    by (intro exI [of _ m] exI [of _ s] exI [of _ digest] exI [of _ m'] exI [of _ s'] exI [of _ n]) simp
qed

theorem stream_works_witness:
  "\<exists>m s digest m' s'. stream_run example_id example_manager example_system ([1, 2] @ [3]) m s \<and>
    upload_finish_with_metrics PS5 m example_id s = Some (UPLOAD_OK, digest, m', s')"
proof -
  obtain d n where ready: "prepared d n example_manager example_system" by (rule example_ready)
  obtain m s where run: "stream_run example_id example_manager example_system ([1, 2] @ [3]) m s" by (rule example_run)
  from stream_works [OF ready example_calm run, of "[]" PS5] have
    "\<exists>digest m' s'. upload_finish_with_metrics PS5 m example_id s = Some (UPLOAD_OK, digest, m', s')"
    by (simp add: example_terms example_final_free example_parent)
  with run show ?thesis by blast
qed

end
