(* ===== verification/UploadDirect.thy ===== *)
theory UploadDirect
  imports UploadRuns
begin

text \<open>
  The body of an upload over the fast listener: its pieces go straight into the temporary file and the digest is
  computed from the file at the end.  First what every call keeps while the writer rests, then what
  the file holds.
\<close>

section \<open>While the writer rests\<close>

text \<open>The temporary name, if any, is \<open>part\<close>, and nothing is being written, by the writer or directly.\<close>

definition quiet :: "string \<Rightarrow> upload_manager \<Rightarrow> bool" where
  "quiet part m \<longleftrightarrow> \<not> wt_active (mg_writer m) \<and> sl_part_path (mg_slot m) \<in> {part, []} \<and> ct_active_writes (mg_chunks m) = 0"

lemma quiet_clear:
  assumes "quiet part m" "clear_slot remove m s = (ok, m', s')"
  shows "quiet part m' \<and> cleared m' \<and> only_upload part n s s'"
proof -
  have idle: "\<not> wt_active (mg_writer m)" using assms(1) by (simp add: quiet_def)
  then have "wt_active (mg_writer m) \<Longrightarrow> (\<exists>i b len. wt_job (mg_writer m) = Some (Queue_job i b len)) \<and>
      (\<exists>d amount data. sl_fd (mg_slot m) = Some d \<and> stored d n amount data s)" by simp
  note effect = clear_slot_effect [OF assms(2) this]
  have "only_upload part n s s'" using effect(1,3,4) idle assms(1) by (auto simp: only_upload_def quiet_def)
  then show ?thesis using effect(5) clear_slot_cleared [OF assms(2)] by (simp add: quiet_def cleared_def empty_slot_def no_chunks_def)
qed

lemma quiet_reap:
  assumes "quiet part m" "reap_now m s = (m', s')"
  shows "quiet part m' \<and> only_upload part n s s'"
proof -
  obtain now t where r: "read_seconds s = (now, t)" by force
  note store = same_store_upload [OF read_seconds_store [OF r, THEN conjunct1], of part n]
  show ?thesis
  proof (cases "lease_expired m now")
    case False
    with assms r store show ?thesis by (simp add: reap_now_def reap_locked_def)
  next
    case True
    obtain ok m1 s1 where c: "clear_slot True m t = (ok, m1, s1)" by (rule prod_cases3)
    with True assms(2) r have "m' = m1" "s' = s1" by (simp_all add: reap_now_def reap_locked_def)
    with quiet_clear [OF assms(1) c, of n] store show ?thesis by (auto intro: only_upload_trans)
  qed
qed

text \<open>Every call of a stream keeps the writer at rest and touches at most the temporary name and its file.\<close>

definition tidy :: "string \<Rightarrow> nat \<Rightarrow> upload_manager \<Rightarrow> os \<Rightarrow> upload_manager \<Rightarrow> os \<Rightarrow> bool" where
  "tidy part n m s m' s' \<longleftrightarrow> (quiet part m \<longrightarrow> quiet part m' \<and> only_upload part n s s')"

lemma only_upload_refl [simp]: "only_upload part n s s"
  by (simp add: only_upload_def)

lemma only_upload_errno [simp]: "only_upload part n s (t\<lparr>os_errno := e\<rparr>) = only_upload part n s t"
  by (simp add: only_upload_def)

lemma tidy_refl [simp]: "tidy part n m s m s"
  by (simp add: tidy_def)

lemma tidy_trans: "tidy part n m s m1 s1 \<Longrightarrow> tidy part n m1 s1 m2 s2 \<Longrightarrow> tidy part n m s m2 s2"
  by (auto simp: tidy_def intro: only_upload_trans)

lemma tidy_store: "same_store s s' \<Longrightarrow> tidy part n m s m s'"
  by (simp add: tidy_def same_store_upload)

lemma tidy_reap: "reap_now m s = (m', s') \<Longrightarrow> tidy part n m s m' s'"
  using quiet_reap by (simp add: tidy_def)

lemma tidy_same:
  "mg_writer m' = mg_writer m \<Longrightarrow> sl_part_path (mg_slot m') = sl_part_path (mg_slot m) \<Longrightarrow>
   ct_active_writes (mg_chunks m') = ct_active_writes (mg_chunks m) \<Longrightarrow> same_store s s' \<Longrightarrow> tidy part n m s m' s'"
  by (simp add: tidy_def quiet_def same_store_upload)

lemma tidy_touch:
  assumes "touch m s = (m', s')" "mg_writer m = mg_writer m0" "sl_part_path (mg_slot m) = sl_part_path (mg_slot m0)"
    "ct_active_writes (mg_chunks m) = ct_active_writes (mg_chunks m0)" "same_store s0 s"
  shows "tidy part n m0 s0 m' s'"
  using touch_outcome(1,2) [OF assms(1)] assms(2-5) by (auto intro: tidy_same same_store_trans)

lemma chunk_changes_writes [simp]:
  "ct_active_writes (set_chunk i a b c t) = ct_active_writes t" "ct_active_writes (mg_chunks (drop_chunk i m)) = ct_active_writes (mg_chunks m)"
  by (simp_all add: set_chunk_def drop_chunk_def Let_def)

lemma tidy_clear_failed:
  assumes "clear_failed r m s = (r', m', s')"
  shows "tidy part n m s m' s'"
proof -
  obtain ok m1 s1 where "clear_slot True m s = (ok, m1, s1)" by (rule prod_cases3)
  with quiet_clear [OF _ this, of part n] assms show ?thesis by (simp add: tidy_def clear_failed_def)
qed

lemma tidy_begin:
  assumes "upload_begin m upload_id client authorization amount s = (r, m', s')"
  shows "tidy part n m s m' s'"
proof -
  obtain m1 s1 where 1: "reap_now m s = (m1, s1)" by force
  obtain m2 s2 where 2: "touch (on_slot (\<lambda>x. x\<lparr>sl_started := True\<rparr>) m1) s1 = (m2, s2)" by force
  obtain start s3 where 3: "read_nanos s2 = (start, s3)" by force
  have "tidy part n m1 s1 m2 s2" by (rule tidy_touch [OF 2]) simp_all
  moreover have "tidy part n m2 s2 (on_timing (\<lambda>t. t\<lparr>tm_transfer_start := start, tm_write_elapsed := 0\<rparr>)
      (on_slot (\<lambda>x. x\<lparr>sl_sha256 := sha256_init\<rparr>) m2)) s3"
    by (rule tidy_same) (use read_nanos_store [OF 3] in simp_all)
  ultimately have "tidy part n m1 s1 (on_timing (\<lambda>t. t\<lparr>tm_transfer_start := start, tm_write_elapsed := 0\<rparr>)
      (on_slot (\<lambda>x. x\<lparr>sl_sha256 := sha256_init\<rparr>) m2)) s3" by (rule tidy_trans)
  then show ?thesis
    using assms tidy_reap [OF 1, of part n] 1 2 3 by (auto simp: upload_begin_def split: if_splits intro: tidy_trans)
qed

lemma tidy_cancel:
  assumes "upload_cancel m upload_id client authorization s = Some (r, m', s')"
  shows "tidy part n m s m' s'"
proof -
  obtain m1 s1 where 1: "reap_now m s = (m1, s1)" by force
  obtain r2 m2 s2 where 2: "clear_failed UPLOAD_OK m1 s1 = (r2, m2, s2)" by (rule prod_cases3)
  show ?thesis using assms tidy_reap [OF 1, of part n] tidy_clear_failed [OF 2, of part n] 1 2
    by (auto simp: upload_cancel_def split: if_splits intro: tidy_trans)
qed

lemma tidy_abort:
  assumes "upload_abort m upload_id s = Some (m', s')"
  shows "tidy part n m s m' s'"
proof -
  obtain ok m2 s2 where 2: "clear_slot True m s = (ok, m2, s2)" by (rule prod_cases3)
  show ?thesis using assms quiet_clear [OF _ 2, of part n] 2 by (auto simp: upload_abort_def tidy_def split: if_splits)
qed

lemma tidy_chunk_begin:
  assumes "upload_chunk_begin m upload_id client authorization whole offset amount s = (r, m', s')"
  shows "tidy part n m s m' s'"
proof -
  obtain m1 s1 where 1: "reap_now m s = (m1, s1)" by force
  obtain ok s2 where 2: "allocate s1 = (ok, s2)" by force
  obtain start s3 where 3: "read_nanos s2 = (start, s3)" by force
  note stores = allocate_store [OF 2] read_nanos_store [OF 3]
  define i where "i = unat (offset div UPLOAD_CHUNK_BYTES)"
  define mb where "mb = on_chunks (\<lambda>c. (set_chunk i 1 0 (Some []) c)\<lparr>ct_active_buffers := ct_active_buffers c + 1\<rparr>) m1"
  define mc where "mc = on_timing (\<lambda>t. t\<lparr>tm_transfer_start := start, tm_write_elapsed := 0\<rparr>)
    (on_chunks (\<lambda>c. c\<lparr>ct_transport := True\<rparr>) (on_slot (\<lambda>x. x\<lparr>sl_started := True\<rparr>) mb))"
  obtain md sd where d: "touch mb s2 = (md, sd)" by force
  obtain me se where e: "touch mc s3 = (me, se)" by force
  have s3: "same_store s1 s3" using stores by (auto intro: same_store_trans)
  have ends: "tidy part n m1 s1 md sd" "tidy part n m1 s1 me se"
    by (rule tidy_touch [OF d], simp_all add: mb_def stores) (rule tidy_touch [OF e], simp_all add: mb_def mc_def s3)
  have failed: "tidy part n m1 s1 m1 (s2\<lparr>os_errno := ENOMEM\<rparr>)"
    using stores by (auto intro: tidy_same simp: same_store_def)
  have "(m', s') \<in> {(m, s), (m1, s1), (md, sd), (me, se), (m1, s2\<lparr>os_errno := ENOMEM\<rparr>)}"
    using assms 1 2 3 d [unfolded mb_def, simplified] e [unfolded mc_def mb_def, simplified]
    by (simp add: upload_chunk_begin_def Let_def i_def [symmetric] split: if_splits bool.splits)
  with ends failed tidy_reap [OF 1, of part n] show ?thesis by (auto intro: tidy_trans)
qed

lemma drop_chunk_same [simp]:
  "mg_writer (drop_chunk i m) = mg_writer m" "sl_part_path (mg_slot (drop_chunk i m)) = sl_part_path (mg_slot m)"
  by (simp_all add: drop_chunk_def Let_def)

lemma tidy_chunk_write:
  assumes "upload_chunk_write m upload_id offset data s = (r, m', s')"
  shows "tidy part n m s m' s'"
proof -
  obtain m1 s1 where 1: "reap_now m s = (m1, s1)" by force
  define i where "i = unat (offset div UPLOAD_CHUNK_BYTES)"
  define c where "c = mg_chunks m1"
  define mb where "mb = on_slot (\<lambda>x. x\<lparr>sl_received := sl_received x + of_nat (length data)\<rparr>)
    (on_chunks (set_chunk i 1 (the (ct_progress c) ! i + of_nat (length data))
      (Some (overwrite (the (the (ct_buffers c) ! i)) (unat (offset - of_nat i * UPLOAD_CHUNK_BYTES)) data))) m1)"
  obtain md sd where d: "touch mb s1 = (md, sd)" by force
  have "tidy part n m1 s1 md sd" by (rule tidy_touch [OF d]) (simp_all add: mb_def)
  moreover have "(m', s') \<in> {(m, s), (m1, s1), (md, sd)}"
    using assms 1 d [unfolded mb_def c_def, simplified]
    by (simp add: upload_chunk_write_def Let_def i_def [symmetric] split: if_splits)
  ultimately show ?thesis using tidy_reap [OF 1, of part n] by (auto intro: tidy_trans)
qed

lemma tidy_chunk_finish:
  assumes "upload_chunk_finish m upload_id offset amount s = (r, m', s')"
  shows "tidy part n m s m' s'"
proof -
  obtain m1 s1 where 1: "reap_now m s = (m1, s1)" by force
  define i where "i = unat (offset div UPLOAD_CHUNK_BYTES)"
  define mb where "mb = on_chunks (\<lambda>c. c\<lparr>ct_states := Some ((the (ct_states (mg_chunks m1)))[i := 2]),
    ct_completed := ct_completed (mg_chunks m1) + 1\<rparr>) m1"
  obtain md sd where d: "touch mb s1 = (md, sd)" by force
  have "tidy part n m1 s1 md sd" by (rule tidy_touch [OF d]) (simp_all add: mb_def)
  moreover have "tidy part n m1 s1 (drop_chunk i m1) s1" by (rule tidy_same) simp_all
  moreover have "(m', s') \<in> {(m, s), (m1, s1), (md, sd), (drop_chunk i m1, s1)}"
    using assms 1 d [unfolded mb_def, simplified]
    by (simp add: upload_chunk_finish_def Let_def i_def [symmetric] split: if_splits)
  ultimately show ?thesis using tidy_reap [OF 1, of part n] by (auto intro: tidy_trans)
qed

lemma tidy_chunk_abort:
  assumes "upload_chunk_abort m upload_id offset s = (m', s')"
  shows "tidy part n m s m' s'"
proof -
  obtain md sd where d: "touch (drop_chunk (unat (offset div UPLOAD_CHUNK_BYTES)) m) s = (md, sd)" by force
  have "tidy part n m s md sd" by (rule tidy_touch [OF d]) simp_all
  with assms d show ?thesis by (auto simp: upload_chunk_abort_def Let_def split: if_splits)
qed

section \<open>The file of a direct stream\<close>

text \<open>The upload is streamed directly: the writer has nothing to do, and the file begins with what has arrived.\<close>

definition direct_slot :: "nat \<Rightarrow> byte list \<Rightarrow> upload_slot \<Rightarrow> bool" where
  "direct_slot d data x \<longleftrightarrow> sl_occupied x \<and> sl_started x \<and> sl_fast_direct x \<and> sl_fd x = Some d \<and>
     sl_received x = of_nat (length data) \<and> length data \<le> unat (sl_expected x)"

definition directing :: "nat \<Rightarrow> nat \<Rightarrow> byte list \<Rightarrow> upload_manager \<Rightarrow> os \<Rightarrow> bool" where
  "directing d n data m s \<longleftrightarrow>
     \<not> wt_active (mg_writer m) \<and> wt_error (mg_writer m) = E0 \<and> ct_active_writes (mg_chunks m) = 0 \<and>
     \<not> ct_finalizing (mg_chunks m) \<and> direct_slot d data (mg_slot m) \<and>
     os_names s (sl_part_path (mg_slot m)) = Some (Regular n) \<and> stored d n (unat (sl_expected (mg_slot m))) data s"

lemma directing_quiet: "directing d n data m s \<Longrightarrow> quiet (sl_part_path (mg_slot m)) m"
  by (simp add: directing_def quiet_def)

lemma directing_store: "directing d n data m s \<Longrightarrow> same_store s t \<Longrightarrow> directing d n data m t"
  by (simp add: directing_def same_store_def stored_def)

lemma prepared_quiet: "prepared d n m s \<Longrightarrow> quiet (sl_part_path (mg_slot m)) m"
  by (simp add: prepared_def quiet_def)

lemma begin_direct:
  assumes "upload_begin m upload_id client authorization amount s = (UPLOAD_OK, m1, s1)" "prepared d n m s"
  shows "\<exists>m2. upload_enable_direct_stream m1 upload_id = (UPLOAD_OK, m2) \<and> directing d n [] m2 s1 \<and> same_terms m m2 \<and>
    only_file n s s1 \<and> upload_id = sl_id (mg_slot m) \<and> amount = sl_expected (mg_slot m)"
proof -
  obtain ma sa where reap: "reap_now m s = (ma, sa)" by force
  have owned: "owns ma upload_id" "amount = sl_expected (mg_slot ma)" using assms(1) reap by (auto simp: upload_begin_def split: if_splits)
  from reap_now_owns [OF reap owned(1)] have ma: "ma = m" "same_store s sa" by blast+
  obtain mb sb where t: "touch (on_slot (\<lambda>x. x\<lparr>sl_started := True\<rparr>) m) sa = (mb, sb)" by force
  obtain start sc where r: "read_nanos sb = (start, sc)" by force
  note touched = touch_outcome [OF t]
  have out: "s1 = sc" "m1 = on_timing (\<lambda>t. t\<lparr>tm_transfer_start := start, tm_write_elapsed := 0\<rparr>) (on_slot (\<lambda>x. x\<lparr>sl_sha256 := sha256_init\<rparr>) mb)"
    using assms(1) reap ma(1) t r by (auto simp: upload_begin_def split: if_splits)
  have "same_store s sc" using ma(2) touched(2) read_nanos_store [OF r] by (auto intro: same_store_trans)
  with assms(2) owned ma(1) show ?thesis
    by (auto simp: out touched(1) prepared_def directing_def direct_slot_def upload_enable_direct_stream_def owns_def
        same_terms_def same_store_def only_file_def stored_def)
qed

text \<open>A direct write stores its bytes, or fails with at most the temporary file changed.\<close>

lemma write_end_directing:
  assumes "directing d n data m s" "m1 = on_slot (\<lambda>x. x\<lparr>sl_last_activity := now\<rparr>) (on_chunks (\<lambda>c. c\<lparr>ct_active_writes := ct_active_writes c + 1\<rparr>) m)"
    "length data + length x \<le> unat (sl_expected (mg_slot m))" "write_direct_end m1 x s = (r, m', s')"
  shows "if r = UPLOAD_OK then directing d n (data @ x) m' s' \<and> same_terms m m' \<and> only_file n s s'
    else quiet (sl_part_path (mg_slot m)) m' \<and> only_file n s s'"
proof -
  obtain start s1 where 1: "read_nanos s = (start, s1)" by force
  obtain e s2 where 2: "write_all (sl_fd (mg_slot m1)) x s1 = (e, s2)" by force
  obtain finish s3 where 3: "read_nanos s2 = (finish, s3)" by force
  define mf where "mf = on_chunks (\<lambda>c. c\<lparr>ct_active_writes := ct_active_writes c - 1\<rparr>)
    (on_timing (\<lambda>t. t\<lparr>tm_write_elapsed := tm_write_elapsed t + elapsed_nanoseconds start finish\<rparr>) m1)"
  obtain m4 s4 where 4: "touch (on_slot (\<lambda>x'. x'\<lparr>sl_received := sl_received x' + of_nat (length x)\<rparr>) mf) s3 = (m4, s4)" by force
  have fd: "sl_fd (mg_slot m1) = Some d" "stored d n (unat (sl_expected (mg_slot m))) data s1"
    using assms(1,2) read_nanos_store [OF 1] by (auto simp: directing_def direct_slot_def same_store_def stored_def)
  from write_all_stored [OF 2 [unfolded fd(1)] fd(2)] obtain k where
    k: "stored d n (unat (sl_expected (mg_slot m))) (data @ take k x) s2" "only_file n s1 s2" "e = E0 \<longrightarrow> k = length x" by blast
  have store3: "only_file n s s3" using k(2) read_nanos_store [OF 1] read_nanos_store [OF 3] by (simp add: only_file_def same_store_def)
  have out: "if e \<noteq> E0 then r = storage_result e \<and> m' = on_writer (\<lambda>w. w\<lparr>wt_error := e\<rparr>) mf \<and> s' = s3\<lparr>os_errno := e\<rparr>
      else r = UPLOAD_OK \<and> m' = m4 \<and> s' = s4"
    using assms(4) 1 2 3 4 [unfolded mf_def, simplified] by (auto simp: write_direct_end_def Let_def mf_def split: if_splits)
  show ?thesis
  proof (cases "e = E0")
    case True
    note t = touch_outcome [OF 4]
    have s4: "same_store s3 s4" by (rule t(2))
    have "m' = m4" "s' = s4" "r = UPLOAD_OK" using out True by simp_all
    moreover have "stored d n (unat (sl_expected (mg_slot m))) (data @ x) s4"
      using k True read_nanos_store [OF 3] s4 by (simp add: same_store_def stored_def)
    moreover have "os_names s4 = os_names s" using store3 s4 by (simp add: only_file_def same_store_def)
    ultimately show ?thesis using assms(1-3) store3 s4
      by (auto simp: t(1) mf_def directing_def direct_slot_def same_terms_def only_file_def same_store_def)
  next
    case False
    with out store3 assms(1,2) show ?thesis
      by (auto simp: storage_result_def quiet_def mf_def directing_def only_file_def)
  qed
qed

lemma write_direct_directing:
  assumes "directing d n data m s" "upload_id = sl_id (mg_slot m)" "length x < 2 ^ 64"
    "upload_write_direct m upload_id x s = (r, m', s')"
  shows "if r = UPLOAD_OK then directing d n (data @ x) m' s' \<and> same_terms m m' \<and> only_file n s s'
    else quiet (sl_part_path (mg_slot m)) m' \<and> only_upload (sl_part_path (mg_slot m)) n s s'"
proof (cases "x = []")
  case True
  with assms show ?thesis by (simp add: upload_write_direct_def only_file_def)
next
  case False
  let ?part = "sl_part_path (mg_slot m)"
  obtain m1 s1 where reap: "reap_now m s = (m1, s1)" by force
  note tidy = tidy_reap [OF reap, of ?part n] directing_quiet [OF assms(1)]
  obtain m2 s2 where t: "touch (on_chunks (\<lambda>c. c\<lparr>ct_active_writes := ct_active_writes c + 1\<rparr>) m1) s1 = (m2, s2)" by force
  show ?thesis
  proof (cases "owns m1 upload_id")
    case False
    with assms(4) \<open>x \<noteq> []\<close> reap have "r = UPLOAD_NOT_FOUND" "m' = m1" "s' = s1"
      by (auto simp: upload_write_direct_def write_direct_start_def)
    with tidy show ?thesis by (simp add: tidy_def)
  next
    case True
    from reap_now_owns [OF reap True] have kept: "m1 = m" "same_store s s1" by blast+
    have inv: "directing d n data m s1" by (rule directing_store [OF assms(1) kept(2)])
    note slot = inv [unfolded directing_def direct_slot_def]
    show ?thesis
    proof (cases "of_nat (length x) \<le> sl_expected (mg_slot m) - of_nat (length data)")
      case False
      with assms(4) \<open>x \<noteq> []\<close> reap True kept slot have "r = UPLOAD_SIZE_MISMATCH" "m' = m" "s' = s1"
        by (auto simp: upload_write_direct_def write_direct_start_def not_le)
      with tidy kept show ?thesis by (simp add: tidy_def)
    next
      case fits: True
      note touched = touch_outcome [OF t, unfolded kept(1)]
      have step: "write_direct_end m2 x s2 = (r, m', s')"
        using assms(4) \<open>x \<noteq> []\<close> reap True kept slot fits t
        by (auto simp: upload_write_direct_def write_direct_start_def not_le split: if_splits)
      have room: "length data + length x \<le> unat (sl_expected (mg_slot m))"
        by (rule room_left [OF fits _ assms(3)]) (use slot in simp)
      from write_end_directing [OF directing_store [OF inv touched(2)] touched(1) room step] kept(2) touched(2)
      show ?thesis by (auto simp: only_file_def only_upload_def same_store_def)
    qed
  qed
qed

section \<open>The end of a direct stream\<close>

definition same_disk :: "os \<Rightarrow> os \<Rightarrow> bool" where
  "same_disk s t \<longleftrightarrow> os_names t = os_names s \<and> os_files t = os_files s"

lemma same_disk_trans: "same_disk s t \<Longrightarrow> same_disk t u \<Longrightarrow> same_disk s u"
  by (simp add: same_disk_def)

lemma same_disk_store: "same_store s t \<Longrightarrow> same_disk s t"
  by (simp add: same_disk_def same_store_def)

lemma sys_read_disk: "sys_read fd amount s = (r, t) \<Longrightarrow> same_disk s t"
  using next_fault_store [of s]
  by (auto simp: sys_read_def Let_def same_disk_def same_store_def split: prod.splits fault.splits option.splits)

lemma sys_open_read_disk: "sys_open_read path s = (r, t) \<Longrightarrow> same_disk s t"
  using next_fault_store [of s]
  by (auto simp: sys_open_read_def no_fd_def same_disk_def same_store_def split: prod.splits fault.splits option.splits sum.splits node.splits)

lemma hash_loop_disk: "hash_loop fd c s = (r, t) \<Longrightarrow> same_disk s t"
proof (induction fd c s arbitrary: r t rule: hash_loop.induct)
  case (1 fd c s)
  obtain x u where x: "sys_read fd 1048576 s = (x, u)" by force
  have u: "same_disk s u" by (rule sys_read_disk [OF x])
  show ?case
  proof (cases x)
    case None
    with 1(3) x have "t = u \<or> hash_loop fd c u = (r, t) \<and> os_errno u = EINTR"
      by (subst (asm) hash_loop.simps) (auto split: if_splits)
    with 1(1) [OF x [symmetric] None] u show ?thesis by (auto intro: same_disk_trans)
  next
    case (Some data)
    with 1(3) x have "t = u \<or> hash_loop fd (sha256_update c data) u = (r, t) \<and> data \<noteq> []"
      by (subst (asm) hash_loop.simps) (auto split: if_splits)
    with 1(2) [OF x [symmetric] Some] u show ?thesis by (auto intro: same_disk_trans)
  qed
qed

lemma hash_part_file_disk:
  assumes "hash_part_file path s = (r, t)"
  shows "same_disk s t"
proof -
  obtain fd u where o: "sys_open_read path s = (fd, u)" by force
  note 1 = sys_open_read_disk [OF o]
  show ?thesis
  proof (cases fd)
    case None
    with assms o 1 show ?thesis by (simp add: hash_part_file_def)
  next
    case (Some d)
    obtain ok w where a: "allocate u = (ok, w)" by force
    obtain c x where h: "hash_loop d sha256_init w = (c, x)" by force
    obtain closed y where y: "sys_close d x = (closed, y)" by force
    obtain closed' z where z: "sys_close d w = (closed', z)" by force
    have "same_disk s w" using 1 same_disk_store [OF allocate_store [OF a]] by (rule same_disk_trans)
    moreover have "same_disk w y" "same_disk w z"
      using hash_loop_disk [OF h] sys_close_store [OF y] sys_close_store [OF z] by (simp_all add: same_disk_def)
    moreover have "t \<in> {y, z} \<or> (\<exists>e. t = y\<lparr>os_errno := e\<rparr> \<or> t = z\<lparr>os_errno := e\<rparr>)"
      using assms o Some a h y z by (cases ok; cases c) (auto simp: hash_part_file_def Let_def split: if_splits)
    ultimately show ?thesis by (auto simp: same_disk_def)
  qed
qed

lemma finish_hashed:
  assumes "\<not> wt_active (mg_writer m)" "os_names s (sl_part_path (mg_slot m)) = Some (Regular n)"
    "inode_bytes (os_files s n) = data" "length data = unat (sl_expected (mg_slot m))"
    "owns m upload_id" "ct_finalizing (mg_chunks m)"
    "upload_finish_end b m upload_id (Finish_hash (sl_part_path (mg_slot m)) transfer) s = (r, digest, m', s')"
  shows "finished n data m s r digest m' s'"
proof -
  let ?part = "sl_part_path (mg_slot m)"
  obtain d s1 where hash: "hash_part_file ?part s = (d, s1)" by force
  have disk: "same_disk s s1" by (rule hash_part_file_disk [OF hash])
  have failing: "finished n data m s r digest m' s'"
    if failed: "clear_failed e m1 s2 = (r, m', s')" "e \<noteq> UPLOAD_OK" "\<not> wt_active (mg_writer m1)" "sl_part_path (mg_slot m1) = ?part" "same_disk s s2"
    for e m1 s2
  proof (rule finished_error)
    from clear_failed_idle(1-3) [OF failed(3,1,2)] failed(4,5) show "cleared m'" "r \<noteq> UPLOAD_OK" "only_upload ?part n s s'"
      by (simp_all add: only_upload_def same_disk_def)
  qed
  show ?thesis
  proof (cases d)
    case None
    obtain r2 m2 s2 where f: "clear_failed UPLOAD_IO_ERROR m s1 = (r2, m2, s2)" by (rule prod_cases3)
    with assms hash None have "r = r2" "m' = m2" "s' = s2" by (simp_all add: upload_finish_end_def)
    with failing [of UPLOAD_IO_ERROR m s1] f assms(1) disk show ?thesis by simp
  next
    case (Some digest')
    have digest': "digest' = sha256_hex (sha256_spec data)"
      using hash_part_file_digest [OF hash [unfolded Some] assms(2)] assms(3) by simp
    obtain r1 m1 s2 where c: "conclude b digest' (Some transfer) m s1 = (r1, m1, s2)" by (rule prod_cases3)
    have "os_names s1 ?part = Some (Regular n)" using assms(2) disk by (simp add: same_disk_def)
    note effect = conclude_effect [OF c assms(1) this]
    show ?thesis
    proof (cases "r1 = UPLOAD_OK")
      case True
      then have "r = UPLOAD_OK" "digest = digest'" "m' = m1" "s' = s2"
        using assms(5-7) hash Some c by (simp_all add: upload_finish_end_def)
      with effect True assms(3,4) digest' disk show ?thesis by (simp add: finished_def Let_def same_disk_def)
    next
      case False
      obtain r3 m3 s3 where f: "clear_failed r1 m1 s2 = (r3, m3, s3)" by (rule prod_cases3)
      with assms(5-7) hash Some c False have "r = r3" "m' = m3" "s' = s3" by (simp_all add: upload_finish_end_def)
      with failing [of r1 m1 s2] f False effect(1,2) assms(1) disk show ?thesis by (simp add: same_disk_def)
    qed
  qed
qed

lemma finish_directing:
  assumes "directing d n data m s" "upload_id = sl_id (mg_slot m)" "upload_finish_with_metrics b m upload_id s = Some (r, digest, m', s')"
  shows "if r = UPLOAD_OK then finished n data m s r digest m' s' else only_upload (sl_part_path (mg_slot m)) n s s'"
proof -
  let ?part = "sl_part_path (mg_slot m)"
  obtain m1 s1 where reap: "reap_now m s = (m1, s1)" by force
  have tidy: "quiet ?part m1" "only_upload ?part n s s1"
    using tidy_reap [OF reap, of ?part n] directing_quiet [OF assms(1)] by (simp_all add: tidy_def)
  have stopping: "r \<noteq> UPLOAD_OK \<and> only_upload ?part n s s'"
    if stop: "upload_finish_start m upload_id s = Some (Finish_stop e, m1, s2)" "e \<noteq> UPLOAD_OK" "only_upload ?part n s s2" for e s2
  proof -
    obtain r3 m3 s3 where f: "clear_failed e m1 s2 = (r3, m3, s3)" by (rule prod_cases3)
    with assms(3) stop(1,2) have "r = r3" "s' = s3" by (simp_all add: upload_finish_with_metrics_def upload_finish_end_def)
    moreover have "r3 \<noteq> UPLOAD_OK" using clear_failed_idle(1) [OF _ f stop(2)] tidy(1) by (simp add: quiet_def)
    moreover have "only_upload ?part n s2 s3" using tidy_clear_failed [OF f, of ?part n] tidy(1) by (simp add: tidy_def)
    ultimately show ?thesis using stop(3) by (auto intro: only_upload_trans)
  qed
  show ?thesis
  proof (cases "owns m1 upload_id \<and> sl_started (mg_slot m1)")
    case False
    then have "upload_finish_start m upload_id s = Some (Finish_stop UPLOAD_NOT_FOUND, m1, s1)"
      using reap by (auto simp: upload_finish_start_def)
    from stopping [OF this] tidy(2) show ?thesis by simp
  next
    case True
    from reap_now_owns [OF reap] True have kept: "m1 = m" "same_store s s1" by blast+
    have inv: "directing d n data m s1" by (rule directing_store [OF assms(1) kept(2)])
    note slot = inv [unfolded directing_def direct_slot_def]
    show ?thesis
    proof (cases "sl_received (mg_slot m) = sl_expected (mg_slot m)")
      case False
      then have "upload_finish_start m upload_id s = Some (Finish_stop UPLOAD_SIZE_MISMATCH, m1, s1)"
        using reap True kept by (auto simp: upload_finish_start_def)
      from stopping [OF this] tidy(2) show ?thesis by simp
    next
      case full: True
      obtain now s2 where nanos: "read_nanos s1 = (now, s2)" by force
      let ?m = "on_chunks (\<lambda>c. c\<lparr>ct_finalizing := True\<rparr>) m"
      have start: "upload_finish_start m upload_id s =
          Some (Finish_hash ?part (elapsed_nanoseconds (tm_transfer_start (mg_timing m)) now), ?m, s2)"
        using reap True kept full slot nanos by (simp add: upload_finish_start_def)
      have len: "length data = unat (sl_expected (mg_slot m))"
        using full slot unat_of_nat_u64 [of "length data"] unat_u64_bound [of "sl_expected (mg_slot m)"] by simp
      have s2: "directing d n data m s2" by (rule directing_store [OF inv]) (use read_nanos_store [OF nanos] in simp)
      have bytes: "inode_bytes (os_files s2 n) = data"
        using s2 len stored_complete by (auto simp: directing_def)
      have "finished n data ?m s2 r digest m' s'"
        by (rule finish_hashed [where b = b and upload_id = upload_id])
          (use slot s2 bytes len True kept assms(3) start in
            \<open>auto simp: directing_def owns_def upload_finish_with_metrics_def\<close>)
      then have "finished n data m s r digest m' s'"
        using kept(2) read_nanos_store [OF nanos] by (auto simp: finished_def only_upload_def same_store_def Let_def split: if_splits)
      then show ?thesis by (auto simp: finished_def Let_def)
    qed
  qed
qed

section \<open>When no call fails\<close>

lemma write_all_calm:
  assumes "os_faults s = []" "os_fds s d = Some (n, offset)" "write_all (Some d) x s = (e, t)"
  shows "e = E0 \<and> os_faults t = [] \<and> os_seconds t = os_seconds s \<and> os_next t = os_next s"
proof (cases "x = []")
  case False
  then have "fst (sys_write d x s) = Some (length x)" "os_next (snd (sys_write d x s)) = os_next s"
    using assms(1,2) by (simp_all add: sys_write_def Let_def)
  then obtain u where u: "sys_write d x s = (Some (length x), u)" "os_next u = os_next s" by (cases "sys_write d x s") auto
  have "write_all (Some d) x s = write_all (Some d) [] u" using False u by (subst write_all.simps) simp
  with u(2) assms write_all_faultless [OF assms] show ?thesis by (simp add: write_all.simps)
qed (use assms in \<open>simp add: write_all.simps\<close>)

lemma read_nanos_next: "read_nanos s = (v, t) \<Longrightarrow> os_next t = os_next s"
  by (auto simp: read_nanos_def split: list.splits)

lemma touch_next: "touch m s = (m', t) \<Longrightarrow> os_next t = os_next s"
  by (auto simp: touch_def read_seconds_def split: list.splits prod.splits)

lemma write_direct_calm:
  assumes "directing d n data m s" "calm now m s" "length data + length x \<le> unat (sl_expected (mg_slot m))"
  shows "\<exists>m' s'. upload_write_direct m (sl_id (mg_slot m)) x s = (UPLOAD_OK, m', s') \<and> calm now m' s' \<and> os_next s' = os_next s"
proof (cases "x = []")
  case True
  with assms show ?thesis by (simp add: upload_write_direct_def)
next
  case False
  note slot = assms(1) [unfolded directing_def direct_slot_def]
  have fits: "\<not> sl_expected (mg_slot m) - of_nat (length data) < of_nat (length x)"
  proof -
    have small: "unat (of_nat k :: u64) = k" if "k \<le> unat (sl_expected (mg_slot m))" for k
      using unat_of_nat_u64 [of k] unat_u64_bound [of "sl_expected (mg_slot m)"] that by simp
    have "(of_nat (length data) :: u64) \<le> sl_expected (mg_slot m)" using small assms(3) by (simp add: word_le_nat_alt)
    then show ?thesis using small [of "length data"] small [of "length x"] assms(3) by (simp add: word_less_nat_alt unat_sub)
  qed
  obtain m1 s1 where t: "touch (on_chunks (\<lambda>c. c\<lparr>ct_active_writes := ct_active_writes c + 1\<rparr>) m) s = (m1, s1)" by force
  obtain start s2 where 1: "read_nanos s1 = (start, s2)" by force
  obtain e s3 where w: "write_all (sl_fd (mg_slot m1)) x s2 = (e, s3)" by force
  obtain finish s4 where 2: "read_nanos s3 = (finish, s4)" by force
  note touched = touch_outcome [OF t] and nanos = read_nanos_store [OF 1] read_nanos_store [OF 2]
  have s2: "os_faults s2 = []" "os_fds s2 d = Some (n, length data)" "os_seconds s2 = [now]" "os_next s2 = os_next s"
    using assms(2) slot touched nanos(1) touch_next [OF t] read_nanos_next [OF 1]
    by (auto simp: calm_def stored_def same_store_def read_seconds_def)
  have fd: "sl_fd (mg_slot m1) = Some d" using slot touched(1) by simp
  note written = write_all_calm [OF s2(1,2) w [unfolded fd]]
  let ?m = "on_slot (\<lambda>x'. x'\<lparr>sl_received := sl_received x' + of_nat (length x)\<rparr>) (on_chunks (\<lambda>c. c\<lparr>ct_active_writes := ct_active_writes c - 1\<rparr>)
    (on_timing (\<lambda>t. t\<lparr>tm_write_elapsed := tm_write_elapsed t + elapsed_nanoseconds start finish\<rparr>) m1))"
  obtain m5 s5 where end_touch: "touch ?m s4 = (m5, s5)" by force
  have "calm now m5 s5"
    by (rule calm_touch [OF _ _ _ _ end_touch]) (use written s2 nanos assms(2) touched(1) in \<open>simp_all add: calm_def\<close>)
  moreover have "upload_write_direct m (sl_id (mg_slot m)) x s = (UPLOAD_OK, m5, s5)"
    using False slot fits calm_reap [OF assms(2)] t 1 w 2 written end_touch
    by (simp add: upload_write_direct_def write_direct_start_def write_direct_end_def owns_def Let_def)
  moreover have "os_next s5 = os_next s" using s2 written read_nanos_next [OF 2] touch_next [OF end_touch] by simp
  ultimately show ?thesis by blast
qed

lemma hash_loop_fds: "hash_loop fd c s = (r, t) \<Longrightarrow> d \<noteq> fd \<Longrightarrow> os_fds t d = os_fds s d"
proof (induction fd c s arbitrary: r t rule: hash_loop.induct)
  case (1 fd c s)
  obtain x u where x: "sys_read fd 1048576 s = (x, u)" by force
  have u: "os_fds u d = os_fds s d" using x next_fault_store [of s] 1(4)
    by (auto simp: sys_read_def Let_def same_store_def split: prod.splits fault.splits option.splits)
  show ?case
  proof (cases x)
    case None
    with 1(3) x have "t = u \<or> hash_loop fd c u = (r, t) \<and> os_errno u = EINTR"
      by (subst (asm) hash_loop.simps) (auto split: if_splits)
    with 1(1) [OF x [symmetric] None _ _ 1(4)] u show ?thesis by auto
  next
    case (Some data)
    with 1(3) x have "t = u \<or> hash_loop fd (sha256_update c data) u = (r, t) \<and> data \<noteq> []"
      by (subst (asm) hash_loop.simps) (auto split: if_splits)
    with 1(2) [OF x [symmetric] Some _ _ 1(4)] u show ?thesis by auto
  qed
qed

lemma hash_part_file_calm:
  assumes "os_faults s = []" "os_names s path = Some (Regular n)" "os_fds s d \<noteq> None" "os_next s \<noteq> d"
  shows "\<exists>digest t. hash_part_file path s = (Some digest, t) \<and> os_faults t = [] \<and> os_fds t d \<noteq> None"
proof -
  have p: "resolve 41 s path = Inr path" using assms(2) resolve_no_link [of path s 40] by (simp add: no_link_def)
  let ?u = "s\<lparr>os_fds := (os_fds s)(os_next s \<mapsto> (n, 0)), os_next := Suc (os_next s)\<rparr>"
  have o: "sys_open_read path s = (Some (os_next s), ?u)" using assms(1,2) p by (simp add: sys_open_read_def next_fault_def)
  have a: "allocate ?u = (True, ?u)" using assms(1) by (simp add: allocate_def next_fault_def)
  obtain c x where h: "hash_loop (os_next s) sha256_init ?u = (Some c, x)" "os_faults x = []" "os_fds x (os_next s) \<noteq> None"
    using hash_loop_faultless [of ?u "os_next s" n 0 sha256_init] assms(1) by auto
  have "os_fds x d \<noteq> None" using hash_loop_fds [OF h(1), of d] assms(3,4) by simp
  moreover have "sys_close (os_next s) x = (True, x\<lparr>os_fds := (os_fds x)(os_next s := None)\<rparr>)"
    using h(2,3) by (auto simp: sys_close_def next_fault_def)
  ultimately show ?thesis using o a h assms(4) by (simp add: hash_part_file_def)
qed

lemma finish_direct_calm:
  assumes "directing d n data m s" "calm now m s" "length data = unat (sl_expected (mg_slot m))" "os_next s \<noteq> d"
    "sl_expected_hash (mg_slot m) = [] \<or> sl_expected_hash (mg_slot m) = sha256_hex (sha256_spec data)"
    "os_names s (sl_final_path (mg_slot m)) = None" "parent_exists s (sl_final_path (mg_slot m))"
  shows "\<exists>digest m' s'. upload_finish_with_metrics b m (sl_id (mg_slot m)) s = Some (UPLOAD_OK, digest, m', s')"
proof -
  note slot = assms(1) [unfolded directing_def direct_slot_def]
  obtain now' s1 where nanos: "read_nanos s = (now', s1)" by force
  note s1 = read_nanos_store [OF nanos] read_nanos_next [OF nanos]
  let ?m = "on_chunks (\<lambda>c. c\<lparr>ct_finalizing := True\<rparr>) m" and ?t = "elapsed_nanoseconds (tm_transfer_start (mg_timing m)) now'"
  have full: "sl_received (mg_slot m) = sl_expected (mg_slot m)" using slot assms(3) by simp
  have start: "upload_finish_start m (sl_id (mg_slot m)) s = Some (Finish_hash (sl_part_path (mg_slot m)) ?t, ?m, s1)"
    using slot full nanos calm_reap [OF assms(2)] by (simp add: upload_finish_start_def owns_def)
  have ready: "os_faults s1 = []" "os_names s1 (sl_part_path (mg_slot m)) = Some (Regular n)" "os_fds s1 d \<noteq> None" "os_next s1 \<noteq> d"
    using assms(2,4) slot s1 by (auto simp: calm_def same_store_def stored_def)
  from hash_part_file_calm [OF ready] obtain digest t where
    hash: "hash_part_file (sl_part_path (mg_slot m)) s1 = (Some digest, t)" "os_faults t = []" "os_fds t d \<noteq> None" by blast
  have bytes: "inode_bytes (os_files s n) = data" using slot assms(3) stored_complete by blast
  from hash_part_file_digest [OF hash(1) ready(2)] s1(1) bytes
  have t: "digest = sha256_hex (sha256_spec data)" "os_names t = os_names s" by (simp_all add: same_store_def)
  have "\<exists>m' s'. conclude b digest (Some ?t) ?m t = (UPLOAD_OK, m', s')"
    by (rule conclude_calm [where d = d and n = n])
      (use hash slot t assms(5-7) parent_exists_cong [of t s] in simp_all)
  then show ?thesis using start hash(1) slot
    by (auto simp: upload_finish_with_metrics_def upload_finish_end_def owns_def)
qed

end
