(* ===== verification/RouterTextProps.thy ===== *)
theory RouterTextProps
  imports RouterText AuthJson
begin

text \<open>
  What the readers of \<open>RouterText\<close> accept, as grammars, and the round trip of the JSON escapes.
\<close>

section \<open>Content-Range\<close>

definition digit_run :: "string \<Rightarrow> bool" where
  "digit_run ds \<longleftrightarrow> ds \<noteq> [] \<and> list_all isdigit ds"

lemma take_char_iff: "take_char c s = Some r \<longleftrightarrow> s = c # r"
  by (cases s) auto

lemma parse_range_number_iff:
  "parse_range_number s = Some (v, r) \<longleftrightarrow>
     (\<exists>ds. s = ds @ r \<and> digit_run ds \<and> (r = [] \<or> \<not> isdigit (hd r)) \<and>
           dec_value ds < 2 ^ 64 \<and> unat v = dec_value ds)"
proof -
  define ds where "ds = takeWhile isdigit s"
  define tl where "tl = dropWhile isdigit s"
  have s: "s = ds @ tl" by (simp add: ds_def tl_def)
  have digits: "\<forall>c \<in> set ds. isdigit c" by (auto simp: ds_def dest: set_takeWhileD)
  have tl: "tl = [] \<or> \<not> isdigit (hd tl)" unfolding tl_def by (metis hd_dropWhile)
  have only: "ds' = ds \<and> r' = tl" if "s = ds' @ r'" "list_all isdigit ds'" "r' = [] \<or> \<not> isdigit (hd r')" for ds' r'
  proof -
    have "takeWhile isdigit s = ds'" "dropWhile isdigit s = r'"
      using that by (cases r'; auto simp: list_all_iff takeWhile_append dropWhile_append)+
    then show ?thesis by (simp add: ds_def tl_def)
  qed
  show ?thesis
  proof (cases "ds = []")
    case True
    then have "s = [] \<or> \<not> isdigit (hd s)" by (cases s) (auto simp: ds_def split: if_splits)
    then have "parse_range_number s = None" by (auto simp: parse_range_number_def)
    then show ?thesis using only True by (auto simp: digit_run_def)
  next
    case False
    then have start: "\<not> (s = [] \<or> \<not> isdigit (hd s))" by (cases s) (auto simp: ds_def split: if_splits)
    have u: "unat (of_nat (dec_value ds) :: u64) = dec_value ds" if "dec_value ds < 2 ^ 64"
      using that by (simp add: unat_of_nat)
    have v: "v = of_nat (dec_value ds)" if "unat v = dec_value ds" using that [symmetric] by simp
    have run: "digit_run ds" using False digits by (simp add: digit_run_def list_all_iff)
    have parsed: "parse_range_number s = (if dec_value ds < 2 ^ 64 then Some (of_nat (dec_value ds), tl) else None)"
      using start strtoull_digits [OF False digits tl] False by (auto simp: parse_range_number_def s)
    have "(\<exists>ds. s = ds @ r \<and> digit_run ds \<and> (r = [] \<or> \<not> isdigit (hd r)) \<and> dec_value ds < 2 ^ 64 \<and> unat v = dec_value ds)
        \<longleftrightarrow> r = tl \<and> dec_value ds < 2 ^ 64 \<and> unat v = dec_value ds" (is "?lhs \<longleftrightarrow> ?rhs")
    proof
      show "?lhs \<Longrightarrow> ?rhs" using only unfolding digit_run_def by blast
      show "?rhs \<Longrightarrow> ?lhs" using s run tl by blast
    qed
    then show ?thesis using parsed u v by (cases "dec_value ds < 2 ^ 64") auto
  qed
qed

lemma digit_run_stop: "digit_run a \<Longrightarrow> digit_run b \<Longrightarrow> a @ CHR ''-'' # x = b @ CHR ''-'' # y \<longleftrightarrow> a = b \<and> x = y"
proof -
  have no: "CHR ''-'' \<notin> set ds" if "digit_run ds" for ds
    using that by (auto simp: digit_run_def list_all_iff isdigit_def)
  assume "digit_run a" "digit_run b"
  then show ?thesis using no by (metis split_at_first_append option.inject prod.inject)
qed

lemma not_digit [simp]: "\<not> isdigit CHR ''-''" "\<not> isdigit CHR ''/''"
  by (simp_all add: isdigit_def)

text \<open>'Content-Range' is accepted exactly in the form 'bytes first-last/total', three runs of digits
  whose values satisfy first \<le> last < total < 2^64; the result is the first byte, the number of bytes, which
  does not wrap, and the total.\<close>
theorem parse_content_range_iff:
  "parse_content_range (Some t) = Some (offset, amount, whole) \<longleftrightarrow>
     (\<exists>a b c. t = ''bytes '' @ a @ CHR ''-'' # b @ CHR ''/'' # c \<and> digit_run a \<and> digit_run b \<and> digit_run c \<and>
        dec_value a \<le> dec_value b \<and> dec_value b < dec_value c \<and> dec_value c < 2 ^ 64 \<and>
        unat offset = dec_value a \<and> unat amount = dec_value b - dec_value a + 1 \<and> unat whole = dec_value c)"
  (is "?accepted \<longleftrightarrow> ?grammar")
proof
  assume ?accepted
  then have pre: "take 6 t = ''bytes ''" by (auto simp: parse_content_range_def split: if_splits)
  have t: "t = ''bytes '' @ drop 6 t" using append_take_drop_id [of 6 t] unfolding pre by simp
  from \<open>?accepted\<close> pre obtain r1 r2 l where a: "parse_range_number (drop 6 t) = Some (offset, CHR ''-'' # r1)"
    and b: "parse_range_number r1 = Some (l, CHR ''/'' # r2)"
    and c: "parse_range_number r2 = Some (whole, [])"
    and bounds: "offset \<le> l" "l < whole" and amount: "amount = l - offset + 1"
    by (auto simp: parse_content_range_def take_char_iff bind_eq_Some_conv not_less not_le split: if_splits)
  from a obtain as where as: "drop 6 t = as @ CHR ''-'' # r1" "digit_run as" "dec_value as < 2 ^ 64" "unat offset = dec_value as"
    unfolding parse_range_number_iff by blast
  from b obtain bs where bs: "r1 = bs @ CHR ''/'' # r2" "digit_run bs" "dec_value bs < 2 ^ 64" "unat l = dec_value bs"
    unfolding parse_range_number_iff by blast
  from c obtain cs where cs: "r2 = cs" "digit_run cs" "dec_value cs < 2 ^ 64" "unat whole = dec_value cs"
    unfolding parse_range_number_iff by auto
  have le: "dec_value as \<le> dec_value bs" "dec_value bs < dec_value cs"
    using bounds as(4) bs(4) cs(4) by (simp_all add: word_nat)
  have "unat (l - offset) = dec_value bs - dec_value as" using bounds(1) as(4) bs(4) by (simp add: unat_diff_le)
  moreover have "dec_value bs - dec_value as + 1 < 2 ^ 64" using le cs(3) by linarith
  ultimately have "unat amount = dec_value bs - dec_value as + 1"
    unfolding amount by (subst unat_add_no_wrap) simp_all
  with t as bs cs le show ?grammar by (intro exI [of _ as] exI [of _ bs] exI [of _ cs]) simp
next
  assume ?grammar
  then obtain a b c where t: "t = ''bytes '' @ a @ CHR ''-'' # b @ CHR ''/'' # c"
    and runs: "digit_run a" "digit_run b" "digit_run c"
    and le: "dec_value a \<le> dec_value b" "dec_value b < dec_value c" "dec_value c < 2 ^ 64"
    and vals: "unat offset = dec_value a" "unat amount = dec_value b - dec_value a + 1" "unat whole = dec_value c"
    by blast
  define l :: u64 where "l = of_nat (dec_value b)"
  have l: "unat l = dec_value b" unfolding l_def using le by (simp add: unat_of_nat)
  have p1: "parse_range_number (a @ CHR ''-'' # b @ CHR ''/'' # c) = Some (offset, CHR ''-'' # b @ CHR ''/'' # c)"
    unfolding parse_range_number_iff using runs le vals by (intro exI [of _ a]) simp
  have p2: "parse_range_number (b @ CHR ''/'' # c) = Some (l, CHR ''/'' # c)"
    unfolding parse_range_number_iff using runs le l by (intro exI [of _ b]) simp
  have p3: "parse_range_number c = Some (whole, [])"
    unfolding parse_range_number_iff using runs le vals by (intro exI [of _ c]) simp
  have order: "\<not> l < offset" "\<not> whole \<le> l" using le vals l by (simp_all add: word_nat)
  have pos: "whole \<noteq> 0" using le vals by auto
  have "unat (l - offset) = dec_value b - dec_value a" using order(1) l vals by (simp add: unat_diff_le word_nat)
  moreover have "dec_value b - dec_value a + 1 < 2 ^ 64" using le by linarith
  ultimately have "unat (l - offset + 1) = unat amount" unfolding vals by (subst unat_add_no_wrap) simp_all
  then have "l - offset + 1 = amount" by (simp add: word_eq_unat)
  then show ?accepted using p1 p2 p3 order pos by (simp add: parse_content_range_def t)
qed

section \<open>JSON strings\<close>

text \<open>
  A reader of the characters between the quotes of a JSON string (RFC 8259, the escapes that the router
  writes): a quote or a control character is an error.
\<close>

fun json_unescape :: "string \<Rightarrow> string option" where
  "json_unescape [] = Some []"
| "json_unescape (c # cs) =
     (if c = CHR 0x5C
      then (case cs of
              d # ds \<Rightarrow>
                (if d = CHR 0x22 \<or> d = CHR 0x5C then map_option ((#) d) (json_unescape ds)
                 else if d = CHR ''u'' \<and> take 2 ds = ''00'' \<and> 4 \<le> length ds \<and> lower_hex (ds ! 2) \<and> lower_hex (ds ! 3)
                 then map_option ((#) (char_of (16 * hex_value (ds ! 2) + hex_value (ds ! 3)))) (json_unescape (drop 4 ds))
                 else None)
            | [] \<Rightarrow> None)
      else if c = CHR 0x22 \<or> code c < 0x20 then None
      else map_option ((#) c) (json_unescape cs))"

lemma unescape_plain:
  "c \<noteq> CHR 0x5C \<Longrightarrow> c \<noteq> CHR 0x22 \<Longrightarrow> \<not> code c < 0x20 \<Longrightarrow> json_unescape (c # t) = map_option ((#) c) (json_unescape t)"
  by simp

lemma unescape_quoted:
  "c = CHR 0x22 \<or> c = CHR 0x5C \<Longrightarrow> json_unescape (CHR 0x5C # c # t) = map_option ((#) c) (json_unescape t)"
  by simp

lemma unescape_control:
  "json_unescape (CHR 0x5C # ''u00'' @ hex_pair (uchar c) @ t) = map_option ((#) c) (json_unescape t)"
proof -
  define h where "h = hex_digits ! unat (drop_bit 4 (uchar c))"
  define l where "l = hex_digits ! unat (uchar c AND 15)"
  have pair: "hex_pair (uchar c) = [h, l]" by (simp add: hex_pair_def h_def l_def)
  have digits: "lower_hex h" "lower_hex l" "16 * hex_value h + hex_value l = code c"
    using hex_digit_facts nibbles [of "uchar c"] by (simp_all add: h_def l_def uchar_code)
  then show ?thesis by (simp add: pair)
qed

declare json_unescape.simps(2) [simp del]

lemma escape_string_read:
  "escape_string n out s = Some e \<Longrightarrow> \<exists>t. e = out @ t \<and> json_unescape t = Some s"
proof (induction s arbitrary: out)
  case (Cons c cs)
  define piece where "piece = (if c = CHR 0x22 \<or> c = CHR 0x5C then [CHR 0x5C, c]
    else if code c < 0x20 then CHR 0x5C # ''u00'' @ hex_pair (uchar c) else [c])"
  have "escape_string n (out @ piece) cs = Some e"
    using Cons.prems by (auto simp: piece_def split: if_splits)
  from Cons.IH [OF this] obtain t where e: "e = (out @ piece) @ t" and t: "json_unescape t = Some cs" by blast
  have "json_unescape (piece @ t) = Some (c # cs)"
    using t unescape_control [of c t] by (auto simp: piece_def unescape_plain unescape_quoted)
  with e show ?case by (intro exI [of _ "piece @ t"]) simp
qed simp

lemma escape_string_length:
  "escape_string n out s = Some e \<Longrightarrow> length out < n \<Longrightarrow> length e < n"
  by (induction n out s rule: escape_string.induct) (auto simp: hex_pair_def split: if_splits)

lemma escape_string_fits:
  "length out + 6 * length s < n \<Longrightarrow> \<exists>e. escape_string n out s = Some e"
  by (induction n out s rule: escape_string.induct) (auto simp: hex_pair_def)

text \<open>C23: The text that a reply puts between the quotes of a JSON string, whatever the string holds, is
  read by a JSON reader as that string, so no name can break out of its quotes; it fits the buffer, and the
  escape fails only when six times the string's length would not fit.\<close>
theorem json_escape_string_roundtrip:
  "(\<forall>e. json_escape_string s n = Some e \<longrightarrow> json_unescape e = Some s \<and> length e < n) \<and>
   (6 * length s < n \<longrightarrow> json_escape_string s n \<noteq> None)"
  using escape_string_read [of n "[]" s] escape_string_length [of n "[]" s] escape_string_fits [of "[]" s n]
  by (auto simp: json_escape_string_def)

theorem json_escape_string_roundtrip_witness:
  "\<exists>e. json_escape_string [CHR 0x22, CHR 0x0A] 20 = Some e \<and> json_unescape e = Some [CHR 0x22, CHR 0x0A] \<and> length e < 20"
proof -
  note fits = json_escape_string_roundtrip [of "[CHR 0x22, CHR 0x0A]" 20]
  then obtain e where "json_escape_string [CHR 0x22, CHR 0x0A] 20 = Some e" by auto
  with fits show ?thesis by blast
qed

text \<open>The other escape, for names without control characters.\<close>

lemma escape_filename_read:
  "escape_filename n out s = Some e \<Longrightarrow> list_all (\<lambda>c. \<not> code c < 0x20) s \<Longrightarrow> \<exists>t. e = out @ t \<and> json_unescape t = Some s"
proof (induction s arbitrary: out)
  case (Cons c cs)
  define piece where "piece = (if c = CHR 0x22 \<or> c = CHR 0x5C then [CHR 0x5C, c] else [c])"
  have "escape_filename n (out @ piece) cs = Some e"
    using Cons.prems(1) by (auto simp: piece_def Let_def split: if_splits)
  from Cons.IH [OF this] Cons.prems(2) obtain t where e: "e = (out @ piece) @ t" and t: "json_unescape t = Some cs" by auto
  have "json_unescape (piece @ t) = Some (c # cs)"
    using t Cons.prems(2) by (auto simp: piece_def unescape_plain unescape_quoted)
  with e show ?case by (intro exI [of _ "piece @ t"]) simp
qed simp

lemma escape_filename_fits:
  "length out + 2 * length s < n \<Longrightarrow> \<exists>e. escape_filename n out s = Some e \<and> length e \<le> length out + 2 * length s"
proof (induction s arbitrary: out)
  case (Cons c cs)
  define piece where "piece = (if c = CHR 0x22 \<or> c = CHR 0x5C then [CHR 0x5C, c] else [c])"
  have len: "length piece \<le> 2" by (simp add: piece_def)
  have "escape_filename n out (c # cs) = escape_filename n (out @ piece) cs"
    using Cons.prems by (simp add: piece_def Let_def)
  moreover obtain e where "escape_filename n (out @ piece) cs = Some e" "length e \<le> length (out @ piece) + 2 * length cs"
    using Cons.IH [of "out @ piece"] Cons.prems len by auto
  ultimately show ?case using len by auto
qed simp

section \<open>Paths\<close>

definition upload_id_ok :: "string \<Rightarrow> bool" where
  "upload_id_ok i \<longleftrightarrow> length i = UPLOAD_ID_HEX_BYTES \<and> list_all lower_hex i"

lemma upload_id_from_path_iff: "upload_id_from_path p = Some i \<longleftrightarrow> p = uploads_prefix @ i \<and> upload_id_ok i"
proof
  assume "upload_id_from_path p = Some i"
  then have "take (length uploads_prefix) p = uploads_prefix" "i = drop (length uploads_prefix) p" "upload_id_ok i"
    by (auto simp: upload_id_from_path_def upload_id_ok_def Let_def split: if_splits)
  then show "p = uploads_prefix @ i \<and> upload_id_ok i" by (metis append_take_drop_id)
qed (simp add: upload_id_from_path_def upload_id_ok_def Let_def)

lemma upload_complete_from_path_iff:
  "upload_complete_from_path p = Some i \<longleftrightarrow> p = uploads_prefix @ i @ complete_suffix \<and> upload_id_ok i"
proof
  assume s: "upload_complete_from_path p = Some i"
  then have len: "length p = length uploads_prefix + UPLOAD_ID_HEX_BYTES + length complete_suffix"
    and pre: "take (length uploads_prefix) p = uploads_prefix"
    and suf: "drop (length uploads_prefix + UPLOAD_ID_HEX_BYTES) p = complete_suffix"
    and i: "i = take UPLOAD_ID_HEX_BYTES (drop (length uploads_prefix) p)" and hex: "list_all lower_hex i"
    by (auto simp: upload_complete_from_path_def Let_def split: if_splits)
  have "drop (length uploads_prefix) p = i @ complete_suffix"
    unfolding i suf [symmetric] by (metis append_take_drop_id drop_drop add.commute)
  then have "p = uploads_prefix @ i @ complete_suffix" using pre by (metis append_take_drop_id)
  moreover have "length i = UPLOAD_ID_HEX_BYTES" using len by (simp add: i)
  ultimately show "p = uploads_prefix @ i @ complete_suffix \<and> upload_id_ok i"
    using hex by (simp add: upload_id_ok_def)
next
  assume "p = uploads_prefix @ i @ complete_suffix \<and> upload_id_ok i"
  then show "upload_complete_from_path p = Some i"
    by (auto simp: upload_complete_from_path_def upload_id_ok_def Let_def)
qed

lemma route_texts: "''/api/v1/uploads'' \<noteq> uploads_prefix @ t" "''/api/v1/storage'' \<noteq> uploads_prefix @ t"
  "''/api/v1/status'' \<noteq> uploads_prefix @ t" "''/api/v1/auth/challenge'' \<noteq> uploads_prefix @ t"
  "''/api/v1/auth/verify'' \<noteq> uploads_prefix @ t"
  by (simp_all add: uploads_prefix_def)

section \<open>Origin\<close>

definition host_char :: "char \<Rightarrow> bool" where
  "host_char c \<longleftrightarrow> 0x20 < code c \<and> code c \<noteq> 0x7f \<and> c \<notin> {CHR ''/'', CHR 0x5C, CHR ''@'', CHR ''#''}"

lemma valid_host_iff: "valid_host (Some h) \<longleftrightarrow> h \<noteq> [] \<and> length h \<le> 255 \<and> list_all host_char h"
proof -
  have "host_char = (\<lambda>c. \<not> (code c \<le> 0x20 \<or> code c = 0x7f \<or> c = CHR ''/'' \<or> c = CHR 0x5C \<or> c = CHR ''@'' \<or> c = CHR ''#''))"
    by (rule ext) (simp add: host_char_def not_le)
  then show ?thesis by (simp add: valid_host_def)
qed

text \<open>A request passes the origin check exactly when it names a host and its 'Origin' is the text
  'http://' followed by that very host; a page served from anywhere else cannot act.\<close>
theorem same_origin_iff:
  "same_origin request \<longleftrightarrow>
     (\<exists>h. rq_host request = Some h \<and> rq_origin request = Some (''http://'' @ h) \<and> h \<noteq> [] \<and> length h \<le> 255 \<and>
          list_all host_char h)"
proof (cases "rq_host request")
  case None
  then show ?thesis by (simp add: same_origin_def valid_host_def)
next
  case (Some h)
  then show ?thesis
    by (cases "rq_origin request") (auto simp: same_origin_def valid_host_iff Let_def)
qed

section \<open>The body of a storage request\<close>

definition space_byte :: "byte \<Rightarrow> bool" where
  "space_byte b \<longleftrightarrow> isspace (byte_char b)"

lemma skip_json_whitespace_space: "skip_json_whitespace s = dropWhile space_byte s"
  by (simp add: skip_json_whitespace_def space_byte_def [abs_def])

definition spaces :: "byte list \<Rightarrow> bool" where
  "spaces w \<longleftrightarrow> list_all space_byte w"

lemma skip_json_whitespace_iff:
  "skip_json_whitespace s = t \<longleftrightarrow> (\<exists>w. spaces w \<and> s = w @ t) \<and> (t = [] \<or> \<not> space_byte (hd t))"
proof
  assume t: "skip_json_whitespace s = t"
  have "spaces (takeWhile space_byte s)" by (auto simp: spaces_def list_all_iff dest: set_takeWhileD)
  moreover have "s = takeWhile space_byte s @ t" using t by (metis takeWhile_dropWhile_id skip_json_whitespace_space)
  moreover have "t = [] \<or> \<not> space_byte (hd t)"
    using t hd_dropWhile [of space_byte s] by (auto simp: skip_json_whitespace_space)
  ultimately show "(\<exists>w. spaces w \<and> s = w @ t) \<and> (t = [] \<or> \<not> space_byte (hd t))" by blast
next
  assume "(\<exists>w. spaces w \<and> s = w @ t) \<and> (t = [] \<or> \<not> space_byte (hd t))"
  then show "skip_json_whitespace s = t"
    by (cases t) (auto simp: skip_json_whitespace_space spaces_def list_all_iff dropWhile_append)
qed

lemma space_byte_not [simp]: "\<not> space_byte 0x22" "\<not> space_byte 0x3A" "\<not> space_byte 0x7B" "\<not> space_byte 0x7D"
  by (simp_all add: space_byte_def byte_char_def isspace_def)

lemma take_byte_iff: "take_byte c s = Some t \<longleftrightarrow> s = c # t"
  by (cases s) auto

lemma token_chars_literal: "token_chars n out s = literal_chars n out s"
  by (induction n out s rule: token_chars.induct) (auto simp: byte_char_def)

lemma parse_json_string_token_iff:
  "0 < n \<Longrightarrow> parse_json_string_token n s = Some (t, r) \<longleftrightarrow> plain t \<and> length t < n \<and> s = quoted t @ r"
proof -
  have "take_byte 0x22 s = expect 0x22 s" by (cases s) auto
  then have "parse_json_string_token n s = parse_literal_string n s"
    by (simp add: parse_json_string_token_def parse_literal_string_def token_chars_literal)
  then show "0 < n \<Longrightarrow> ?thesis" by (simp only: parse_literal_string_iff)
qed

lemma storage_target_char_plain: "list_all storage_target_char t \<Longrightarrow> plain t"
  by (auto simp: plain_def list_all_iff storage_target_char_def isalnum_def isdigit_def)

text \<open>A storage request is understood exactly when its body is the JSON object with the one member
  'target', with any white space between the tokens, whose value is one to 31 letters, digits, underscores
  and hyphens.\<close>
theorem parse_storage_target_iff:
  "parse_storage_target (Some body) = Some target \<longleftrightarrow>
     target \<noteq> [] \<and> length target < CONFIG_STORAGE_ID_CAPACITY \<and> list_all storage_target_char target \<and>
     (\<exists>w0 w1 w2 w3 w4 w5. list_all spaces [w0, w1, w2, w3, w4, w5] \<and>
        body = w0 @ 0x7B # w1 @ quoted ''target'' @ w2 @ 0x3A # w3 @ quoted target @ w4 @ 0x7D # w5)"
  (is "_ \<longleftrightarrow> ?grammar")
proof -
  have key: "plain ''target''" by (simp add: plain_def)
  have starts: "quoted t @ r \<noteq> []" "\<not> space_byte (hd (quoted t @ r))" for t r by (simp_all add: quoted_def)
  have "parse_storage_target (Some body) = Some target \<longleftrightarrow>
    (\<exists>c1 c2 c3 c4 c5. skip_json_whitespace body = 0x7B # c1 \<and>
       skip_json_whitespace c1 = quoted ''target'' @ c2 \<and> skip_json_whitespace c2 = 0x3A # c3 \<and>
       skip_json_whitespace c3 = quoted target @ c4 \<and> skip_json_whitespace c4 = 0x7D # c5 \<and>
       skip_json_whitespace c5 = []) \<and>
    target \<noteq> [] \<and> length target < CONFIG_STORAGE_ID_CAPACITY \<and> list_all storage_target_char target"
    (is "?accepted \<longleftrightarrow> ?tokens")
  proof
    show "?accepted \<Longrightarrow> ?tokens"
      by (cases body) (auto simp: parse_storage_target_def bind_eq_Some_conv take_byte_iff parse_json_string_token_iff
          config_constants split: if_splits)
  next
    assume t: ?tokens
    have "parse_json_string_token 16 (quoted ''target'' @ c) = Some (''target'', c)" for c
      using key by (simp add: parse_json_string_token_iff)
    moreover have "parse_json_string_token CONFIG_STORAGE_ID_CAPACITY (quoted target @ c) = Some (target, c)" for c
      using t storage_target_char_plain by (simp add: parse_json_string_token_iff config_constants)
    ultimately show ?accepted
      using t by (cases body) (auto simp: parse_storage_target_def skip_json_whitespace_def [of "[]"])
  qed
  also have "\<dots> \<longleftrightarrow> ?grammar"
  proof
    assume t: ?tokens
    then obtain c1 c2 c3 c4 c5 where c: "skip_json_whitespace body = 0x7B # c1"
      "skip_json_whitespace c1 = quoted ''target'' @ c2" "skip_json_whitespace c2 = 0x3A # c3"
      "skip_json_whitespace c3 = quoted target @ c4" "skip_json_whitespace c4 = 0x7D # c5"
      "skip_json_whitespace c5 = []" by blast
    have run: "\<exists>w. spaces w \<and> x = w @ y" if "skip_json_whitespace x = y" for x y
      using that unfolding skip_json_whitespace_iff by blast
    obtain w0 w1 w2 where w: "spaces w0" "spaces w1" "spaces w2"
      and b: "body = w0 @ 0x7B # c1" "c1 = w1 @ quoted ''target'' @ c2" "c2 = w2 @ 0x3A # c3"
      using run [OF c(1)] run [OF c(2)] run [OF c(3)] by blast
    obtain w3 w4 w5 where w': "spaces w3" "spaces w4" "spaces w5"
      and b': "c3 = w3 @ quoted target @ c4" "c4 = w4 @ 0x7D # c5" "c5 = w5 @ []"
      using run [OF c(4)] run [OF c(5)] run [OF c(6)] by blast
    have "body = w0 @ 0x7B # w1 @ quoted ''target'' @ w2 @ 0x3A # w3 @ quoted target @ w4 @ 0x7D # w5"
      unfolding b b' by simp
    moreover have "list_all spaces [w0, w1, w2, w3, w4, w5]" using w w' by simp
    ultimately show ?grammar using t by blast
  next
    assume g: ?grammar
    then obtain w0 w1 w2 w3 w4 w5 where w: "list_all spaces [w0, w1, w2, w3, w4, w5]"
      and body: "body = w0 @ 0x7B # w1 @ quoted ''target'' @ w2 @ 0x3A # w3 @ quoted target @ w4 @ 0x7D # w5" by blast
    have skip: "skip_json_whitespace (w @ t) = t" if "spaces w" "t = [] \<or> \<not> space_byte (hd t)" for w t
      using that unfolding skip_json_whitespace_iff by blast
    have "skip_json_whitespace body = 0x7B # w1 @ quoted ''target'' @ w2 @ 0x3A # w3 @ quoted target @ w4 @ 0x7D # w5"
      "skip_json_whitespace (w1 @ quoted ''target'' @ w2 @ 0x3A # w3 @ quoted target @ w4 @ 0x7D # w5) =
         quoted ''target'' @ w2 @ 0x3A # w3 @ quoted target @ w4 @ 0x7D # w5"
      "skip_json_whitespace (w2 @ 0x3A # w3 @ quoted target @ w4 @ 0x7D # w5) = 0x3A # w3 @ quoted target @ w4 @ 0x7D # w5"
      "skip_json_whitespace (w3 @ quoted target @ w4 @ 0x7D # w5) = quoted target @ w4 @ 0x7D # w5"
      "skip_json_whitespace (w4 @ 0x7D # w5) = 0x7D # w5" "skip_json_whitespace w5 = []"
      using w starts skip [of w5 "[]"] by (simp_all add: body skip)
    with g show ?tokens by blast
  qed
  finally show ?thesis .
qed

end
