(* ===== verification/UploadEnd.thy ===== *)
theory UploadEnd
  imports UploadPublish
begin

text \<open>
  The end of an upload in any state of the manager, as \<open>clear_slot\<close> brings it about: what becomes of the temporary
  file and of its descriptor, and what stays as it was.
\<close>

section \<open>The last write\<close>

text \<open>Only the file behind a descriptor is written: names stay, and so do the files of all descriptors.\<close>

definition only_descriptor :: "nat option \<Rightarrow> os \<Rightarrow> os \<Rightarrow> bool" where
  "only_descriptor fd s t \<longleftrightarrow> os_names t = os_names s \<and> (\<forall>e. map_option fst (os_fds t e) = map_option fst (os_fds s e)) \<and>
     (\<forall>k. (\<forall>d. fd = Some d \<longrightarrow> map_option fst (os_fds s d) \<noteq> Some k) \<longrightarrow> os_files t k = os_files s k) \<and>
     (benign (os_faults s) \<longrightarrow> benign (os_faults t))"

lemma only_descriptor_trans: "only_descriptor fd s t \<Longrightarrow> only_descriptor fd t u \<Longrightarrow> only_descriptor fd s u"
  unfolding only_descriptor_def by simp

lemma only_descriptor_refl [simp]: "only_descriptor fd s s"
  by (simp add: only_descriptor_def)

lemma only_descriptor_store: "same_store s t \<Longrightarrow> os_faults t = os_faults s \<Longrightarrow> only_descriptor fd s t"
  by (simp add: only_descriptor_def same_store_def)

lemma next_fault_benign:
  assumes "next_fault s = (f, t)" "benign (os_faults s)"
  shows "benign (os_faults t)" and "f \<noteq> Fail e"
  using assms by (auto simp: next_fault_def benign_def injected_def split: list.splits if_splits fault.splits)

lemma sys_write_descriptor:
  assumes "sys_write d x s = (r, t)"
  shows "only_descriptor (Some d) s t"
proof -
  obtain f u where u: "next_fault s = (f, u)" by force
  have "benign (os_faults s) \<longrightarrow> benign (os_faults u)" using next_fault_benign(1) [OF u] by blast
  with next_fault_store [OF u] assms show ?thesis
    by (auto simp: sys_write_def u Let_def no_fd_def same_store_def only_descriptor_def split: fault.splits option.splits)
qed

lemma write_all_descriptor: "write_all fd x s = (e, t) \<Longrightarrow> only_descriptor fd s t"
proof (induction fd x s arbitrary: e t rule: write_all.induct)
  case (1 fd x s)
  show ?case
  proof (cases "x = [] \<or> fd = None")
    case True
    then have "write_all fd x s = (if x = [] then E0 else EBADF, s)" by (subst write_all.simps) auto
    with "1.prems" show ?thesis by simp
  next
    case False
    then obtain d where x: "x \<noteq> []" and fd: "fd = Some d" by auto
    obtain r u where w: "sys_write d x s = (r, u)" by force
    note step = sys_write_descriptor [OF w, folded fd]
    consider (again) y where "write_all fd y u = (e, t)" "r = None \<and> os_errno u = EINTR \<and> y = x \<or> (\<exists>c. r = Some c \<and> c \<noteq> 0 \<and> y = drop c x)"
      | (over) "t = u"
      using "1.prems" x w by (cases r) (auto simp: fd write_all.simps [of _ x s] split: if_splits)
    then show ?thesis
    proof cases
      case again
      with "1.IH" [OF x fd w [symmetric]] have "only_descriptor fd u t" by auto
      with step show ?thesis by (rule only_descriptor_trans)
    next
      case over
      with step show ?thesis by simp
    qed
  qed
qed

lemma writer_done_descriptor:
  assumes "writer_done m s = (m', t)"
  shows "only_descriptor (sl_fd (mg_slot m)) s t \<and> mg_slot m' = mg_slot m \<and> mg_destination m' = mg_destination m"
proof (cases "wt_job (mg_writer m)")
  case None
  with assms show ?thesis by (auto simp: writer_done_def)
next
  case (Some job)
  obtain t0 s1 where r: "read_nanos s = (t0, s1)" by force
  obtain e s2 where a: "write_all (sl_fd (mg_slot m)) (case job of Queue_job _ b n \<Rightarrow> take n b | Chunk_job _ b n \<Rightarrow> take n b) s1 = (e, s2)"
    by force
  obtain t1 s3 where r2: "read_nanos s2 = (t1, s3)" by force
  have "t = s3" "mg_slot m' = mg_slot m" "mg_destination m' = mg_destination m"
    using assms Some r a r2 by (auto simp: writer_done_def Let_def split: writer_job.splits)
  moreover have "only_descriptor (sl_fd (mg_slot m)) s s3"
    using only_descriptor_store [of s s1] only_descriptor_store [of s2 s3] read_nanos_store [OF r] read_nanos_store [OF r2]
      write_all_descriptor [OF a] by (metis only_descriptor_trans)
  ultimately show ?thesis by simp
qed

section \<open>Closing and removing\<close>

lemma sys_close_ends:
  assumes "sys_close d s = (ok, t)"
  shows "os_names t = os_names s \<and> os_files t = os_files s \<and> os_fds t d = None \<and> (benign (os_faults s) \<longrightarrow> benign (os_faults t))"
proof -
  obtain f u where u: "next_fault s = (f, u)" by force
  have "benign (os_faults s) \<longrightarrow> benign (os_faults u)" using next_fault_benign(1) [OF u] by blast
  with next_fault_store [OF u] assms show ?thesis
    by (auto simp: sys_close_def u fails_def same_store_def split: fault.splits if_splits)
qed

lemma sys_unlink_removes:
  assumes "sys_unlink p s = (ok, t)" "benign (os_faults s)" "os_names s p \<noteq> Some Directory"
  shows "os_names t p = None"
proof -
  obtain f u where u: "next_fault s = (f, u)" by force
  have "f \<noteq> Fail e" for e using next_fault_benign(2) [OF u assms(2)] .
  with next_fault_store [OF u] assms(1,3) show ?thesis
    by (auto simp: sys_unlink_def u fails_def same_store_def split: fault.splits option.splits node.splits)
qed

text \<open>
  The end of the upload in the slot: only its temporary name goes, and it does go when no call fails; no file but the
  one behind its descriptor is written; the descriptor is closed.
\<close>

definition upload_ended :: "upload_manager \<Rightarrow> os \<Rightarrow> upload_manager \<Rightarrow> os \<Rightarrow> bool" where
  "upload_ended m s m' t \<longleftrightarrow> cleared m' \<and> mg_destination m' = mg_destination m \<and>
     (let part = sl_part_path (mg_slot m)
      in (\<forall>p. p \<noteq> part \<longrightarrow> os_names t p = os_names s p) \<and> os_names t part \<in> {os_names s part, None} \<and>
         (benign (os_faults s) \<longrightarrow> part \<noteq> [] \<longrightarrow> os_names s part \<noteq> Some Directory \<longrightarrow> os_names t part = None)) \<and>
     (\<forall>k. (\<forall>d. sl_fd (mg_slot m) = Some d \<longrightarrow> map_option fst (os_fds s d) \<noteq> Some k) \<longrightarrow> os_files t k = os_files s k) \<and>
     (\<forall>d. sl_fd (mg_slot m) = Some d \<longrightarrow> os_fds t d = None)"

lemma clear_slot_ended:
  assumes "clear_slot True m s = (ok, m', t)"
  shows "upload_ended m s m' t"
proof -
  let ?m = "on_writer (\<lambda>w. w\<lparr>wt_discard := True\<rparr>) m" and ?part = "sl_part_path (mg_slot m)"
  obtain m1 s1 where settle: "settle_writer ?m s = (m1, s1)" by force
  have s1: "only_descriptor (sl_fd (mg_slot m)) s s1 \<and> mg_slot m1 = mg_slot m \<and> mg_destination m1 = mg_destination m"
    using settle writer_done_descriptor [of ?m s m1 s1] by (auto simp: settle_writer_def split: if_splits)
  obtain closed s2 where c: "close_slot (mg_slot m) s1 = (closed, s2)" by force
  have s2: "os_names s2 = os_names s1 \<and> os_files s2 = os_files s1 \<and> (\<forall>d. sl_fd (mg_slot m) = Some d \<longrightarrow> os_fds s2 d = None) \<and>
      (benign (os_faults s1) \<longrightarrow> benign (os_faults s2))"
    using c sys_close_ends by (auto simp: close_slot_def split: option.splits)
  obtain removed s3 where r: "unlink_part True (mg_slot m) s2 = (removed, s3)" by force
  have out: "t = s3" "mg_destination m' = mg_destination m1" using assms settle c r s1 by (auto simp: clear_slot_def)
  have s3: "os_files s3 = os_files s2 \<and> os_fds s3 = os_fds s2 \<and> (\<forall>p. p \<noteq> ?part \<longrightarrow> os_names s3 p = os_names s2 p) \<and>
      os_names s3 ?part \<in> {os_names s2 ?part, None} \<and>
      (benign (os_faults s2) \<longrightarrow> ?part \<noteq> [] \<longrightarrow> os_names s2 ?part \<noteq> Some Directory \<longrightarrow> os_names s3 ?part = None)"
  proof (cases "?part = []")
    case True
    with r show ?thesis by (simp add: unlink_part_def)
  next
    case False
    obtain ok1 u where un: "sys_unlink ?part s2 = (ok1, u)" by force
    with False r have "s3 = u" by (simp add: unlink_part_def)
    with sys_unlink_outcome [OF un] sys_unlink_removes [OF un] show ?thesis by simp
  qed
  show ?thesis
    using clear_slot_cleared [OF assms] s1 s2 s3 by (auto simp: upload_ended_def Let_def only_descriptor_def out)
qed

lemma reap_now_ended:
  assumes "reap_now m s = (m', t)"
  obtains (kept) "m' = m" "same_store s t"
    | (lapsed) u where "lease_expired m (fst (read_seconds s))" "same_store s u" "os_faults u = os_faults s" "upload_ended m u m' t"
proof -
  obtain now u where r: "read_seconds s = (now, u)" by force
  note u = read_seconds_store [OF r]
  show thesis
  proof (cases "lease_expired m now")
    case True
    obtain ok v w where c: "clear_slot True m u = (ok, v, w)" by (rule prod_cases3)
    with assms r True have "m' = v" "t = w" by (simp_all add: reap_now_def reap_locked_def)
    with lapsed [of u] clear_slot_ended [OF c] True r u show thesis by simp
  next
    case False
    with assms r kept u show thesis by (simp add: reap_now_def reap_locked_def)
  qed
qed

lemma upload_ended_store:
  "same_store s u \<Longrightarrow> os_faults u = os_faults s \<Longrightarrow> upload_ended m u m' t \<Longrightarrow> upload_ended m s m' t"
  by (simp add: upload_ended_def same_store_def)

end
