(* ===== verification/RouterProps.thy ===== *)
theory RouterProps
  imports Router RouterTextProps ConfigSave UploadEnd
begin

text \<open>
  What the routes guarantee: only a request from the server's own page with a valid session reaches the
  uploads and the settings, what a change of the storage directory leaves behind, that the status always
  fits, and that the PIN goes to the screen only.
\<close>

section \<open>Access\<close>

text \<open>The request comes from the server's own page and, unless authentication is off, holds a session.\<close>

definition allowed :: "router \<Rightarrow> router_request \<Rightarrow> os \<Rightarrow> bool" where
  "allowed r request s \<longleftrightarrow> same_origin request \<and>
     (rt_auth_mode r = CONFIG_AUTH_NONE \<or>
      fst (auth_validate_bearer (rt_auth r) (Some (rq_client_address request)) (rq_authorization request) s) = AUTH_OK)"

lemma allowed_iff: "allowed r request s \<longleftrightarrow> same_origin request \<and> fst (authorized r request s)"
  by (simp add: allowed_def authorized_def split: prod.splits)

text \<open>Nothing but the tables of challenges and sessions, the scripts and \<open>errno\<close> has changed.\<close>

definition untouched :: "router \<Rightarrow> os \<Rightarrow> router \<Rightarrow> os \<Rightarrow> bool" where
  "untouched r s r' s' \<longleftrightarrow> same_store s s' \<and> (\<exists>a. r' = r\<lparr>rt_auth := a\<rparr>)"

lemma untouched_refl [simp]: "untouched r s r s"
  by (auto simp: untouched_def intro: exI [of _ "rt_auth r"])

lemma untouchedI: "same_store s s' \<Longrightarrow> untouched r s (r\<lparr>rt_auth := a\<rparr>) s'"
  by (auto simp: untouched_def)

text \<open>The authentication calls only draw random bytes and read the clock.\<close>

definition only_draws :: "os \<Rightarrow> os \<Rightarrow> bool" where
  "only_draws s t \<longleftrightarrow> same_store s t \<and> os_errno t = os_errno s \<and> os_faults t = os_faults s \<and> os_nanos t = os_nanos s \<and>
     os_space t = os_space s \<and> os_listings t = os_listings s \<and> os_notices t = os_notices s"

lemma only_draws_refl [simp]: "only_draws s s"
  by (simp add: only_draws_def)

lemma only_draws_trans: "only_draws s t \<Longrightarrow> only_draws t u \<Longrightarrow> only_draws s u"
  by (auto simp: only_draws_def intro: same_store_trans)

lemma only_draws_store: "only_draws s t \<Longrightarrow> same_store s t"
  by (simp add: only_draws_def)

lemma read_seconds_draws: "read_seconds s = (x, t) \<Longrightarrow> only_draws s t"
  by (auto simp: read_seconds_def only_draws_def same_store_def split: list.splits)

lemma secure_random_draws: "secure_random n s = (x, t) \<Longrightarrow> only_draws s t"
  by (auto simp: secure_random_def only_draws_def same_store_def split: list.splits option.splits)

lemma generate_hex_draws: "generate_hex n s = (x, t) \<Longrightarrow> only_draws s t"
  using secure_random_draws by (auto simp: generate_hex_def split: if_splits prod.splits)

lemma generate_pin_draws: "generate_pin s = (x, t) \<Longrightarrow> only_draws s t"
proof (induction s arbitrary: x t rule: generate_pin.induct)
  case (1 s)
  obtain d u where d: "secure_random 4 s = (d, u)" by force
  note u = secure_random_draws [OF d]
  show ?case
  proof (cases d)
    case None
    with 1 d u show ?thesis by (subst (asm) generate_pin.simps) auto
  next
    case (Some bytes)
    show ?thesis
    proof (cases "pin_limit \<le> random_u32 bytes")
      case True
      with "1.prems" d Some have "generate_pin u = (x, t)" by (subst (asm) generate_pin.simps) (simp add: Let_def)
      with "1.IH" [OF d [symmetric] Some refl True] u show ?thesis by (blast intro: only_draws_trans)
    next
      case False
      with "1.prems" d Some u show ?thesis by (subst (asm) generate_pin.simps) (simp add: Let_def)
    qed
  qed
qed

lemma create_challenge_draws: "auth_create_challenge m client s = (x, c, m', t) \<Longrightarrow> only_draws s t"
  using read_seconds_draws generate_hex_draws generate_pin_draws
  by (fastforce simp: auth_create_challenge_def auth_create_challenge_at_def Let_def
      split: prod.splits if_splits option.splits bool.splits intro: only_draws_trans)

lemma verify_challenge_draws: "auth_verify_challenge m client i p s = (x, c, m', t) \<Longrightarrow> only_draws s t"
  using read_seconds_draws generate_hex_draws
  by (fastforce simp: auth_verify_challenge_def auth_verify_challenge_at_def Let_def
      split: prod.splits if_splits option.splits intro: only_draws_trans)

lemmas create_challenge_store = create_challenge_draws [THEN only_draws_store]
  and verify_challenge_store = verify_challenge_draws [THEN only_draws_store]

lemma authorized_untouched: "authorized r request s = (ok, r', s') \<Longrightarrow> untouched r s r' s'"
  using read_seconds_store
  by (fastforce simp: authorized_def auth_validate_bearer_def split: prod.splits if_splits intro: untouchedI)

lemma refused:
  assumes "authorized r request s = (ok, r1, s1)" "\<not> allowed r request s"
  obtains "\<not> same_origin request" | "same_origin request" "\<not> ok" "untouched r s r1 s1"
  using assms authorized_untouched [OF assms(1)] by (auto simp: allowed_iff)

lemma prepare_guarded:
  assumes "dispatch_upload_prepare env r request rs s = Some (rs', r', s')" "\<not> allowed r request s"
  shows "untouched r s r' s'"
proof -
  obtain ok r1 s1 where a: "authorized r request s = (ok, r1, s1)" by (metis prod_cases3)
  show ?thesis
    by (rule refused [OF a assms(2)]) (use assms(1) a in \<open>auto simp: dispatch_upload_prepare_def split: if_splits\<close>)
qed

lemma delete_guarded:
  assumes "dispatch_upload_delete env r request rs i s = Some (rs', r', s')" "\<not> allowed r request s"
  shows "untouched r s r' s'"
proof -
  obtain ok r1 s1 where a: "authorized r request s = (ok, r1, s1)" by (metis prod_cases3)
  show ?thesis
    by (rule refused [OF a assms(2)]) (use assms(1) a in \<open>auto simp: dispatch_upload_delete_def split: if_splits\<close>)
qed

lemma complete_guarded:
  assumes "dispatch_upload_complete env r request rs i s = Some (rs', r', s')" "\<not> allowed r request s"
  shows "untouched r s r' s'"
proof -
  obtain ok r1 s1 where a: "authorized r request s = (ok, r1, s1)" by (metis prod_cases3)
  show ?thesis
    by (rule refused [OF a assms(2)]) (use assms(1) a in \<open>auto simp: dispatch_upload_complete_def split: if_splits\<close>)
qed

lemma storage_guarded:
  assumes "dispatch_storage env r request rs s = (rs', r', s')" "\<not> allowed r request s"
  shows "untouched r s r' s'"
proof -
  obtain ok r1 s1 where a: "authorized r request s = (ok, r1, s1)" by (metis prod_cases3)
  show ?thesis
    by (rule refused [OF a assms(2)]) (use assms(1) a in \<open>auto simp: dispatch_storage_def split: if_splits\<close>)
qed

lemma begin_guarded:
  assumes "router_upload_stream_begin_ex env r request len s = Some (x, r', s')" "\<not> allowed r request s"
  shows "untouched r s r' s' \<and> (\<exists>rs. x = Inl rs)"
proof -
  obtain ok r1 s1 where a: "authorized r request s = (ok, r1, s1)" by (metis prod_cases3)
  show ?thesis
    by (rule refused [OF a assms(2)])
      (use assms(1) a in \<open>auto simp: router_upload_stream_begin_ex_def split: if_splits option.splits\<close>)
qed

lemma challenge_untouched:
  assumes "dispatch_challenge env r request rs s = (rs', r', s')"
  shows "untouched r s r' s'"
proof -
  obtain result c a s1 where cr: "auth_create_challenge (rt_auth r) (Some (rq_client_address request)) s = (result, c, a, s1)"
    by (metis prod_cases4)
  define n where "n = notification_text (cr_pin (the c)) (rq_client_address request)"
  obtain ok s2 where p: "platform_notify (ev_build env) n s1 = (ok, s2)" by force
  have "same_store s s1" "same_store s s2"
    using create_challenge_store [OF cr] platform_notify_store [OF p] by (blast intro: same_store_trans)+
  then have "(r' = r \<and> s' = s) \<or> (r' = r\<lparr>rt_auth := a\<rparr> \<and> same_store s s')"
    using assms cr p unfolding n_def
    by (auto simp: dispatch_challenge_def Let_def split: if_splits bool.splits prod.splits)
  then show ?thesis by (auto intro: untouchedI)
qed

lemma verify_untouched:
  assumes "dispatch_verify r request rs s = (rs', r', s')"
  shows "untouched r s r' s'"
proof (cases "auth_parse_verify_json (request_body request)")
  case None
  with assms show ?thesis by (auto simp: dispatch_verify_def split: if_splits)
next
  case (Some x)
  then obtain i p where x: "auth_parse_verify_json (request_body request) = Some (i, p)" by (cases x) auto
  obtain result c a s1 where v:
    "auth_verify_challenge (rt_auth r) (Some (rq_client_address request)) (Some i) (Some p) s = (result, c, a, s1)"
    by (metis prod_cases4)
  have "(r' = r \<and> s' = s) \<or> (r' = r\<lparr>rt_auth := a\<rparr> \<and> s' = s1)"
    using assms x v by (auto simp: dispatch_verify_def Let_def split: if_splits)
  then show ?thesis using verify_challenge_store [OF v] by (auto intro: untouchedI)
qed

text \<open>
  What anybody may bring about: the lease of the upload in the slot has run out, and the upload is ended.
\<close>

definition lapsed :: "router \<Rightarrow> os \<Rightarrow> router \<Rightarrow> os \<Rightarrow> bool" where
  "lapsed r s r' s' \<longleftrightarrow> lease_expired (rt_uploads r) (fst (read_seconds s)) \<and>
     (\<exists>m. reap_now (rt_uploads r) s = (m, s') \<and> r' = r\<lparr>rt_uploads := m\<rparr> \<and> upload_ended (rt_uploads r) s m s')"

lemma status_reaps:
  assumes "dispatch_status r rs s = (rs', r', s')"
  shows "untouched r s r' s' \<or> lapsed r s r' s'"
proof -
  have "(r' = r \<and> s' = s) \<or> (\<exists>m. reap_now (rt_uploads r) s = (m, s') \<and> r' = r\<lparr>rt_uploads := m\<rparr>)"
    using assms by (auto simp: dispatch_status_def upload_snapshot_of_def Let_def split: option.splits prod.splits if_splits)
  then show ?thesis
  proof (elim disjE exE conjE)
    fix m assume m: "reap_now (rt_uploads r) s = (m, s')" "r' = r\<lparr>rt_uploads := m\<rparr>"
    from m(1) show ?thesis
    proof (cases rule: reap_now_ended)
      case kept
      then show ?thesis using m(2) untouchedI [of s s' r "rt_auth r"] by simp
    next
      case (lapsed u)
      then show ?thesis using m upload_ended_store by (auto simp: lapsed_def)
    qed
  qed simp
qed

lemma dispatch_guarded:
  assumes "router_dispatch env r request s = Some (rs, r', s')" "\<not> allowed r request s"
  shows "untouched r s r' s' \<or> (rq_path request = ''/api/v1/status'' \<and> lapsed r s r' s')"
  using assms(1) prepare_guarded [OF _ assms(2)] delete_guarded [OF _ assms(2)] complete_guarded [OF _ assms(2)]
    storage_guarded [OF _ assms(2)] challenge_untouched verify_untouched status_reaps
  unfolding router_dispatch_def Let_def
  by (fastforce split: if_splits option.splits)

text \<open>C4: Only a request from the server's own page, which names that page in 'Origin' and, unless
  authentication is off, holds a session of its client, acts on uploads or settings.  Any other request, on
  any route and with any method, leaves the settings, the upload manager and every file as they were (only the
  tables of challenges and sessions may change), with one exception: the status, which is public, ends an upload
  whose lease has run out.  Then the settings stay, the slot is empty, no name but the temporary one of that upload
  is removed (and that one is, if no call fails), and no file but the one behind its descriptor is written.  Any
  attempt of such a request to begin a stream is refused and changes nothing.\<close>
theorem only_allowed_requests_act:
  assumes "\<not> allowed r request s"
  shows "(\<forall>rs r' s'. router_dispatch env r request s = Some (rs, r', s') \<longrightarrow>
      untouched r s r' s' \<or> (rq_path request = ''/api/v1/status'' \<and> lapsed r s r' s')) \<and>
    (\<forall>len x r' s'. router_upload_stream_begin_ex env r request len s = Some (x, r', s') \<longrightarrow>
      untouched r s r' s' \<and> (\<exists>rs. x = Inl rs))"
  using dispatch_guarded [OF _ assms] begin_guarded [OF _ assms] by blast

section \<open>What a change of directory does to the names\<close>

text \<open>An entry stays, disappears, or is a new directory; no file number is used again.\<close>

definition names_kept :: "os \<Rightarrow> os \<Rightarrow> bool" where
  "names_kept s t \<longleftrightarrow> os_next s \<le> os_next t \<and> (\<forall>p. os_names t p \<in> {os_names s p, None, Some Directory})"

lemma names_kept_refl [simp]: "names_kept s s"
  by (simp add: names_kept_def)

lemma names_kept_trans: "names_kept s t \<Longrightarrow> names_kept t u \<Longrightarrow> names_kept s u"
  unfolding names_kept_def by (metis (no_types, opaque_lifting) insert_iff le_trans singletonD)

lemma same_store_names: "same_store s t \<Longrightarrow> names_kept s t"
  by (simp add: same_store_def names_kept_def)

lemma own_temporary_kept:
  assumes "own_temporary path s" "names_kept s t"
  shows "own_temporary path t"
proof -
  have kept: "os_names t p = os_names s p" if "os_names t p \<noteq> None" "os_names t p \<noteq> Some Directory" for p
    using assms(2) that by (auto simp: names_kept_def)
  have "os_names t (path @ ''.tmp'') \<noteq> Some (Symlink target)" for target
    using assms(1) kept [of "path @ ''.tmp''"] by (metis node.distinct(3) no_link_def option.distinct(1) option.inject own_temporary_def)
  then have "no_link (path @ ''.tmp'') t" by (simp add: no_link_def)
  moreover have "n < os_next t \<and> os_names t (path @ ''.tmp'') \<noteq> Some (Regular n)" if "os_names t path = Some (Regular n)" for n
  proof -
    have "os_names s path = Some (Regular n)" using kept [of path] that by simp
    then have "n < os_next s" "os_names s (path @ ''.tmp'') \<noteq> Some (Regular n)" using assms(1) by (simp_all add: own_temporary_def)
    then show ?thesis using assms(2) kept [of "path @ ''.tmp''"] by (auto simp: names_kept_def)
  qed
  ultimately show ?thesis by (simp add: own_temporary_def)
qed

lemma sys_write_names: "sys_write d x s = (r, t) \<Longrightarrow> names_kept s t"
  using next_fault_store
  by (fastforce simp: sys_write_def Let_def no_fd_def same_store_def names_kept_def split: prod.splits fault.splits option.splits)

lemma write_all_names: "write_all fd x s = (e, t) \<Longrightarrow> names_kept s t"
proof (induction fd x s arbitrary: e t rule: write_all.induct)
  case (1 fd x s)
  show ?case
  proof (cases "x = [] \<or> fd = None")
    case True
    then have "write_all fd x s = (if x = [] then E0 else EBADF, s)" by (subst write_all.simps) auto
    with "1.prems" have "t = s" by simp
    then show ?thesis by simp
  next
    case False
    then obtain d where x: "x \<noteq> []" and fd: "fd = Some d" by auto
    obtain r u where w: "sys_write d x s = (r, u)" by force
    note kept = sys_write_names [OF w]
    show ?thesis
    proof (cases r)
      case None
      show ?thesis
      proof (cases "os_errno u = EINTR")
        case True
        then have "write_all fd x u = (e, t)" using "1.prems" x w None by (simp add: fd write_all.simps [of _ x s])
        with "1.IH"(1) [OF x fd w [symmetric] None True] kept show ?thesis by (blast intro: names_kept_trans)
      next
        case False
        then show ?thesis using "1.prems" x w None kept by (simp add: fd write_all.simps [of _ x s])
      qed
    next
      case (Some count)
      show ?thesis
      proof (cases "count = 0")
        case True
        then show ?thesis using "1.prems" x w Some kept by (simp add: fd write_all.simps [of _ x s])
      next
        case False
        then have "write_all fd (drop count x) u = (e, t)" using "1.prems" x w Some by (simp add: fd write_all.simps [of _ x s])
        with "1.IH"(2) [OF x fd w [symmetric] Some False] kept show ?thesis by (blast intro: names_kept_trans)
      qed
    qed
  qed
qed

lemma sys_unlink_names: "sys_unlink p s = (ok, t) \<Longrightarrow> names_kept s t"
proof -
  assume a: "sys_unlink p s = (ok, t)"
  obtain f u where u: "next_fault s = (f, u)" by force
  show ?thesis using a next_fault_store [OF u] unfolding sys_unlink_def u
    by (auto simp: fails_def same_store_def names_kept_def split: fault.splits option.splits if_splits node.splits)
qed

lemma sys_close_names: "sys_close fd s = (ok, t) \<Longrightarrow> names_kept s t"
  using next_fault_store
  by (fastforce simp: sys_close_def fails_def same_store_def names_kept_def split: prod.splits fault.splits if_splits)

lemma writer_done_names: "writer_done m s = (m', t) \<Longrightarrow> names_kept s t"
proof (cases "wt_job (mg_writer m)")
  case None
  then show "writer_done m s = (m', t) \<Longrightarrow> ?thesis" by (simp add: writer_done_def)
next
  case (Some job)
  assume w: "writer_done m s = (m', t)"
  obtain t0 s1 where r: "read_nanos s = (t0, s1)" by force
  obtain e s2 where a: "write_all (sl_fd (mg_slot m)) (case job of Queue_job _ b n \<Rightarrow> take n b | Chunk_job _ b n \<Rightarrow> take n b) s1 = (e, s2)"
    by force
  obtain t1 s3 where r2: "read_nanos s2 = (t1, s3)" by force
  have "t = s3" using w Some r a r2 by (simp add: writer_done_def Let_def)
  then show ?thesis
    using read_nanos_store [OF r] read_nanos_store [OF r2] write_all_names [OF a] by (blast intro: names_kept_trans same_store_names)
qed

lemma clear_slot_names:
  assumes "clear_slot remove m s = (ok, m', t)"
  shows "names_kept s t"
proof -
  obtain m1 s1 where 1: "settle_writer (on_writer (\<lambda>w. w\<lparr>wt_discard := True\<rparr>) m) s = (m1, s1)" by force
  obtain closed s2 where 2: "close_slot (mg_slot m1) s1 = (closed, s2)" by force
  obtain removed s3 where 3: "unlink_part remove (mg_slot m1) s2 = (removed, s3)" by force
  have "names_kept s s1" using 1 writer_done_names by (auto simp: settle_writer_def split: if_splits)
  moreover have "names_kept s1 s2" using 2 sys_close_names by (auto simp: close_slot_def split: option.splits)
  moreover have "names_kept s2 s3" using 3 sys_unlink_names by (auto simp: unlink_part_def split: prod.splits if_splits)
  moreover have "t = s3" using assms 1 2 3 by (simp add: clear_slot_def)
  ultimately show ?thesis by (blast intro: names_kept_trans)
qed

lemma reap_now_names: "reap_now m s = (m', t) \<Longrightarrow> names_kept s t"
proof -
  assume r: "reap_now m s = (m', t)"
  obtain now u where n: "read_seconds s = (now, u)" by force
  obtain ok v w where c: "clear_slot True m u = (ok, v, w)" by (rule prod_cases3)
  have "t = u \<or> t = w" using r n c by (auto simp: reap_now_def reap_locked_def split: if_splits)
  with same_store_names [of s u] read_seconds_store [OF n] clear_slot_names [OF c] show ?thesis
    by (blast intro: names_kept_trans)
qed

lemma directories_names: "only_directories_added s t \<Longrightarrow> names_kept s t"
  unfolding only_directories_added_def names_kept_def by auto

lemma ensure_directory_names: "safe_path_ensure_directory p s = (ok, t) \<Longrightarrow> names_kept s t"
  by (auto simp: safe_path_ensure_directory_def Let_def fails_def names_kept_def [of s "s\<lparr>os_errno := e\<rparr>" for e]
      dest!: walk_directories_effect(1) directories_names split: if_splits)

lemma names_kept_errno: "names_kept s t \<Longrightarrow> names_kept s (t\<lparr>os_errno := e\<rparr>)"
  by (simp add: names_kept_def)

lemma ensure_destination_names:
  assumes "ensure_destination_directory p s = (ok, t)"
  shows "names_kept s t"
proof -
  obtain status u where l: "sys_lstat (take (anchor_size p) p) s = (status, u)" by force
  have u: "names_kept s u" using sys_lstat_store [OF l] by (simp add: same_store_names)
  have "safe_path_ensure_directory p s = (ok, t) \<or> (\<exists>e. t = s\<lparr>os_errno := e\<rparr>) \<or> (\<exists>e. t = u\<lparr>os_errno := e\<rparr>) \<or>
      safe_path_ensure_directory p u = (ok, t)"
    using assms l by (auto simp: ensure_destination_directory_def fails_def split: if_splits)
  then show ?thesis using u ensure_directory_names names_kept_errno names_kept_refl names_kept_trans by blast
qed

lemma cleanup_entries_names: "names_kept s (cleanup_entries d now names s)"
proof (induction d now names s rule: cleanup_entries.induct)
  case (2 d now name names s)
  have drop: "names_kept s (snd (sys_unlink p u))" if "names_kept s u" for u p
    using that sys_unlink_names names_kept_trans by (metis surjective_pairing)
  show ?case
  proof (cases "safe_path_join d name SAFE_PATH_FULL_BYTES")
    case None
    then show ?thesis using "2.IH" by simp
  next
    case (Some path)
    obtain status u where l: "sys_lstat path s = (status, u)" by force
    have u: "names_kept s u" using sys_lstat_store [OF l] by (simp add: same_store_names)
    define v where "v = (if \<not> managed_part_name name then s
      else case regular_mtime u status of None \<Rightarrow> u | Some mtime \<Rightarrow> (if now - 86400 < mtime then u else snd (sys_unlink path u)))"
    have "names_kept s v" using u drop [OF u] by (simp add: v_def split: option.split)
    moreover have "names_kept v (cleanup_entries d now names v)" using "2.IH" Some l by (cases "managed_part_name name") (simp_all add: v_def)
    moreover have "cleanup_entries d now (name # names) s = cleanup_entries d now names v"
      using Some l by (cases "managed_part_name name") (simp_all add: v_def)
    ultimately show ?thesis by (metis names_kept_trans)
  qed
qed simp

lemma cleanup_stale_parts_names: "names_kept s (cleanup_stale_parts d s)"
proof -
  obtain names u where l: "sys_listing s = (names, u)" by force
  have u: "same_store s u" using l by (auto simp: sys_listing_def same_store_def split: list.splits)
  obtain now v where r: "read_seconds u = (now, v)" by force
  have "names_kept s u" "names_kept s v"
    using u read_seconds_store [OF r] same_store_names same_store_trans by blast+
  then show ?thesis
    using l r cleanup_entries_names names_kept_trans by (auto simp: cleanup_stale_parts_def split: option.splits)
qed

text \<open>The directory that a change ends up with: a variable of the host build comes first.\<close>

definition effective_directory :: "build \<Rightarrow> string option \<Rightarrow> string \<Rightarrow> string" where
  "effective_directory b u d = (case (b, u) of (Host, Some x) \<Rightarrow> (if x \<noteq> [] \<and> hd x = CHR ''/'' then x else d) | _ \<Rightarrow> d)"

lemma set_destination_steps:
  "upload_manager_set_destination b u m d s =
     (let e = effective_directory b u d
      in if e = [] \<or> hd e \<noteq> CHR ''/'' \<or> 1024 \<le> length e then (UPLOAD_INVALID, m, s)
         else case reap_now m s of
             (m, s) \<Rightarrow>
               (if sl_occupied (mg_slot m) then (UPLOAD_BUSY, m, s)
                else case ensure_destination_directory e s of
                    (False, s) \<Rightarrow> (storage_result (os_errno s), m, s)
                  | (True, s) \<Rightarrow>
                      (if mg_destination m \<noteq> e then (UPLOAD_OK, m\<lparr>mg_destination := e\<rparr>, cleanup_stale_parts e s)
                       else (UPLOAD_OK, m, s))))"
  unfolding upload_manager_set_destination_def effective_directory_def ..

lemma set_destination_names:
  assumes "upload_manager_set_destination b u m d s = (result, m', t)"
  shows "names_kept s t"
proof -
  define e where "e = effective_directory b u d"
  obtain m1 s1 where r: "reap_now m s = (m1, s1)" by force
  obtain ok s2 where c: "ensure_destination_directory e s1 = (ok, s2)" by force
  have kept: "names_kept s s1" "names_kept s s2"
    using reap_now_names [OF r] ensure_destination_names [OF c] by (blast intro: names_kept_trans)+
  have "t = s \<or> t = s1 \<or> t = s2 \<or> t = cleanup_stale_parts e s2"
    using assms r c by (auto simp: set_destination_steps Let_def e_def [symmetric] split: if_splits bool.splits)
  then show ?thesis using kept names_kept_trans [OF kept(2) cleanup_stale_parts_names] by auto
qed

lemma set_destination_OK:
  assumes "upload_manager_set_destination b u m d s = (UPLOAD_OK, m', t)"
  shows "mg_destination m' = effective_directory b u d" "\<not> sl_occupied (mg_slot m')"
proof -
  define e where "e = effective_directory b u d"
  obtain m1 s1 where r: "reap_now m s = (m1, s1)" by force
  obtain ok s2 where c: "ensure_destination_directory e s1 = (ok, s2)" by force
  show "mg_destination m' = effective_directory b u d" "\<not> sl_occupied (mg_slot m')"
    using assms r c
    by (auto simp: set_destination_steps Let_def e_def [symmetric] storage_result_def split: if_splits bool.splits)
qed

section \<open>Changing the storage directory\<close>

lemma response_status [simp]:
  "rs_status (json_response rs n t) = n" "rs_status (set_json_error rs n c m) = n"
  "rs_status (set_storage_error rs x) = (if x = UPLOAD_BUSY then 409 else if x = UPLOAD_STORAGE_FULL then 507 else 503)"
  by (simp_all add: json_response_def set_json_error_def set_storage_error_def)

lemma reply_status: "rs_status (reply rs n t) = (if RESPONSE_STORAGE_BYTES \<le> length t then 500 else n)"
  by (simp add: reply_def)

lemma authorized_fields:
  "authorized r request s = (ok, r', s') \<Longrightarrow>
   rt_config r' = rt_config r \<and> rt_config_path r' = rt_config_path r \<and> rt_uploads r' = rt_uploads r \<and> names_kept s s'"
  using authorized_untouched by (fastforce simp: untouched_def dest: same_store_names)

text \<open>A request for another directory: refused before anything happens, or it comes to \<open>change_storage\<close>.\<close>

lemma storage_cases:
  assumes "dispatch_storage env r request rs s = (rs', r', s')"
  obtains (refused) "rs_status rs' \<noteq> 200" "rt_config r' = rt_config r" "rt_uploads r' = rt_uploads r"
    | (changed) target path r1 s1 where "parse_storage_target (request_body request) = Some target"
        "storage_path_for_target (rt_config r) target = Some path"
        "authorized r request s = (True, r1, s1)" "change_storage env r1 target path rs s1 = (rs', r', s')"
proof -
  obtain ok r1 s1 where a: "authorized r request s = (ok, r1, s1)" by (metis prod_cases3)
  note f = authorized_fields [OF a]
  show thesis
  proof (cases "ok \<and> (\<exists>target path. parse_storage_target (request_body request) = Some target \<and>
      storage_path_for_target (rt_config r) target = Some path \<and> change_storage env r1 target path rs s1 = (rs', r', s'))")
    case True
    then obtain target path where "ok" "parse_storage_target (request_body request) = Some target"
      "storage_path_for_target (rt_config r) target = Some path" "change_storage env r1 target path rs s1 = (rs', r', s')" by blast
    with a changed [of target path r1 s1] show thesis by simp
  next
    case False
    then have "rs_status rs' \<noteq> 200 \<and> rt_config r' = rt_config r \<and> rt_uploads r' = rt_uploads r"
      using assms a f by (auto simp: dispatch_storage_def split: if_splits bool.splits option.splits)
    then show thesis using refused by blast
  qed
qed

lemma storage_text_fits:
  assumes "parse_storage_target body = Some target" "length path < CONFIG_DESTINATION_CAPACITY"
  shows "length (storage_text target path) < RESPONSE_STORAGE_BYTES"
proof -
  have "length target < CONFIG_STORAGE_ID_CAPACITY"
    using assms(1) by (cases body) (auto simp: parse_storage_target_def bind_eq_Some_conv parse_json_string_token_iff
        config_constants split: if_splits)
  then show ?thesis using assms(2) by (simp add: storage_text_def router_constants config_constants)
qed

lemma target_of_config:
  assumes "wf_config c" "storage_path_for_target c target = Some path"
  shows "safe_directory path" "path \<in> st_path ` set (storage_targets c)" "wf_config (c\<lparr>destination := path\<rparr>)"
proof -
  obtain t where "find (\<lambda>t. st_id t = target) (storage_targets c) = Some t" and p: "path = st_path t"
    using assms(2) by (auto simp: storage_path_for_target_def storage_by_id_def)
  then have "t \<in> set (storage_targets c)" by (auto simp: find_Some_iff)
  with p have t: "t \<in> set (storage_targets c)" "path = st_path t" by simp_all
  then show in_set: "path \<in> st_path ` set (storage_targets c)" by blast
  show safe: "safe_directory path"
    using assms(1) t by (auto simp: wf_config_def wf_defs wf_target_def list_all_iff)
  show "wf_config (c\<lparr>destination := path\<rparr>)"
    using assms(1) safe in_set by (simp add: wf_config_def wf_defs)
qed

text \<open>What the reply 200 stands for.\<close>

lemma storage_saved:
  assumes "dispatch_storage env r request rs s = (rs', r', s')" "rs_status rs' = 200" "own_temporary (rt_config_path r) s"
  obtains target path n where "parse_storage_target (request_body request) = Some target"
    "storage_path_for_target (rt_config r) target = Some path" "rt_config r' = (rt_config r)\<lparr>destination := path\<rparr>"
    "mg_destination (rt_uploads r') = effective_directory (ev_build env) (ev_upload_dir env) path"
    "\<not> sl_occupied (mg_slot (rt_uploads r'))"
    "stored_at s' (rt_config_path r) = (Some (Regular n), map uchar (config_text (rt_config r')))"
  using assms(1)
proof (cases rule: storage_cases)
  case refused
  with assms(2) show thesis by simp
next
  case (changed target path r1 s1)
  note f = authorized_fields [OF changed(3)]
  obtain x m s2 where d: "upload_manager_set_destination (ev_build env) (ev_upload_dir env) (rt_uploads r1) path s1 = (x, m, s2)"
    by (metis prod_cases3)
  let ?new = "(rt_config r)\<lparr>destination := path\<rparr>"
  obtain saved s3 where w: "config_save_file (rt_config_path r) ?new s2 = (saved, s3)" by force
  obtain y m2 s4 where undo: "upload_manager_set_destination (ev_build env) (ev_upload_dir env) m (destination (rt_config r)) s3 = (y, m2, s4)"
    by (metis prod_cases3)
  have "if x = UPLOAD_OK \<and> saved then rt_config r' = ?new \<and> rt_uploads r' = m \<and> s' = s3 else rs_status rs' \<noteq> 200"
    using changed(4) f d w undo
    by (auto simp: change_storage_def Let_def reply_status split: if_splits bool.splits)
  then have out: "x = UPLOAD_OK" "saved" "rt_config r' = ?new" "rt_uploads r' = m" "s' = s3"
    using assms(2) by (simp_all split: if_splits)
  have own: "own_temporary (rt_config_path r) s2"
    using own_temporary_kept [OF assms(3) names_kept_trans] f set_destination_names [OF d] by blast
  then have "no_link (rt_config_path r @ ''.tmp'') s2" by (simp add: own_temporary_def)
  from config_save_steps(2) [OF w this own_temporary_inode [OF own] out(2)]
  obtain n where "stored_at s' (rt_config_path r) = (Some (Regular n), map uchar (config_text (rt_config r')))"
    using out by (auto simp: stored_at_def)
  with that changed(1,2) out set_destination_OK [OF d [unfolded out(1)]] show thesis by simp
qed

lemma storage_kept:
  assumes "dispatch_storage env r request rs s = (rs', r', s')" "rs_status rs' \<noteq> 200" "wf_config (rt_config r)"
  shows "rt_config r' = rt_config r"
  using assms(1)
proof (cases rule: storage_cases)
  case (changed target path r1 s1)
  note f = authorized_fields [OF changed(3)]
  have fits: "length (storage_text target path) < RESPONSE_STORAGE_BYTES"
    using storage_text_fits [OF changed(1)] target_of_config(1) [OF assms(3) changed(2)] by (simp add: safe_directory_def)
  obtain x m s2 where d: "upload_manager_set_destination (ev_build env) (ev_upload_dir env) (rt_uploads r1) path s1 = (x, m, s2)"
    by (metis prod_cases3)
  obtain saved s3 where w: "config_save_file (rt_config_path r) ((rt_config r)\<lparr>destination := path\<rparr>) s2 = (saved, s3)" by force
  obtain y m2 s4 where undo: "upload_manager_set_destination (ev_build env) (ev_upload_dir env) m (destination (rt_config r)) s3 = (y, m2, s4)"
    by (metis prod_cases3)
  show ?thesis
    using changed(4) f d w undo fits assms(2)
    by (auto simp: change_storage_def Let_def reply_status split: if_splits bool.splits)
qed

text \<open>C19: Changing the storage directory changes everything or nothing that counts.  If the reply is 200,
  the directory is that of the configured target named in the request, the manager stores into it (unless
  the host build's variable overrides it) and holds no upload, and the next load of the settings file, from
  any later system that stores the same bytes there, returns exactly the settings now in memory (the two
  legacy directories at their defaults).  With any other reply the settings in memory are the old ones.\<close>
theorem storage_change_persists:
  assumes "dispatch_storage env r request rs s = (rs', r', s')" "wf_config (rt_config r)"
    "\<forall>x \<in> set (storage_targets (rt_config r)). CHR ''|'' \<notin> set (st_path x)" "own_temporary (rt_config_path r) s"
    "stored_at u (rt_config_path r) = stored_at s' (rt_config_path r)" "benign (os_faults u)"
  shows "if rs_status rs' = 200
    then (\<exists>target path. parse_storage_target (request_body request) = Some target \<and>
        storage_path_for_target (rt_config r) target = Some path \<and>
        rt_config r' = (rt_config r)\<lparr>destination := path\<rparr> \<and> wf_config (rt_config r') \<and>
        mg_destination (rt_uploads r') = effective_directory (ev_build env) (ev_upload_dir env) path \<and>
        \<not> sl_occupied (mg_slot (rt_uploads r')) \<and>
        fst (config_load_file (rt_config_path r) u) = (CONFIG_LOAD_OK, Some ''ok'', forget_legacy (rt_config r')))
    else rt_config r' = rt_config r"
proof (cases "rs_status rs' = 200")
  case True
  obtain target path n where t: "parse_storage_target (request_body request) = Some target"
    "storage_path_for_target (rt_config r) target = Some path" "rt_config r' = (rt_config r)\<lparr>destination := path\<rparr>"
    "mg_destination (rt_uploads r') = effective_directory (ev_build env) (ev_upload_dir env) path"
    "\<not> sl_occupied (mg_slot (rt_uploads r'))"
    and disk: "stored_at s' (rt_config_path r) = (Some (Regular n), map uchar (config_text (rt_config r')))"
    by (rule storage_saved [OF assms(1) True assms(4)])
  have wf: "wf_config (rt_config r')" using target_of_config(3) [OF assms(2) t(2)] t(3) by simp
  have "fst (config_load_file (rt_config_path r) u) = parse_config False (config_text (rt_config r'))"
    using config_load_stored [OF trans [OF assms(5) disk] assms(6)] by (simp only: bytes_back)
  also have "\<dots> = (CONFIG_LOAD_OK, Some ''ok'', forget_legacy (rt_config r'))"
    by (rule read_config_text_ok [OF wf]) (simp add: t(3) assms(3))
  finally show ?thesis using True t wf by auto
next
  case False
  then show ?thesis using storage_kept [OF assms(1) False assms(2)] by simp
qed

text \<open>A port below 1024, which only the command line can set.\<close>

lemma low_port_text:
  assumes "port c < 1024"
  shows "\<exists>d. parse_config False (config_text c) = (CONFIG_LOAD_INVALID, Some ''port must be between 1024 and 65535'', d)"
proof -
  let ?e = config_set_defaults and ?m = "''port must be between 1024 and 65535''"
  have i: "index_of (config_keys ! 0) config_keys = 0" "length config_keys = 11"
    using config_keys_distinct by (auto intro!: index_of_nth)
  have "unat (port c) < 1024" using assms by (simp add: word_nat)
  then have "parse_u64 (dec_string (unat (port c))) 1024 65535 \<noteq> Some n" for n
    using numbers_plain(1) [of "port c"] by (simp add: plain_value_def parse_u64_iff)
  then have "parse_u64 (dec_string (unat (port c))) 1024 65535 = None" by (cases "parse_u64 (dec_string (unat (port c))) 1024 65535") auto
  then have set0: "set_value 0 (dec_string (unat (port c))) e = (Some ?m, e)" for e by (simp add: set_value_def)
  obtain d seen where "apply_value ?e (config_keys ! 0) (dec_string (unat (port c))) 0 = (Some ?m, d, seen)"
    unfolding apply_value_def Let_def i by (simp add: set0)
  moreover have "plain_key (config_keys ! 0)" using config_keys_plain config_keys_distinct by (simp add: list_all_length)
  ultimately have "config_lines False False (config_keys ! 0 @ CHR ''='' # dec_string (unat (port c)) @ newline # r) ?e 0 =
      (Reject (Some ?m), d, seen)" for r
    using read_line [OF _ numbers_plain(1)] by simp
  then have "config_lines False True (config_text c) config_set_defaults 0 = (Reject (Some ?m), d, seen)"
    unfolding config_text_lines read_header by simp
  then show ?thesis by (simp add: parse_config_def)
qed

text \<open>C20: The port given on the command line is written into the settings file by a change of the storage
  directory, and when it is below 1024 (which the command line allows, and the file does not) the next load
  refuses the whole file: the receiver no longer starts until the file is edited by hand.\<close>
theorem low_port_is_saved_and_refused:
  assumes "dispatch_storage env (router_set_port r p) request rs s = (rs', r', s')" "rs_status rs' = 200" "p < 1024"
    "own_temporary (rt_config_path r) s" "stored_at u (rt_config_path r) = stored_at s' (rt_config_path r)" "benign (os_faults u)"
  shows "\<exists>d. fst (config_load_file (rt_config_path r) u) = (CONFIG_LOAD_INVALID, Some ''port must be between 1024 and 65535'', d)"
proof -
  have path: "rt_config_path (router_set_port r p) = rt_config_path r" by (simp add: router_set_port_def)
  obtain target path n where c: "rt_config r' = (rt_config (router_set_port r p))\<lparr>destination := path\<rparr>"
    and disk: "stored_at s' (rt_config_path r) = (Some (Regular n), map uchar (config_text (rt_config r')))"
    using storage_saved [OF assms(1,2)] assms(4) unfolding path by metis
  have "port (rt_config r') < 1024" using c assms(3) by (simp add: router_set_port_def)
  from low_port_text [OF this] show ?thesis
    using config_load_stored [OF trans [OF assms(5) disk] assms(6)] by (simp only: bytes_back)
qed

section \<open>The PIN\<close>

lemma platform_notify_shows:
  assumes "platform_notify b content s = (True, t)" "length content < NOTIFY_MESSAGE_BYTES"
  shows "\<exists>notice. os_notices t = os_notices s @ [notice] \<and> sublist content notice"
proof -
  obtain f u where u: "next_fault s = (f, u)" by force
  have "os_notices u = os_notices s" using u by (auto simp: next_fault_def split: list.splits)
  moreover have "sublist content (''[notification] '' @ content @ [CHR 0x0A])" by (rule sublist_appendI)
  ultimately show ?thesis
    using assms u
    by (auto simp: platform_notify_def notify_host_def notify_ps5_def show_notice_def fails_def
        split: build.splits fault.splits)
qed

text \<open>C21: A granted challenge puts the new PIN on the screen and nowhere else: with the reply 201 exactly one
  notice has appeared, it contains the PIN of the challenge and the address of the client that asked, and the
  reply is a text of the challenge's identifier and lifetime, the same whatever the PIN is.\<close>
theorem pin_only_on_screen:
  assumes "dispatch_challenge env r request rs s = (rs', r', s')" "rs_status rs' = 201"
  shows "\<exists>c s1 notice. auth_create_challenge (rt_auth r) (Some (rq_client_address request)) s = (AUTH_OK, Some c, rt_auth r', s1) \<and>
    os_notices s' = os_notices s @ [notice] \<and>
    sublist (notification_text (cr_pin c) (rq_client_address request)) notice \<and>
    (\<forall>pin. rs' = reply rs 201 (challenge_text (c\<lparr>cr_pin := pin\<rparr>)))"
proof -
  obtain result c a s1 where cr: "auth_create_challenge (rt_auth r) (Some (rq_client_address request)) s = (result, c, a, s1)"
    by (metis prod_cases4)
  define n where "n = notification_text (cr_pin (the c)) (rq_client_address request)"
  obtain ok s2 where p: "platform_notify (ev_build env) n s1 = (ok, s2)" by force
  have ran: "result = AUTH_OK" "length n < 192" "ok" "r' = r\<lparr>rt_auth := a\<rparr>" "s' = s2"
      "rs' = reply rs 201 (challenge_text (the c))"
    using assms cr p unfolding n_def
    by (auto simp: dispatch_challenge_def Let_def reply_status split: if_splits bool.splits prod.splits)
  have some: "c = Some (the c)"
    using cr ran(1) by (auto simp: auth_create_challenge_def auth_create_challenge_at_def Let_def
        split: prod.splits if_splits option.splits bool.splits)
  have "os_notices s1 = os_notices s" using create_challenge_draws [OF cr] by (simp add: only_draws_def)
  moreover obtain notice where "os_notices s2 = os_notices s1 @ [notice]" "sublist n notice"
    using platform_notify_shows [of "ev_build env" n s1 s2] p ran(2,3) by (auto simp: NOTIFY_MESSAGE_BYTES_def)
  moreover have "challenge_text ((the c)\<lparr>cr_pin := pin\<rparr>) = challenge_text (the c)" for pin by (simp add: challenge_text_def)
  ultimately show ?thesis
    using cr ran some unfolding n_def
    by (intro exI [of _ "the c"] exI [of _ s1] exI [of _ notice]) simp
qed

section \<open>The status fits\<close>

lemma length_u64_text: "length (u64_text n) \<le> 20"
  using unat_u64_bound [of n] by (simp add: u64_text_def length_dec_string)

lemma length_bool_text: "length (bool_text b) \<le> 5"
  by (simp add: bool_text_def)

lemma length_timing_text: "length (timing_text m) \<le> 150"
  using length_u64_text [of "me_preparation_ms m"] length_u64_text [of "me_transfer_ms m"]
    length_u64_text [of "me_write_ms m"] length_bool_text [of "me_direct_io m"]
  by (simp add: timing_text_def)

lemma last_upload_fits: "\<exists>t. last_upload_text sn = Some t \<and> length t \<le> 200"
  using length_u64_text [of "sn_last_completed_size sn"] length_timing_text [of "sn_last_metrics sn"]
  by (simp add: last_upload_text_def Let_def)

lemma length_target_json:
  "wf_target t \<Longrightarrow> length (target_json first t) \<le> 1180"
  by (auto simp: wf_target_def storage_id_is_safe_def storage_label_is_safe_def safe_directory_def target_json_def
      config_constants split: if_splits)

lemma append_targets_fits:
  "list_all wf_target ts \<Longrightarrow> length used + 1180 * length ts + 2 \<le> STATUS_TARGETS_BYTES \<Longrightarrow>
   \<exists>t. append_targets used first ts = Some t \<and> length t \<le> length used + 1180 * length ts + 1"
proof (induction ts arbitrary: used first)
  case (Cons x ts)
  have l: "length (target_json first x) \<le> 1180" using Cons.prems(1) by (simp add: length_target_json)
  have "\<exists>t. append_targets (used @ target_json first x) False ts = Some t \<and>
      length t \<le> length (used @ target_json first x) + 1180 * length ts + 1"
    by (rule Cons.IH) (use Cons.prems l in simp_all)
  then obtain t where "append_targets (used @ target_json first x) False ts = Some t"
    "length t \<le> length (used @ target_json first x) + 1180 * length ts + 1" by blast
  with l Cons.prems(2) show ?case by simp
qed simp

lemma storage_targets_fit:
  assumes "wf_targets c"
  obtains t where "storage_targets_text c = Some t" "length t \<le> 9442"
proof -
  have ts: "list_all wf_target (storage_targets c)" "length (storage_targets c) \<le> 8"
    using assms by (simp_all add: wf_targets_def config_constants)
  obtain t where "append_targets ''['' True (storage_targets c) = Some t"
    "length t \<le> length ''['' + 1180 * length (storage_targets c) + 1"
    using append_targets_fits [OF ts(1), of "''[''" True] ts(2) by (auto simp: STATUS_TARGETS_BYTES_def)
  with ts(2) show thesis by (intro that [of t]) (simp_all add: storage_targets_text_def)
qed

lemma length_target_for_path:
  "wf_targets c \<Longrightarrow> length (storage_target_for_path c p) < CONFIG_STORAGE_ID_CAPACITY"
proof -
  assume wf: "wf_targets c"
  have id_ok: "length (st_id t) < CONFIG_STORAGE_ID_CAPACITY" if "t \<in> set (storage_targets c)" for t
    using wf that by (auto simp: wf_targets_def wf_target_def list_all_iff storage_id_is_safe_def split: if_splits)
  show ?thesis
  proof (cases "storage_by_path c p")
    case (Some t)
    then have "t \<in> set (storage_targets c)" by (auto simp: storage_by_path_def find_Some_iff)
    with Some id_ok show ?thesis by (simp add: storage_target_for_path_def)
  next
    case None
    then show ?thesis using id_ok [of "hd (storage_targets c)"]
      by (cases "storage_targets c") (simp_all add: storage_target_for_path_def config_constants)
  qed
qed

lemma status_json_fits:
  assumes "length name \<le> 510" "length targets \<le> 9442" "length last_upload \<le> 200" "wf_targets c" "length (destination c) \<le> 1023"
  shows "length (status_json c p sn name targets last_upload) < RESPONSE_STORAGE_BYTES"
proof -
  have "unat (max_files_per_session c) < 10 ^ 10" "unat p < 10 ^ 5"
    using unsigned_less [of "max_files_per_session c", where 'a = nat] unsigned_less [of p, where 'a = nat] by simp_all
  then have "length (dec_string (unat (max_files_per_session c))) \<le> 10" "length (dec_string (unat p)) \<le> 5"
    using length_dec_string by simp_all
  moreover have "length (dec_string UPLOAD_CHUNK_PARALLELISM) \<le> 1"
    by (rule length_dec_string) (simp_all add: UPLOAD_CHUNK_PARALLELISM_def)
  moreover have "length (auth_mode_name (auth_mode c)) \<le> 4" "length (language_name (language c)) \<le> 2" "length (transfer_state sn) \<le> 9"
    by (simp_all add: auth_mode_name_def language_name_def transfer_state_def)
  ultimately show ?thesis
    using assms(1-3,5) length_target_for_path [OF assms(4), of "destination c"] length_u64_text [of "max_file_bytes c"]
      length_u64_text [of "sn_received sn"] length_u64_text [of "sn_expected sn"] length_u64_text [of UPLOAD_CHUNK_BYTES]
      length_bool_text [of "sn_active sn"]
    by (simp add: status_json_def router_constants config_constants)
qed

text \<open>C22: The status can always be shown: whatever well-formed settings are loaded, with all eight targets at
  their greatest lengths, and whatever the manager is doing, every piece fits its buffer, the reply is 200,
  and its body is the complete text with the name escaped.\<close>
theorem status_always_fits:
  assumes "wf_settings (rt_config r)" "length (sl_final_name (mg_slot (rt_uploads r))) \<le> SAFE_PATH_NAME_BYTES"
  shows "\<exists>rs' r' s' sn name targets last_upload. dispatch_status r rs s = (rs', r', s') \<and> rs_status rs' = 200 \<and>
    storage_targets_text (rt_config r) = Some targets \<and> last_upload_text sn = Some last_upload \<and>
    json_escape_filename (sn_name sn) (SAFE_PATH_NAME_BYTES * 2 + 1) = Some name \<and>
    rs_body rs' = map uchar (status_json (rt_config r) (rt_fast_upload_port r) sn name targets last_upload)"
proof -
  obtain m s1 where reap: "reap_now (rt_uploads r) s = (m, s1)" by force
  define sn where "sn = fst (upload_snapshot_of (rt_uploads r) s)"
  have snap: "upload_snapshot_of (rt_uploads r) s = (sn, m, s1)"
    using reap by (simp add: sn_def upload_snapshot_of_def)
  have "mg_slot m = mg_slot (rt_uploads r) \<or> mg_slot m = empty_slot"
    using reap by (rule reap_now_cases) (auto simp: cleared_def)
  then have "length (sn_name sn) \<le> SAFE_PATH_NAME_BYTES"
    using assms(2) reap by (auto simp: sn_def upload_snapshot_of_def empty_slot_def)
  then obtain name where name: "json_escape_filename (sn_name sn) (SAFE_PATH_NAME_BYTES * 2 + 1) = Some name" "length name \<le> 510"
    using escape_filename_fits [of "[]" "sn_name sn" "SAFE_PATH_NAME_BYTES * 2 + 1"]
    by (auto simp: json_escape_filename_def SAFE_PATH_NAME_BYTES_def)
  have wf: "wf_targets (rt_config r)" "length (destination (rt_config r)) \<le> 1023"
    using assms(1) by (auto simp: wf_settings_def wf_places_def safe_directory_def config_constants)
  obtain targets where targets: "storage_targets_text (rt_config r) = Some targets" "length targets \<le> 9442"
    using storage_targets_fit [OF wf(1)] .
  obtain last_upload where last_upload: "last_upload_text sn = Some last_upload" "length last_upload \<le> 200"
    using last_upload_fits by blast
  note fits = status_json_fits [OF name(2) targets(2) last_upload(2) wf, of "rt_fast_upload_port r" sn]
  have out: "dispatch_status r rs s = (json_response rs 200
      (status_json (rt_config r) (rt_fast_upload_port r) sn name targets last_upload), r\<lparr>rt_uploads := m\<rparr>, s1)"
    using targets snap name last_upload fits by (simp add: dispatch_status_def reply_def)
  show ?thesis
    by (rule exI [of _ "json_response rs 200 (status_json (rt_config r) (rt_fast_upload_port r) sn name targets last_upload)"],
        rule exI [of _ "r\<lparr>rt_uploads := m\<rparr>"], rule exI [of _ s1], rule exI [of _ sn], rule exI [of _ name],
        rule exI [of _ targets], rule exI [of _ last_upload])
      (use out targets name last_upload in \<open>simp add: json_response_def\<close>)
qed

section \<open>Examples\<close>

text \<open>A console with the default settings, its idle receiver, and a request from its own page.\<close>

definition example_env :: environment where
  "example_env = \<lparr>ev_build = PS5, ev_upload_dir = None, ev_data_dir = None, ev_lease = None, ev_strerror = (\<lambda>_. None),
     ev_asset = (\<lambda>_. None)\<rparr>"

definition example_router :: "config_auth_mode \<Rightarrow> router" where
  "example_router mode = \<lparr>rt_config = config_set_defaults, rt_auth_mode = mode, rt_fast_upload_port = 53318,
     rt_config_path = ''/data/c'', rt_auth = the (auth_manager_create 120 900),
     rt_uploads = idle_manager\<rparr>"

definition example_request :: "string \<Rightarrow> byte list \<Rightarrow> router_request" where
  "example_request path body =
     \<lparr>rq_method = ''POST'', rq_path = path, rq_body = Some body, rq_body_size = length body, rq_client_address = ''c'',
      rq_host = Some ''ps5'', rq_origin = Some ''http://ps5'', rq_content_type = Some ''application/json'',
      rq_authorization = None, rq_content_range = None\<rparr>"

lemma example_origin: "same_origin (example_request path body)"
proof -
  have "valid_host (Some ''ps5'') \<and> length (''http://'' @ ''ps5'') < 263" by code_simp
  then show ?thesis by (simp add: same_origin_def example_request_def)
qed

text \<open>Without a session nothing happens when a PIN is required.\<close>

theorem only_allowed_requests_act_witness:
  "\<not> allowed (example_router CONFIG_AUTH_PIN) (example_request ''/api/v1/storage'' small_body) (mounted []) \<and>
   (\<exists>rs r' s'. router_dispatch example_env (example_router CONFIG_AUTH_PIN) (example_request ''/api/v1/storage'' small_body) (mounted []) =
      Some (rs, r', s') \<and> rs_status rs = 401 \<and> untouched (example_router CONFIG_AUTH_PIN) (mounted []) r' s')"
proof -
  let ?r = "example_router CONFIG_AUTH_PIN" and ?q = "example_request ''/api/v1/storage'' small_body"
  have "\<not> fst (authorized ?r ?q (mounted []))" by code_simp
  then obtain r1 s1 where a: "authorized ?r ?q (mounted []) = (False, r1, s1)" by (metis (full_types) prod_cases3 fst_conv)
  then have refused: "\<not> allowed ?r ?q (mounted [])" by (simp add: allowed_iff)
  have q: "rq_path ?q = ''/api/v1/storage''" "rq_method ?q = ''POST''" by (simp_all add: example_request_def)
  have "router_dispatch example_env ?r ?q (mounted []) = Some (unauthorized no_response, r1, s1)"
    using a example_origin [of "''/api/v1/storage''" small_body]
    by (simp add: router_dispatch_def q dispatch_storage_def router_constants)
  moreover have "rs_status (unauthorized no_response) = 401" by (simp add: set_json_error_def json_response_def)
  ultimately show ?thesis using only_allowed_requests_act [OF refused, of example_env] refused q by auto
qed

definition storage_body :: "byte list" where
  \<open>storage_body = map uchar ''{"target":"internal"}''\<close>

definition example_disk :: os where
  "example_disk = mounted [''/data'', ''/data/ps5localsend'', ''/data/ps5localsend/inbox'']"

definition example_move :: "upload_result \<times> upload_manager \<times> os" where
  "example_move = upload_manager_set_destination PS5 None idle_manager ''/data/ps5localsend/inbox'' example_disk"

lemma example_moved:
  "fst example_move = UPLOAD_OK" "os_faults (snd (snd example_move)) = []"
  "os_names (snd (snd example_move)) ''/data/c'' = None" "os_names (snd (snd example_move)) ''/data/c.tmp'' = None"
  "parent_exists (snd (snd example_move)) ''/data/c''" "parent_exists (snd (snd example_move)) ''/data/c.tmp''"
  by code_simp+

lemma example_change:
  obtains m s t where "os_faults t = []"
    "change_storage example_env (r\<lparr>rt_config_path := ''/data/c'', rt_uploads := idle_manager\<rparr>) ''internal''
       ''/data/ps5localsend/inbox'' no_response example_disk =
     (reply no_response 200 (storage_text ''internal'' ''/data/ps5localsend/inbox''),
      r\<lparr>rt_config_path := ''/data/c'', rt_uploads := m, rt_config := (rt_config r)\<lparr>destination := ''/data/ps5localsend/inbox''\<rparr>\<rparr>, t)"
proof -
  obtain m s where move: "upload_manager_set_destination PS5 None idle_manager ''/data/ps5localsend/inbox'' example_disk = (UPLOAD_OK, m, s)"
    "s = snd (snd example_move)"
    using example_moved(1) by (cases example_move) (simp add: example_move_def)
  obtain t where "config_save_file ''/data/c'' ((rt_config r)\<lparr>destination := ''/data/ps5localsend/inbox''\<rparr>) s = (True, t)" "os_faults t = []"
    using config_save_faultless [of s "''/data/c''"] example_moved move(2) by auto
  with move(1) show thesis
    by (intro that [of t m]) (simp_all add: change_storage_def Let_def example_env_def)
qed

lemma example_storage:
  assumes "storage_targets c = storage_targets config_set_defaults"
  obtains rs r' t where "os_faults t = []" "rs_status rs = 200" "rt_config r' = c\<lparr>destination := ''/data/ps5localsend/inbox''\<rparr>"
    "dispatch_storage example_env ((example_router CONFIG_AUTH_NONE)\<lparr>rt_config := c\<rparr>) (example_request ''/api/v1/storage'' storage_body)
       no_response example_disk = (rs, r', t)"
proof -
  let ?r = "(example_router CONFIG_AUTH_NONE)\<lparr>rt_config := c\<rparr>"
  have parsed: "parse_storage_target (Some storage_body) = Some ''internal''" "length storage_body \<le> ROUTER_MAX_METADATA_BODY_BYTES"
    "is_json_content_type (Some ''application/json'')" "length (storage_text ''internal'' ''/data/ps5localsend/inbox'') < RESPONSE_STORAGE_BYTES"
    by code_simp+
  have target: "storage_path_for_target c ''internal'' = Some ''/data/ps5localsend/inbox''"
    using assms by (simp add: storage_path_for_target_def storage_by_id_def config_set_defaults_def)
  have same: "?r\<lparr>rt_config_path := ''/data/c'', rt_uploads := idle_manager\<rparr> = ?r" by (simp add: example_router_def)
  obtain m t where t: "os_faults t = []" "change_storage example_env ?r ''internal'' ''/data/ps5localsend/inbox'' no_response example_disk =
     (reply no_response 200 (storage_text ''internal'' ''/data/ps5localsend/inbox''),
      ?r\<lparr>rt_config_path := ''/data/c'', rt_uploads := m, rt_config := (rt_config ?r)\<lparr>destination := ''/data/ps5localsend/inbox''\<rparr>\<rparr>, t)"
    using example_change [of ?r] unfolding same by metis
  have mode: "rt_auth_mode ?r = CONFIG_AUTH_NONE" "rt_config ?r = c" by (simp_all add: example_router_def)
  have req: "rq_method (example_request p b) = ''POST''" "request_body (example_request p b) = Some b"
    "rq_body_size (example_request p b) = length b" "rq_content_type (example_request p b) = Some ''application/json''" for p b
    by (simp_all add: example_request_def request_body_def)
  have "dispatch_storage example_env ?r (example_request ''/api/v1/storage'' storage_body) no_response example_disk =
      change_storage example_env ?r ''internal'' ''/data/ps5localsend/inbox'' no_response example_disk"
    using parsed target by (simp add: dispatch_storage_def authorized_def mode req example_origin not_less [symmetric] leD)
  with t show thesis using parsed(4) mode(2)
    by (intro that [OF t(1), of "reply no_response 200 (storage_text ''internal'' ''/data/ps5localsend/inbox'')"])
      (simp_all add: reply_def json_response_def)
qed

lemma example_temporary: "own_temporary ''/data/c'' example_disk"
  by (simp add: own_temporary_def no_link_def example_disk_def mounted_def)

lemma defaults_wf_config: "wf_config config_set_defaults"
  using defaults_wf by (simp add: wf_config_def) (simp add: config_set_defaults_def)

theorem storage_change_persists_witness:
  "\<exists>rs r' t. dispatch_storage example_env (example_router CONFIG_AUTH_NONE) (example_request ''/api/v1/storage'' storage_body)
      no_response example_disk = (rs, r', t) \<and> rs_status rs = 200 \<and>
    fst (config_load_file ''/data/c'' t) = (CONFIG_LOAD_OK, Some ''ok'', forget_legacy (rt_config r'))"
proof -
  have r: "(example_router CONFIG_AUTH_NONE)\<lparr>rt_config := config_set_defaults\<rparr> = example_router CONFIG_AUTH_NONE"
    "rt_config (example_router CONFIG_AUTH_NONE) = config_set_defaults" "rt_config_path (example_router CONFIG_AUTH_NONE) = ''/data/c''"
    by (simp_all add: example_router_def)
  obtain rs r' t where t: "os_faults t = []" "rs_status rs = 200"
    "dispatch_storage example_env (example_router CONFIG_AUTH_NONE) (example_request ''/api/v1/storage'' storage_body) no_response
       example_disk = (rs, r', t)"
    using example_storage [OF refl] unfolding r by metis
  have "\<forall>x \<in> set (storage_targets config_set_defaults). CHR ''|'' \<notin> set (st_path x)" by (simp add: config_set_defaults_def)
  from storage_change_persists [OF t(3), unfolded r, OF defaults_wf_config this example_temporary refl] t(1,2)
  have "fst (config_load_file ''/data/c'' t) = (CONFIG_LOAD_OK, Some ''ok'', forget_legacy (rt_config r'))"
    by (auto simp: benign_def)
  with t show ?thesis by blast
qed

theorem low_port_is_saved_and_refused_witness:
  "\<exists>rs r' t d. dispatch_storage example_env (router_set_port (example_router CONFIG_AUTH_NONE) 80)
      (example_request ''/api/v1/storage'' storage_body) no_response example_disk = (rs, r', t) \<and> rs_status rs = 200 \<and>
    fst (config_load_file ''/data/c'' t) = (CONFIG_LOAD_INVALID, Some ''port must be between 1024 and 65535'', d)"
proof -
  have r: "router_set_port (example_router CONFIG_AUTH_NONE) 80 = (example_router CONFIG_AUTH_NONE)\<lparr>rt_config := config_set_defaults\<lparr>port := 80\<rparr>\<rparr>"
    "rt_config_path (example_router CONFIG_AUTH_NONE) = ''/data/c''"
    by (simp_all add: router_set_port_def example_router_def)
  obtain rs r' t where t: "os_faults t = []" "rs_status rs = 200"
    "dispatch_storage example_env (router_set_port (example_router CONFIG_AUTH_NONE) 80) (example_request ''/api/v1/storage'' storage_body)
       no_response example_disk = (rs, r', t)"
    unfolding r by (rule example_storage [of "config_set_defaults\<lparr>port := 80\<rparr>"]) simp_all
  have "(80 :: u16) < 1024" by simp
  from low_port_is_saved_and_refused [OF t(3,2) this, unfolded r, OF example_temporary refl] t show ?thesis
    by (auto simp: benign_def)
qed

text \<open>The random bytes of an identifier and of the number from which the PIN is made.\<close>

definition example_draws :: os where
  "example_draws = (mounted [])\<lparr>os_random := [Some (replicate 16 0xab), Some [1, 2, 3, 4]]\<rparr>"

theorem pin_only_on_screen_witness:
  "\<exists>rs r' t (c :: auth_challenge_result) notice. dispatch_challenge example_env (example_router CONFIG_AUTH_PIN)
      ((example_request ''/api/v1/auth/challenge'' [])\<lparr>rq_body := None\<rparr>) no_response example_draws = (rs, r', t) \<and> rs_status rs = 201 \<and>
    os_notices t = [notice] \<and> sublist (notification_text (cr_pin c) ''c'') notice"
proof -
  let ?q = "(example_request ''/api/v1/auth/challenge'' [])\<lparr>rq_body := None\<rparr>"
  obtain rs r' t where d: "dispatch_challenge example_env (example_router CONFIG_AUTH_PIN) ?q no_response example_draws = (rs, r', t)"
    by (metis prod_cases3)
  have "rs_status (fst (dispatch_challenge example_env (example_router CONFIG_AUTH_PIN) ?q no_response example_draws)) = 201"
    by code_simp
  with d have s: "rs_status rs = 201" by simp
  have "rq_client_address ?q = ''c''" "os_notices example_draws = []" by (simp_all add: example_request_def example_draws_def mounted_def)
  moreover obtain c :: auth_challenge_result and notice where "os_notices t = os_notices example_draws @ [notice]"
    "sublist (notification_text (cr_pin c) (rq_client_address ?q)) notice"
    using pin_only_on_screen [OF d s] by (elim exE conjE) (rule that)
  ultimately have "os_notices t = [notice]" "sublist (notification_text (cr_pin c) ''c'') notice" by simp_all
  with d s show ?thesis by blast
qed

theorem status_always_fits_witness:
  "\<exists>rs r' t. dispatch_status (example_router CONFIG_AUTH_PIN) no_response example_disk = (rs, r', t) \<and> rs_status rs = 200"
proof -
  have r: "rt_config (example_router CONFIG_AUTH_PIN) = config_set_defaults" "rt_uploads (example_router CONFIG_AUTH_PIN) = idle_manager"
    by (simp_all add: example_router_def)
  have "length (sl_final_name (mg_slot idle_manager)) \<le> SAFE_PATH_NAME_BYTES" by (simp add: idle_manager_def empty_slot_def)
  with status_always_fits [of "example_router CONFIG_AUTH_PIN" no_response example_disk, unfolded r] defaults_wf_config show ?thesis
    by (auto simp: wf_config_def)
qed

end
