(* ===== verification/RouterRuns.thy ===== *)
theory RouterRuns
  imports RouterProps UploadRuns
begin

text \<open>
  A whole upload as its client sees it: the request that prepares it, the stream that the router begins,
  writes and finishes, and the requests of others in between.
\<close>

section \<open>The prepared upload\<close>

lemma upload_error_status [simp]:
  "rs_status (set_upload_error env rs x e) =
     (case x of UPLOAD_INVALID \<Rightarrow> 400 | UPLOAD_NOT_FOUND \<Rightarrow> 404 | UPLOAD_FORBIDDEN \<Rightarrow> 403 | UPLOAD_BUSY \<Rightarrow> 409
      | UPLOAD_TOO_LARGE \<Rightarrow> 413 | UPLOAD_STORAGE_FULL \<Rightarrow> 507 | UPLOAD_SIZE_MISMATCH \<Rightarrow> 400 | UPLOAD_HASH_MISMATCH \<Rightarrow> 422
      | UPLOAD_LIMIT_REACHED \<Rightarrow> 429 | UPLOAD_BACKPRESSURE \<Rightarrow> 429 | UPLOAD_IO_ERROR \<Rightarrow> 500 | UPLOAD_OK \<Rightarrow> 500)"
  by (simp add: set_upload_error_def split: upload_result.splits)

lemma upload_error_not_created: "rs_status (set_upload_error env rs x e) \<noteq> 201"
  by (simp split: upload_result.splits)

lemma cancel_prepared_status:
  "cancel_prepared r request i rs s = Some (rs', r', s') \<Longrightarrow> rs_status rs' = 500"
  by (auto simp: cancel_prepared_def split: option.splits)

lemma prepare_created:
  assumes "dispatch_upload_prepare env r request rs s = Some (rs', r', s')" "rs_status rs' = 201"
  obtains r1 s1 p where "authorized r request s = (True, r1, s1)"
    "upload_prepare (ev_build env) (rt_uploads r1) (rq_client_address request) (request_authorization r1 request)
       (request_body request) s1 = (UPLOAD_OK, Some p, rt_uploads r', s')"
    "\<exists>name. json_escape_string (pr_final_name p) RESPONSE_STORAGE_BYTES = Some name \<and>
       rs_body rs' = map uchar (prepared_text name p (rt_fast_upload_port r))"
proof -
  obtain ok r1 s1 where a: "authorized r request s = (ok, r1, s1)" by (metis prod_cases3)
  obtain x p m s2 where u: "upload_prepare (ev_build env) (rt_uploads r1) (rq_client_address request)
      (request_authorization r1 request) (request_body request) s1 = (x, p, m, s2)" by (metis prod_cases4)
  have port: "rt_fast_upload_port r1 = rt_fast_upload_port r"
    using authorized_untouched [OF a] by (auto simp: untouched_def)
  have body: "\<exists>name. json_escape_string (pr_final_name (the p)) RESPONSE_STORAGE_BYTES = Some name \<and>
      rs_body rs' = map uchar (prepared_text name (the p) (rt_fast_upload_port r))"
    and out: "ok" "x = UPLOAD_OK" "rt_uploads r' = m" "s' = s2"
    using assms a u port upload_error_not_created cancel_prepared_status
    by (auto simp: dispatch_upload_prepare_def Let_def json_response_def split: if_splits bool.splits option.splits)
  have "p = Some (the p)"
    using u out(2) by (auto simp: upload_prepare_def Let_def split: if_splits option.splits prod.splits)
  with a u out body show thesis by (intro that [of r1 s1 "the p"]) simp_all
qed

lemma prepared_id: "upload_prepare b m client authorization json s = (UPLOAD_OK, Some p, m', s') \<Longrightarrow>
    sl_id (mg_slot m') = pr_upload_id p"
  by (auto simp: upload_prepare_def Let_def split: if_splits option.splits prod.splits)

lemma prepared_store: "prepared d n m s \<Longrightarrow> same_store s t \<Longrightarrow> prepared d n m t"
  by (simp add: prepared_def stored_def same_store_def)

lemma upload_begin_owner:
  assumes "upload_begin m i client authorization amount s = (UPLOAD_OK, m', s')"
  shows "i = sl_id (mg_slot m)"
proof -
  obtain m1 s1 where reap: "reap_now m s = (m1, s1)" by force
  have "owns m1 i" using assms reap by (auto simp: upload_begin_def split: if_splits)
  with reap_now_owns [OF reap this] show ?thesis by (simp add: owns_def)
qed

section \<open>Runs\<close>

text \<open>
  What may happen beside an upload: a request of anybody that is refused, since it does not come from the
  server's own page or holds no session, and the allocation of a little memory.  The status, which anybody
  may ask for, is left out since it clears an upload whose lease has run out.
\<close>

inductive refused_step :: "environment \<Rightarrow> router \<times> os \<Rightarrow> router \<times> os \<Rightarrow> bool" for env where
  refused_request: "\<not> allowed r request s \<Longrightarrow> rq_path request \<noteq> ''/api/v1/status'' \<Longrightarrow>
   router_dispatch env r request s = Some (rs, r', s') \<Longrightarrow> refused_step env (r, s) (r', s')"
| refused_memory: "allocate s = (ok, s') \<Longrightarrow> refused_step env (r, s) (r, s')"

inductive_simps refused_step_simps: "refused_step env (r, s) (r', s')"

lemma refused_step_untouched: "refused_step env (r, s) (r', s') \<Longrightarrow> untouched r s r' s'"
  using dispatch_guarded allocate_store untouchedI [of s s' r "rt_auth r"] unfolding refused_step_simps by fastforce

text \<open>
  \<open>http_stream env i r0 s0 data r s\<close>: the stream of the upload \<open>i\<close> has begun some time after \<open>r0\<close> and \<open>s0\<close>
  and has brought \<open>data\<close>, in calls that succeeded; in between the writer works and requests are refused.
\<close>

inductive http_stream :: "environment \<Rightarrow> string \<Rightarrow> router \<Rightarrow> os \<Rightarrow> byte list \<Rightarrow> router \<Rightarrow> os \<Rightarrow> bool"
  for env i r0 s0 where
  http_begin: "(refused_step env)\<^sup>*\<^sup>* (r0, s0) (r, s) \<Longrightarrow>
    router_upload_stream_begin_ex env r request len s = Some (Inr (Whole_body i), r', s') \<Longrightarrow>
    http_stream env i r0 s0 [] r' s'"
| http_write: "http_stream env i r0 s0 data r s \<Longrightarrow> length x < 2 ^ 64 \<Longrightarrow>
    router_upload_stream_write env r i x s = Some (Inr (), r', s') \<Longrightarrow> http_stream env i r0 s0 (data @ x) r' s'"
| http_take: "http_stream env i r0 s0 data r s \<Longrightarrow> \<not> wt_active (mg_writer (rt_uploads r)) \<Longrightarrow> writer_ready (rt_uploads r) \<Longrightarrow>
    http_stream env i r0 s0 data (r\<lparr>rt_uploads := writer_take (rt_uploads r)\<rparr>) s"
| http_done: "http_stream env i r0 s0 data r s \<Longrightarrow> wt_active (mg_writer (rt_uploads r)) \<Longrightarrow>
    writer_done (rt_uploads r) s = (m, s') \<Longrightarrow> http_stream env i r0 s0 data (r\<lparr>rt_uploads := m\<rparr>) s'"
| http_refused: "http_stream env i r0 s0 data r s \<Longrightarrow> refused_step env (r, s) (r', s') \<Longrightarrow> http_stream env i r0 s0 data r' s'"

lemma refused_steps_kept:
  assumes "(refused_step env)\<^sup>*\<^sup>* (r0, s0) (r, s)"
  shows "same_store s0 s \<and> rt_uploads r = rt_uploads r0"
  using assms
proof (induction rule: rtranclp_induct2)
  case (step r s r' s')
  from refused_step_untouched [OF step(2)] step(3) show ?case
    by (auto simp: untouched_def intro: same_store_trans)
qed simp

lemma begin_whole_ok:
  assumes "router_upload_stream_begin_ex env r request len s = Some (Inr (Whole_body i), r', s')"
  obtains s1 client authorization amount where "same_store s s1"
    "upload_begin (rt_uploads r) i client authorization amount s1 = (UPLOAD_OK, rt_uploads r', s')" "len = Some amount"
proof -
  obtain ok r1 s1 where a: "authorized r request s = (ok, r1, s1)" by (metis prod_cases3)
  have ok: "ok" using assms a by (cases ok) (auto simp: router_upload_stream_begin_ex_def split: option.splits if_splits)
  have "begin_whole env r1 request len i s1 = Some (Inr (Whole_body i), r', s')"
    using assms a ok unfolding router_upload_stream_begin_ex_def
    by (auto simp: begin_chunk_def begin_whole_def cancel_stream_def Let_def split: option.splits if_splits prod.splits)
  then obtain amount where "upload_begin (rt_uploads r1) i (rq_client_address request) (request_authorization r1 request) amount s1 =
      (UPLOAD_OK, rt_uploads r', s')" "len = Some amount"
    by (auto simp: begin_whole_def cancel_stream_def Let_def split: option.splits if_splits prod.splits)
  with authorized_untouched [OF a] show thesis by (auto simp: untouched_def intro: that)
qed

lemma stream_write_ok:
  "router_upload_stream_write env r i x s = Some (Inr (), r', s') \<Longrightarrow>
   upload_write (rt_uploads r) i x s = Some (UPLOAD_OK, rt_uploads r', s')"
  by (auto simp: router_upload_stream_write_def or_abort_def split: option.splits prod.splits if_splits)

lemma http_stream_inv:
  assumes "http_stream env i r0 s0 data r s" "prepared d n (rt_uploads r0) s0"
  shows "streaming d n data (rt_uploads r) s \<and> buffer_room (rt_uploads r) \<and> same_terms (rt_uploads r0) (rt_uploads r) \<and>
    only_file n s0 s \<and> i = sl_id (mg_slot (rt_uploads r0))"
  using assms(1)
proof (induction rule: http_stream.induct)
  case (http_begin r s request len r' s')
  from refused_steps_kept [OF http_begin(1)] have kept: "same_store s0 s" "rt_uploads r = rt_uploads r0" by simp_all
  from begin_whole_ok [OF http_begin(2)] obtain s1 client authorization amount where b: "same_store s s1"
    "upload_begin (rt_uploads r0) i client authorization amount s1 = (UPLOAD_OK, rt_uploads r', s')"
    unfolding kept(2) by metis
  have store: "same_store s0 s1" using kept(1) b(1) by (rule same_store_trans)
  from upload_begin_ok [OF b(2) prepared_store [OF assms(2) store]] store upload_begin_owner [OF b(2)]
  show ?case by (auto simp: only_file_def same_store_def)
next
  case (http_write data r s x r' s')
  note w = stream_write_ok [OF http_write(3)]
  from http_write have inv: "streaming d n data (rt_uploads r) s" "buffer_room (rt_uploads r)" by simp_all
  from upload_write_streaming [OF inv http_write(2), of i] w http_write(4) show ?case
    by (auto intro: same_terms_trans only_file_trans)
next
  case (http_take data r s)
  with writer_take_queue [of d n data "rt_uploads r" s] show ?case by (simp add: buffer_room_def same_terms_def)
next
  case (http_done data r s m s')
  then have inv: "streaming d n data (rt_uploads r) s" by simp
  from http_done streaming_writer_done [OF inv http_done(2,3)] show ?case
    by (auto simp: buffer_room_def same_terms_def intro: only_file_trans)
next
  case (http_refused data r s r' s')
  from refused_step_untouched [OF http_refused(2)] have kept: "same_store s s'" "rt_uploads r' = rt_uploads r"
    by (auto simp: untouched_def)
  with http_refused streaming_store [of d n data "rt_uploads r" s s'] show ?case
    by (auto simp: only_file_def same_store_def)
qed

section \<open>The whole upload\<close>

lemma http_stream_owner: "http_stream env i r0 s0 data r s \<Longrightarrow> i = sl_id (mg_slot (rt_uploads r0))"
proof (induction rule: http_stream.induct)
  case (http_begin r s request len r' s')
  from begin_whole_ok [OF http_begin(2)] refused_steps_kept [OF http_begin(1)] upload_begin_owner show ?case by metis
qed


lemma finish_reply:
  assumes "router_upload_stream_finish env r i s = Some (rs, r', s')"
  obtains x digest where "upload_finish_with_metrics (ev_build env) (rt_uploads r) i s = Some (x, digest, rt_uploads r', s')"
    "rs_status rs = 201 \<Longrightarrow> x = UPLOAD_OK \<and> rs_body rs = map uchar (completed_text digest (mg_last_metrics (rt_uploads r')))"
    "x = UPLOAD_OK \<Longrightarrow> length digest = 64 \<Longrightarrow> rs_status rs = 201"
proof -
  obtain x digest m t where f: "upload_finish_with_metrics (ev_build env) (rt_uploads r) i s = Some (x, digest, m, t)"
    using assms by (cases "upload_finish_with_metrics (ev_build env) (rt_uploads r) i s")
      (auto simp: router_upload_stream_finish_def)
  show thesis
  proof (cases "x = UPLOAD_OK")
    case True
    with assms f have "rs = set_upload_completed_response no_response digest (mg_last_metrics m)" "rt_uploads r' = m" "s' = t"
      by (auto simp: router_upload_stream_finish_def)
    with f True length_timing_text [of "mg_last_metrics m"] show thesis
      by (intro that [of x digest])
        (auto simp: set_upload_completed_response_def reply_def json_response_def set_json_error_def completed_text_def
          router_constants split: if_splits)
  next
    case False
    with assms f have "rs = set_upload_error env no_response x (os_errno t)" "rt_uploads r' = m" "s' = t"
      by (auto simp: router_upload_stream_finish_def)
    with f False show thesis using upload_error_not_created by (intro that [of x digest]) auto
  qed
qed

lemma dispatch_uploads_path:
  assumes "router_dispatch env r request s = Some (rs, r', s')" "rq_path request = ''/api/v1/uploads''" "rs_status rs = 201"
  shows "dispatch_upload_prepare env r request no_response s = Some (rs, r', s')"
  using assms by (auto simp: router_dispatch_def Let_def set_json_error_def json_response_def split: if_splits)

text \<open>Of the two answers and the stream between them, at the router.\<close>

lemma http_stored:
  assumes "free_manager (rt_uploads r0)" "rq_path request = ''/api/v1/uploads''"
    "router_dispatch env r0 request s0 = Some (rs1, r1, s1)" "rs_status rs1 = 201"
    "os_names s0 (part_path_text (mg_destination (rt_uploads r0)) i) = None"
    "http_stream env i r1 s1 data r2 s2" "router_upload_stream_finish env r2 i s2 = Some (rs3, r3, s3)"
  shows "\<exists>p name final n. rs_body rs1 = map uchar (prepared_text name p (rt_fast_upload_port r0)) \<and> pr_upload_id p = i \<and>
    json_escape_string (pr_final_name p) RESPONSE_STORAGE_BYTES = Some name \<and>
    safe_path_join (mg_destination (rt_uploads r0)) (pr_final_name p) SAFE_PATH_FULL_BYTES = Some final \<and>
    (\<forall>k. k \<noteq> n \<longrightarrow> os_files s3 k = os_files s0 k) \<and>
    (\<forall>q. q \<noteq> part_path_text (mg_destination (rt_uploads r0)) i \<longrightarrow>
      rs_status rs3 = 201 \<and> q = final \<or> os_names s3 q = os_names s0 q) \<and>
    (rs_status rs3 = 201 \<longrightarrow> length data = unat (pr_size p) \<and> os_names s0 final = None \<and>
      os_names s3 final = Some (Regular n) \<and> inode_bytes (os_files s3 n) = data \<and>
      (\<exists>metrics. rs_body rs3 = map uchar (completed_text (sha256_hex (sha256_spec data)) metrics)))"
proof -
  obtain ra sa p where a: "authorized r0 request s0 = (True, ra, sa)"
    and u: "upload_prepare (ev_build env) (rt_uploads ra) (rq_client_address request) (request_authorization ra request)
       (request_body request) sa = (UPLOAD_OK, Some p, rt_uploads r1, s1)"
    and body: "\<exists>name. json_escape_string (pr_final_name p) RESPONSE_STORAGE_BYTES = Some name \<and>
       rs_body rs1 = map uchar (prepared_text name p (rt_fast_upload_port r0))"
    using prepare_created [OF dispatch_uploads_path [OF assms(3,2,4)] assms(4)] by metis
  have start: "same_store s0 sa" "rt_uploads ra = rt_uploads r0" using authorized_untouched [OF a] by (auto simp: untouched_def)
  have i: "i = pr_upload_id p"
    using http_stream_owner [OF assms(6)] prepared_id [OF u] by simp
  have "os_names sa (part_path_text (mg_destination (rt_uploads r0)) (pr_upload_id p)) = None"
    using assms(5) start(1) i by (simp add: same_store_def)
  then obtain d n where prep: "prepared d n (rt_uploads r1) s1" "sl_expected (mg_slot (rt_uploads r1)) = pr_size p"
    "safe_path_join (mg_destination (rt_uploads r0)) (pr_final_name p) SAFE_PATH_FULL_BYTES =
       Some (sl_final_path (mg_slot (rt_uploads r1)))"
    "sl_part_path (mg_slot (rt_uploads r1)) = part_path_text (mg_destination (rt_uploads r0)) (pr_upload_id p)"
    "os_names s1 = (os_names sa)(sl_part_path (mg_slot (rt_uploads r1)) \<mapsto> Regular n)"
    "\<forall>k. k \<noteq> n \<longrightarrow> os_files s1 k = os_files sa k"
    using upload_prepare_ok [OF u [unfolded start(2)] assms(1)] by metis
  from http_stream_inv [OF assms(6) prep(1)] have run: "streaming d n data (rt_uploads r2) s2" "buffer_room (rt_uploads r2)"
    "same_terms (rt_uploads r1) (rt_uploads r2)" "only_file n s1 s2" by simp_all
  obtain x digest where fin: "upload_finish_with_metrics (ev_build env) (rt_uploads r2) i s2 = Some (x, digest, rt_uploads r3, s3)"
    and reply: "rs_status rs3 = 201 \<Longrightarrow>
      x = UPLOAD_OK \<and> rs_body rs3 = map uchar (completed_text digest (mg_last_metrics (rt_uploads r3)))"
    and other: "x = UPLOAD_OK \<Longrightarrow> length digest = 64 \<Longrightarrow> rs_status rs3 = 201"
    using finish_reply [OF assms(7)] by metis
  from finish_streaming [OF run(1,2), of "ev_build env" i] fin have "finished n data (rt_uploads r2) s2 x digest (rt_uploads r3) s3"
    by fastforce
  from finished_earlier [OF this run(3,4)] have fin: "finished n data (rt_uploads r1) s1 x digest (rt_uploads r3) s3" .
  have names: "os_names sa = os_names s0" "os_files sa = os_files s0" using start(1) by (simp_all add: same_store_def)
  have created: "rs_status rs3 = 201" if "x = UPLOAD_OK"
    using fin other that by (simp add: finished_def Let_def sha256_hex_encode)
  obtain name where name: "rs_body rs1 = map uchar (prepared_text name p (rt_fast_upload_port r0))"
    "json_escape_string (pr_final_name p) RESPONSE_STORAGE_BYTES = Some name" using body by blast
  show ?thesis
  proof (rule exI [of _ p], rule exI [of _ name], rule exI [of _ "sl_final_path (mg_slot (rt_uploads r1))"], rule exI [of _ n], intro conjI)
    show "\<forall>k. k \<noteq> n \<longrightarrow> os_files s3 k = os_files s0 k"
      using fin prep(6) names by (auto simp: finished_def Let_def only_upload_def split: if_splits)
    show "\<forall>q. q \<noteq> part_path_text (mg_destination (rt_uploads r0)) i \<longrightarrow>
        rs_status rs3 = 201 \<and> q = sl_final_path (mg_slot (rt_uploads r1)) \<or> os_names s3 q = os_names s0 q"
      using fin prep(4,5) names created unfolding i by (auto simp: finished_def Let_def only_upload_def split: if_splits)
    show "rs_status rs3 = 201 \<longrightarrow> length data = unat (pr_size p) \<and> os_names s0 (sl_final_path (mg_slot (rt_uploads r1))) = None \<and>
      os_names s3 (sl_final_path (mg_slot (rt_uploads r1))) = Some (Regular n) \<and> inode_bytes (os_files s3 n) = data \<and>
      (\<exists>metrics. rs_body rs3 = map uchar (completed_text (sha256_hex (sha256_spec data)) metrics))"
      using fin prep(2,5) names reply by (auto simp: finished_def Let_def split: if_splits)
  qed (use name i prep(3) in simp_all)
qed

section \<open>An example\<close>

text \<open>The three bytes of the earlier example, over HTTP and without authentication.\<close>

definition http_prepare :: "upload_result \<times> upload_prepared option \<times> upload_manager \<times> os" where
  "http_prepare = upload_prepare PS5 idle_manager ''c'' ''NoAuth'' (Some small_body) example_os"

definition http_manager :: upload_manager where "http_manager = fst (snd (snd http_prepare))"
definition http_os :: os where "http_os = snd (snd (snd http_prepare))"

definition http_grant :: upload_prepared where
  "http_grant = \<lparr>pr_upload_id = example_id, pr_final_name = ''f'', pr_size = 3\<rparr>"

lemma http_prepare_fields:
  "case http_prepare of (r, p, m, s) \<Rightarrow>
     (r = UPLOAD_OK \<and> p = Some http_grant) \<and>
     (sl_id (mg_slot m) = example_id \<and> sl_expected (mg_slot m) = 3 \<and> sl_expected_hash (mg_slot m) = [] \<and>
      sl_final_path (mg_slot m) = ''/data/in/f'' \<and> sl_client (mg_slot m) = ''c'' \<and> sl_authorization (mg_slot m) = ''NoAuth'') \<and>
     (os_faults s = [] \<and> os_seconds s = [5] \<and> wt_error (mg_writer m) = E0 \<and> sl_last_activity (mg_slot m) = 5 \<and>
      mg_lease_seconds m = 60) \<and>
     os_names s ''/data/in/f'' = None \<and> parent_exists s ''/data/in/f''"
  by code_simp

lemma http_prepare_eq: "http_prepare = (UPLOAD_OK, Some http_grant, http_manager, http_os)"
  using http_prepare_fields by (simp add: http_manager_def http_os_def prod_eq_iff case_prod_beta)

lemmas http_prepared = http_prepare_eq [unfolded http_prepare_def]
  and http_fields = http_prepare_fields [unfolded http_prepare_eq prod.case]

lemma http_terms:
  "sl_id (mg_slot http_manager) = example_id" "sl_expected (mg_slot http_manager) = 3"
  "sl_expected_hash (mg_slot http_manager) = []" "sl_final_path (mg_slot http_manager) = ''/data/in/f''"
  "sl_client (mg_slot http_manager) = ''c''" "sl_authorization (mg_slot http_manager) = ''NoAuth''"
  using http_fields by simp_all

lemma http_calm: "calm 5 http_manager http_os"
  using http_fields by (simp add: calm_def)

lemma http_free: "os_names http_os ''/data/in/f'' = None" "parent_exists http_os ''/data/in/f''"
  using http_fields by simp_all

definition http_router :: router where
  "http_router = (example_router CONFIG_AUTH_NONE)\<lparr>rt_uploads := http_manager\<rparr>"

lemma http_texts:
  "json_escape_string ''f'' RESPONSE_STORAGE_BYTES = Some ''f''" "is_json_content_type (Some ''application/json'')"
  "length small_body \<le> ROUTER_MAX_METADATA_BODY_BYTES"
  by code_simp+

lemma http_text_length: "length (prepared_text ''f'' http_grant 53318) < RESPONSE_STORAGE_BYTES"
proof -
  have "length example_id = 32" by code_simp
  moreover have "length (dec_string (unat (53318 :: u16))) \<le> 5" "length (dec_string UPLOAD_CHUNK_PARALLELISM) \<le> 1"
    by (rule length_dec_string; simp add: UPLOAD_CHUNK_PARALLELISM_def)+
  ultimately show ?thesis using length_u64_text [of 3] length_u64_text [of UPLOAD_CHUNK_BYTES]
    by (simp add: prepared_text_def http_grant_def router_constants)
qed

lemma http_first:
  "router_dispatch example_env (example_router CONFIG_AUTH_NONE) (example_request ''/api/v1/uploads'' small_body) example_os =
   Some (json_response no_response 201 (prepared_text ''f'' http_grant 53318), http_router, http_os)"
proof -
  let ?r = "example_router CONFIG_AUTH_NONE"
  have router: "rt_auth_mode ?r = CONFIG_AUTH_NONE" "rt_uploads ?r = idle_manager" "rt_fast_upload_port ?r = 53318" "ev_build example_env = PS5"
    by (simp_all add: example_router_def example_env_def)
  have request: "rq_method (example_request p b) = ''POST''" "request_body (example_request p b) = Some b"
    "rq_body_size (example_request p b) = length b" "rq_content_type (example_request p b) = Some ''application/json''"
    "rq_client_address (example_request p b) = ''c''" "rq_path (example_request p b) = p" for p b
    by (simp_all add: example_request_def request_body_def)
  have grant: "pr_final_name http_grant = ''f''" by (simp add: http_grant_def)
  show ?thesis
    using http_texts http_text_length http_prepared
    by (simp add: router_dispatch_def dispatch_upload_prepare_def Let_def request router example_origin authorized_def
        request_authorization_def grant http_router_def router_constants)
qed

definition http_put :: router_request where
  "http_put = (example_request (''/api/v1/uploads/'' @ example_id) [])\<lparr>rq_method := ''PUT'', rq_body := None,
     rq_content_type := Some ''application/octet-stream''\<rparr>"

lemma finish_created:
  assumes "streaming d n data (rt_uploads r) s" "buffer_room (rt_uploads r)" "router_upload_stream_finish env r i s = Some (rs, r', s')"
    "upload_finish_with_metrics (ev_build env) (rt_uploads r) i s = Some (UPLOAD_OK, digest, m', t)"
  shows "rs_status rs = 201"
proof -
  have "length digest = 64"
    using finish_streaming [OF assms(1,2), of "ev_build env" i] assms(4) by (auto simp: finished_def Let_def sha256_hex_encode)
  with finish_reply [OF assms(3)] assms(4) show ?thesis by (metis option.inject prod.inject)
qed

lemma http_ready: obtains d n where "prepared d n http_manager http_os"
proof -
  have "os_names example_os (part_path_text (mg_destination idle_manager) (pr_upload_id http_grant)) = None"
    using example_part_new by (simp add: http_grant_def)
  with upload_prepare_ok [OF http_prepared free_idle_manager this] that show thesis by metis
qed

text \<open>The stream begins, and brings all three bytes at once.\<close>

lemma http_run:
  obtains m1 s1 m2 s2 where
    "router_upload_stream_begin_ex example_env http_router http_put (Some 3) http_os =
       Some (Inr (Whole_body example_id), http_router\<lparr>rt_uploads := m1\<rparr>, s1)"
    "router_upload_stream_write example_env (http_router\<lparr>rt_uploads := m1\<rparr>) example_id [1, 2, 3] s1 =
       Some (Inr (), http_router\<lparr>rt_uploads := m2\<rparr>, s2)"
    "stream_run example_id http_manager http_os ([] @ [1, 2, 3]) m2 s2"
proof -
  obtain d n where ready: "prepared d n http_manager http_os" by (rule http_ready)
  obtain m1 s1 where b: "upload_begin http_manager example_id ''c'' ''NoAuth'' 3 http_os = (UPLOAD_OK, m1, s1)"
    using upload_begin_calm [OF ready http_calm] unfolding http_terms by metis
  have p: "upload_id_from_path (rq_path http_put) = Some example_id" by code_simp
  have put: "rq_method http_put = ''PUT''" "rq_client_address http_put = ''c''" "rq_content_range http_put = None"
    "rq_content_type http_put = Some ''application/octet-stream''" "same_origin http_put"
    using example_origin [of "''/api/v1/uploads/'' @ example_id" "[]"]
    by (simp_all add: http_put_def example_request_def same_origin_def)
  have router: "rt_auth_mode http_router = CONFIG_AUTH_NONE" "rt_uploads http_router = http_manager"
    by (simp_all add: http_router_def example_router_def)
  have 1: "router_upload_stream_begin_ex example_env http_router http_put (Some 3) http_os =
      Some (Inr (Whole_body example_id), http_router\<lparr>rt_uploads := m1\<rparr>, s1)"
    using b p by (simp add: router_upload_stream_begin_ex_def put authorized_def router begin_whole_def request_authorization_def Let_def)
  have r1: "stream_run example_id http_manager http_os [] m1 s1" using b by (rule stream_run.stream_begin)
  note inv = stream_run_inv [OF r1 ready] and c = stream_run_calm [OF r1 ready http_calm]
  have "length [] + length [1, 2, 3 :: byte] \<le> unat (sl_expected (mg_slot m1))" using inv http_terms by (simp add: same_terms_def)
  then obtain m2 s2 where w: "upload_write m1 example_id [1, 2, 3] s1 = Some (UPLOAD_OK, m2, s2)"
    using inv c upload_write_calm [of d n "[]" m1 s1 5 "[1, 2, 3]" example_id] by auto
  then have "router_upload_stream_write example_env (http_router\<lparr>rt_uploads := m1\<rparr>) example_id [1, 2, 3] s1 =
      Some (Inr (), http_router\<lparr>rt_uploads := m2\<rparr>, s2)"
    by (simp add: router_upload_stream_write_def or_abort_def)
  with 1 stream_run.stream_write [OF r1 _ w] show thesis by (intro that) simp_all
qed

lemma http_finish:
  assumes "stream_run example_id http_manager http_os ([] @ [1, 2, 3]) (rt_uploads r) s"
  obtains rs r' s' where "router_upload_stream_finish example_env r example_id s = Some (rs, r', s')" "rs_status rs = 201"
proof -
  obtain d n where ready: "prepared d n http_manager http_os" by (rule http_ready)
  note inv = stream_run_inv [OF assms ready] and c = stream_run_calm [OF assms ready http_calm]
  from inv have names: "os_names s = os_names http_os" by (simp add: only_file_def)
  have fine: "\<exists>digest m' s'. upload_finish_with_metrics PS5 (rt_uploads r) (sl_id (mg_slot (rt_uploads r))) s = Some (UPLOAD_OK, digest, m', s')"
    by (rule finish_calm [of d n "[] @ [1, 2, 3]" "rt_uploads r" s 5])
      (use inv c http_terms http_free names parent_exists_cong [OF names] in \<open>auto simp: same_terms_def\<close>)
  obtain rs r' s' where fin: "router_upload_stream_finish example_env r example_id s = Some (rs, r', s')"
    using fine c by (auto simp: router_upload_stream_finish_def example_env_def Let_def)
  moreover have "rs_status rs = 201"
    using finish_created [OF _ _ fin] inv fine c by (auto simp: example_env_def)
  ultimately show thesis by (rule that)
qed

lemma http_start:
  "free_manager (rt_uploads (example_router CONFIG_AUTH_NONE))"
  "os_names example_os (part_path_text (mg_destination (rt_uploads (example_router CONFIG_AUTH_NONE))) example_id) = None"
  using free_idle_manager example_part_new by (simp_all add: example_router_def)

end
