(* ===== verification/FastProps.thy ===== *)
theory FastProps
  imports FastServer UploadDirect ServerProps
begin

text \<open>
  How the fast listener reads the header of a connection: the pieces in which it arrives do not matter.
\<close>

section \<open>What arrives\<close>

text \<open>The bytes that the code can read, up to the first end.\<close>

fun wire :: "received list \<Rightarrow> byte list" where
  "wire [] = []"
| "wire (Arrived data # es) = (if data = [] then [] else data @ wire es)"
| "wire (Interrupted # es) = wire es"
| "wire (Ended # es) = []"

lemma sock_recv_cases:
  assumes "sock_recv capacity k = (e, k')" "0 < capacity"
  obtains (ended) "e = Ended" "wire (sk_incoming k) = []"
    | (interrupted) "e = Interrupted" "wire (sk_incoming k') = wire (sk_incoming k)"
    | (arrived) data where "e = Arrived data" "data \<noteq> []" "length data \<le> capacity" "wire (sk_incoming k) = data @ wire (sk_incoming k')"
proof (cases "sk_incoming k")
  case Nil
  with assms ended show thesis by (simp add: sock_recv_def)
next
  case (Cons e' es)
  show thesis
  proof (cases e')
    case (Arrived data)
    show thesis
    proof (cases data)
      case Nil
      with Cons Arrived assms ended show thesis by (simp add: sock_recv_def)
    next
      case (Cons b bs)
      with \<open>sk_incoming k = e' # es\<close> Arrived assms show thesis
        by (intro arrived [of "take capacity data"]) (auto simp: sock_recv_def split: if_splits)
    qed
  qed (use Cons assms ended interrupted in \<open>auto simp: sock_recv_def\<close>)
qed

lemma sock_recv_frame:
  "sock_recv capacity k = (e, k') \<Longrightarrow> sk_outgoing k' = sk_outgoing k \<and> sk_sends k' = sk_sends k"
  by (auto simp: sock_recv_def split: list.splits received.splits if_splits)

section \<open>Reading the header\<close>

lemma header_end_append: "header_end bs = Some i \<Longrightarrow> header_end (bs @ cs) = Some i \<and> i + 4 \<le> length bs"
proof (induction bs arbitrary: i)
  case (Cons b bs)
  show ?case
  proof (cases "take 4 (b # bs) = [0x0D, 0x0A, 0x0D, 0x0A]")
    case True
    then have "length (take 4 (b # bs)) = 4" by (simp only:; simp)
    then have "4 \<le> length (b # bs)" by (simp only: length_take)
    then have "take 4 ((b # bs) @ cs) = take 4 (b # bs)" by (simp only: take_append) simp
    with True Cons.prems \<open>4 \<le> length (b # bs)\<close> show ?thesis by auto
  next
    case False
    with Cons.prems obtain j where j: "header_end bs = Some j" "i = Suc j" by auto
    from Cons.IH [OF j(1)] have IH: "header_end (bs @ cs) = Some j" "j + 4 \<le> length bs" by auto
    then have "take 4 ((b # bs) @ cs) = take 4 (b # bs)" by (simp only: take_append) simp
    with False IH j(2) show ?thesis by auto
  qed
qed simp

lemma header_end_prefix: "header_end (bs @ cs) = None \<Longrightarrow> header_end bs = None"
  using header_end_append by (cases "header_end bs") auto

lemma header_field_update:
  "header_field name v (q\<lparr>fq_buffered_bytes := x\<rparr>) = map_option (\<lambda>q. q\<lparr>fq_buffered_bytes := x\<rparr>) (header_field name v q)"
  "header_field name v (q\<lparr>fq_body_offset := x\<rparr>) = map_option (\<lambda>q. q\<lparr>fq_body_offset := x\<rparr>) (header_field name v q)"
  by (cases q; auto simp: header_field_def map_option_case split: option.splits)+

lemma header_lines_update:
  "header_lines t (q\<lparr>fq_buffered_bytes := x\<rparr>) = map_option (\<lambda>q. q\<lparr>fq_buffered_bytes := x\<rparr>) (header_lines t q)"
  "header_lines t (q\<lparr>fq_body_offset := x\<rparr>) = map_option (\<lambda>q. q\<lparr>fq_body_offset := x\<rparr>) (header_lines t q)"
proof (induction t q rule: header_lines.induct)
  case (1 t q)
  { case 1 then show ?case
      using "1.IH"(1) by (subst (1 2) header_lines.simps) (auto simp: header_field_update split: option.splits)
  next
    case 2 then show ?case
      using "1.IH"(2) by (subst (1 2) header_lines.simps) (auto simp: header_field_update split: option.splits)
  }
qed

lemma header_lines_offset: "header_lines t q = Some q' \<Longrightarrow> fq_body_offset q' = fq_body_offset q \<and> fq_buffered_bytes q' = fq_buffered_bytes q"
  using header_lines_update(1) [where t = t and q = q and x = "fq_buffered_bytes q"]
    header_lines_update(2) [where t = t and q = q and x = "fq_body_offset q"]
  by (cases q'; cases q) auto

text \<open>More bytes change only the count of those behind the header.\<close>

definition counted :: "nat \<Rightarrow> parse_result \<Rightarrow> parse_result" where
  "counted amount p = (case p of Parsed q \<Rightarrow> Parsed (q\<lparr>fq_buffered_bytes := amount - fq_body_offset q\<rparr>) | _ \<Rightarrow> p)"

lemma parse_request_append:
  assumes "parse_request bs \<noteq> Incomplete"
  shows "parse_request (bs @ cs) = counted (length (bs @ cs)) (parse_request bs)"
proof -
  from assms obtain i where i: "header_end bs = Some i" by (cases "header_end bs") (auto simp: parse_request_def)
  note app = header_end_append [OF i, of cs]
  have head: "take i (bs @ cs) = take i bs" using app by simp
  let ?q = "\<lambda>m path x. no_request\<lparr>fq_method := m, fq_path := path, fq_body_offset := i + 4, fq_buffered_bytes := x\<rparr>"
  show ?thesis
  proof (cases "split_line (cstr (map byte_char (take i bs)))")
    case None
    then show ?thesis using i app head by (simp add: parse_request_def counted_def)
  next
    case (Some lr)
    then obtain line rest where lr: "split_line (cstr (map byte_char (take i bs))) = Some (line, rest)" by (cases lr) simp
    show ?thesis
    proof (cases "scan_request_line line")
      case None
      then show ?thesis using i app head lr by (simp add: parse_request_def counted_def)
    next
      case (Some mp)
      then obtain m path where mp: "scan_request_line line = Some (m, path)" by (cases mp) simp
      have "header_lines rest (?q m path (length (bs @ cs) - (i + 4))) =
          map_option (\<lambda>q. q\<lparr>fq_buffered_bytes := length (bs @ cs) - (i + 4)\<rparr>) (header_lines rest (?q m path (length bs - (i + 4))))"
        using header_lines_update(1) [where t = rest and q = "?q m path (length bs - (i + 4))" and x = "length (bs @ cs) - (i + 4)"] by simp
      then show ?thesis using i app head lr mp header_lines_offset [of rest "?q m path (length bs - (i + 4))"]
        by (cases "header_lines rest (?q m path (length bs - (i + 4)))") (simp_all add: parse_request_def counted_def)
    qed
  qed
qed

lemma parse_request_offset:
  assumes "parse_request bs = Parsed q"
  shows "fq_body_offset q \<le> length bs \<and> fq_buffered_bytes q = length bs - fq_body_offset q"
  using assms header_end_append [of bs _ "[]"]
  by (auto simp: parse_request_def split: option.splits prod.splits dest!: header_lines_offset)

text \<open>The request that the first bytes of the wire make, with the number of its body's bytes among the \<open>amount\<close> read.\<close>

definition request_of :: "byte list \<Rightarrow> nat \<Rightarrow> fast_request option" where
  "request_of bytes amount =
     (case counted amount (parse_request (take FAST_UPLOAD_HEADER_BYTES bytes)) of Parsed q \<Rightarrow> Some q | _ \<Rightarrow> None)"

lemma incomplete_prefix: "parse_request (bs @ cs) = Incomplete \<Longrightarrow> parse_request bs = Incomplete"
  using parse_request_append [of bs cs] by (cases "parse_request bs") (auto simp: counted_def)

lemma counted_twice [simp]: "counted a (counted b p) = counted a p"
  by (cases p) (simp_all add: counted_def)

lemma receive_headers_wire:
  "receive_headers buffer k = (r, buffer', k') \<Longrightarrow> parse_request buffer = Incomplete \<Longrightarrow> length buffer \<le> FAST_UPLOAD_HEADER_BYTES \<Longrightarrow>
   r = request_of (buffer @ wire (sk_incoming k)) (length buffer') \<and>
   sk_sends k' = sk_sends k \<and> sk_outgoing k' = sk_outgoing k \<and>
   (r \<noteq> None \<longrightarrow> buffer' @ wire (sk_incoming k') = buffer @ wire (sk_incoming k) \<and> length buffer' \<le> FAST_UPLOAD_HEADER_BYTES \<and>
     parse_request buffer' = Parsed (the r))"
proof (induction buffer k arbitrary: r buffer' k' rule: receive_headers.induct)
  case (1 buffer k)
  show ?case
  proof (cases "FAST_UPLOAD_HEADER_BYTES \<le> length buffer")
    case True
    with 1(3-5) show ?thesis by (subst (asm) receive_headers.simps) (simp add: request_of_def counted_def)
  next
    case False
    obtain e k1 where e: "sock_recv (FAST_UPLOAD_HEADER_BYTES - length buffer) k = (e, k1)" by force
    note frame = sock_recv_frame [OF e]
    have "0 < FAST_UPLOAD_HEADER_BYTES - length buffer" using False by simp
    with e show ?thesis
    proof (cases rule: sock_recv_cases)
      case ended
      with 1(3) False e have "r = None" "k' = k1" by (subst (asm) receive_headers.simps; simp)+
      with ended 1(4,5) frame show ?thesis by (simp add: request_of_def counted_def)
    next
      case interrupted
      with 1(3) False e have "receive_headers buffer k1 = (r, buffer', k')" by (subst (asm) receive_headers.simps) simp
      from 1(2) [OF False e [symmetric] interrupted(1) this 1(4,5)] interrupted(2) frame show ?thesis by simp
    next
      case (arrived data)
      have room: "length (buffer @ data) \<le> FAST_UPLOAD_HEADER_BYTES" using arrived(3) False by simp
      have wire: "take FAST_UPLOAD_HEADER_BYTES (buffer @ wire (sk_incoming k)) =
          (buffer @ data) @ take (FAST_UPLOAD_HEADER_BYTES - length (buffer @ data)) (wire (sk_incoming k1))"
        using room by (simp add: arrived(4))
      note more = parse_request_append [of "buffer @ data" "take (FAST_UPLOAD_HEADER_BYTES - length (buffer @ data)) (wire (sk_incoming k1))"]
      show ?thesis
      proof (cases "parse_request (buffer @ data)")
        case Incomplete
        with 1(3) False e arrived(1) have "receive_headers (buffer @ data) k1 = (r, buffer', k')"
          by (subst (asm) receive_headers.simps) simp
        from 1(1) [OF False e [symmetric] arrived(1) Incomplete this Incomplete room] arrived(4) frame show ?thesis by simp
      next
        case Malformed
        with 1(3) False e arrived(1) have "r = None" "k' = k1" by (subst (asm) receive_headers.simps; simp)+
        with Malformed more frame show ?thesis by (simp add: request_of_def wire counted_def del: take_append append_assoc)
      next
        case (Parsed q)
        with 1(3) False e arrived(1) have out: "r = Some q" "k' = k1" "buffer' = buffer @ data" by (subst (asm) receive_headers.simps; simp)+
        have "fq_buffered_bytes q = length (buffer @ data) - fq_body_offset q" using parse_request_offset [OF Parsed] by blast
        then have "q = q\<lparr>fq_buffered_bytes := length (buffer @ data) - fq_body_offset q\<rparr>" by (cases q) simp
        moreover have "request_of (buffer @ wire (sk_incoming k)) (length buffer') =
            Some (q\<lparr>fq_buffered_bytes := length (buffer @ data) - fq_body_offset q\<rparr>)"
          using Parsed more by (simp add: request_of_def wire out counted_def del: take_append append_assoc)
        ultimately show ?thesis using out room arrived(4) frame Parsed by simp
      qed
    qed
  qed
qed

text \<open>C6: The network may cut a request anywhere: whatever the pieces and interruptions in which its bytes arrive, the
  header that the listener reads is that of the first 16384 bytes of the connection, a malformed or overlong header is
  refused in every case, and of the bytes behind the header none is lost or repeated: those in the buffer and
  those still to come are together what was sent.\<close>
theorem header_in_any_pieces:
  "\<exists>r buffer k'. receive_headers [] k = (r, buffer, k') \<and> r = request_of (wire (sk_incoming k)) (length buffer) \<and>
     (case r of None \<Rightarrow> True
      | Some q \<Rightarrow> length buffer = fq_body_offset q + fq_buffered_bytes q \<and> length buffer \<le> FAST_UPLOAD_HEADER_BYTES \<and>
          drop (fq_body_offset q) buffer @ wire (sk_incoming k') = drop (fq_body_offset q) (wire (sk_incoming k)))"
proof -
  obtain r buffer k' where run: "receive_headers [] k = (r, buffer, k')" by (rule prod_cases3)
  have start: "parse_request [] = Incomplete" by (simp add: parse_request_def)
  note read = receive_headers_wire [OF run start, simplified]
  show ?thesis
  proof (cases r)
    case None
    with run read show ?thesis by simp
  next
    case (Some q)
    with read have q: "wire (sk_incoming k) = buffer @ wire (sk_incoming k')" "parse_request buffer = Parsed q" by simp_all
    have fits: "length buffer \<le> FAST_UPLOAD_HEADER_BYTES" using read Some by simp
    note place = parse_request_offset [OF q(2)]
    show ?thesis
    proof (intro exI conjI)
      show "receive_headers [] k = (Some q, buffer, k')" using run Some by simp
      show "Some q = request_of (wire (sk_incoming k)) (length buffer)" using read Some by simp
    qed (use fits place in \<open>simp add: q(1)\<close>)
  qed
qed

end
