(* ===== verification/FastRuns.thy ===== *)
theory FastRuns
  imports FastProps
begin

text \<open>
  Whole connections of the fast listener: what an upload over it stores, from the connection to the file, and whose
  requests it admits.
\<close>

section \<open>The router's calls\<close>

abbreviation kept_tidy :: "string \<Rightarrow> nat \<Rightarrow> router \<Rightarrow> os \<Rightarrow> router \<Rightarrow> os \<Rightarrow> bool" where
  "kept_tidy part n r s r' s' \<equiv> tidy part n (rt_uploads r) s (rt_uploads r') s'"

lemma cancel_stream_tidy:
  "cancel_stream r request i failure s = Some (x, r', s') \<Longrightarrow> kept_tidy part n r s r' s'"
  by (auto simp: cancel_stream_def split: option.splits intro: tidy_cancel)

lemma begin_chunk_tidy:
  "begin_chunk env r request len i extent s = Some (x, r', s') \<Longrightarrow> kept_tidy part n r s r' s'"
  by (auto simp: begin_chunk_def Let_def split: prod.splits if_splits intro: tidy_chunk_begin)

lemma begin_whole_tidy:
  assumes "begin_whole env r request len i s = Some (x, r', s')"
  shows "kept_tidy part n r s r' s'"
proof (cases len)
  case None
  with assms show ?thesis by (auto simp: begin_whole_def intro: cancel_stream_tidy)
next
  case (Some amount)
  obtain result m t where b: "upload_begin (rt_uploads r) i (rq_client_address request) (request_authorization r request) amount s = (result, m, t)"
    by (rule prod_cases3)
  have m: "kept_tidy part n r s (r\<lparr>rt_uploads := m\<rparr>) t" using tidy_begin [OF b] by simp
  from assms Some b m show ?thesis
    by (auto simp: begin_whole_def Let_def split: if_splits dest!: cancel_stream_tidy [where part = part and n = n] intro: tidy_trans)
qed

lemma begin_tidy:
  assumes "router_upload_stream_begin_ex env r request len s = Some (x, r', s')"
  shows "kept_tidy part n r s r' s'"
proof -
  obtain ok r1 s1 where a: "authorized r request s = (ok, r1, s1)" by (metis prod_cases3)
  from authorized_untouched [OF a] have r1: "kept_tidy part n r s r1 s1" by (auto simp: untouched_def intro: tidy_store)
  consider "r' = r" "s' = s" | "r' = r1" "s' = s1" | extent i where "begin_chunk env r1 request len i extent s1 = Some (x, r', s')"
    | i where "begin_whole env r1 request len i s1 = Some (x, r', s')"
    using assms a by (fastforce simp: router_upload_stream_begin_ex_def split: option.splits if_splits bool.splits)
  then show ?thesis
  proof cases
    case 1 then show ?thesis by simp
  next
    case 2 with r1 show ?thesis by simp
  next
    case 3 with r1 begin_chunk_tidy show ?thesis by (metis tidy_trans)
  next
    case 4 with r1 begin_whole_tidy show ?thesis by (metis tidy_trans)
  qed
qed

lemma or_abort_tidy:
  assumes "or_abort env r i (result, m, t) = Some (x, r', s')" "tidy part n (rt_uploads r) s m t"
  shows "kept_tidy part n r s r' s'"
  using assms by (auto simp: or_abort_def split: if_splits option.splits dest!: tidy_abort [where part = part and n = n] intro: tidy_trans)

lemma write_chunk_tidy:
  assumes "router_upload_stream_write_chunk env r i offset data s = Some (x, r', s')"
  shows "kept_tidy part n r s r' s'"
proof -
  obtain result m t where w: "upload_chunk_write (rt_uploads r) i offset data s = (result, m, t)" by (rule prod_cases3)
  from or_abort_tidy [OF _ tidy_chunk_write [OF w]] assms w show ?thesis by (simp add: router_upload_stream_write_chunk_def)
qed

lemma finish_chunk_tidy:
  "router_upload_stream_finish_chunk env r i offset amount s = (ok, routed, r', s') \<Longrightarrow> kept_tidy part n r s r' s'"
  by (auto simp: router_upload_stream_finish_chunk_def Let_def split: prod.splits if_splits intro: tidy_chunk_finish)

lemma abort_chunk_tidy: "router_upload_stream_abort_chunk r i offset s = (r', s') \<Longrightarrow> kept_tidy part n r s r' s'"
  by (auto simp: router_upload_stream_abort_chunk_def split: prod.splits intro: tidy_chunk_abort)

lemma abort_stream_tidy: "abort_stream st r s = Some (r', s') \<Longrightarrow> kept_tidy part n r s r' s'"
  by (cases st) (auto simp: router_upload_stream_abort_def split: option.splits intro: tidy_abort abort_chunk_tidy)

text \<open>A piece of a direct stream.\<close>

lemma write_direct_piece:
  assumes "directing d n data (rt_uploads r) s" "i = sl_id (mg_slot (rt_uploads r))" "length x < 2 ^ 64"
    "router_upload_stream_write_direct env r i x s = Some (y, r', s')"
  shows "case y of Inr _ \<Rightarrow> directing d n (data @ x) (rt_uploads r') s' \<and> same_terms (rt_uploads r) (rt_uploads r') \<and> only_file n s s'
    | Inl _ \<Rightarrow> quiet (sl_part_path (mg_slot (rt_uploads r))) (rt_uploads r') \<and> only_upload (sl_part_path (mg_slot (rt_uploads r))) n s s'"
proof -
  obtain result m t where w: "upload_write_direct (rt_uploads r) i x s = (result, m, t)" by (rule prod_cases3)
  note written = write_direct_directing [OF assms(1-3) w]
  show ?thesis
  proof (cases "result = UPLOAD_OK")
    case True
    with assms(4) w written show ?thesis by (auto simp: router_upload_stream_write_direct_def or_abort_def)
  next
    case False
    then obtain m' where m': "upload_abort m i t = Some (m', s')" "r' = r\<lparr>rt_uploads := m'\<rparr>" "isl y"
      using assms(4) w by (auto simp: router_upload_stream_write_direct_def or_abort_def split: option.splits)
    with tidy_abort [OF m'(1), of "sl_part_path (mg_slot (rt_uploads r))" n] written False show ?thesis
      by (auto simp: tidy_def isl_def intro: only_upload_trans)
  qed
qed

text \<open>None of the calls waits while nothing is being written directly.\<close>

lemma abort_returns: "quiet part m \<Longrightarrow> \<exists>m' s'. upload_abort m i s = Some (m', s')"
  by (cases "snd (clear_slot True m s)") (simp add: upload_abort_def quiet_def)

lemma or_abort_returns:
  assumes "quiet part m"
  shows "\<exists>y r' s'. or_abort env r i (result, m, t) = Some (y, r', s')"
  using abort_returns [OF assms, of i t] by (auto simp: or_abort_def)

lemma write_direct_returns:
  assumes "directing d n data (rt_uploads r) s" "i = sl_id (mg_slot (rt_uploads r))" "length x < 2 ^ 64"
  shows "\<exists>y r' s'. router_upload_stream_write_direct env r i x s = Some (y, r', s')"
proof -
  obtain result m t where w: "upload_write_direct (rt_uploads r) i x s = (result, m, t)" by (rule prod_cases3)
  have "\<exists>part. quiet part m" using write_direct_directing [OF assms w] by (auto split: if_splits dest: directing_quiet)
  with or_abort_returns w show ?thesis by (metis router_upload_stream_write_direct_def)
qed

lemma write_chunk_returns:
  assumes "quiet part (rt_uploads r)"
  shows "\<exists>y r' s'. router_upload_stream_write_chunk env r i offset x s = Some (y, r', s')"
proof -
  obtain result m t where w: "upload_chunk_write (rt_uploads r) i offset x s = (result, m, t)" by (rule prod_cases3)
  have "quiet part m" using tidy_chunk_write [OF w, of part 0] assms by (simp add: tidy_def)
  from or_abort_returns [OF this] w show ?thesis by (simp add: router_upload_stream_write_chunk_def)
qed

lemma abort_stream_returns:
  assumes "quiet part (rt_uploads r)"
  shows "\<exists>r' s'. abort_stream st r s = Some (r', s')"
proof (cases st)
  case (Whole_body i)
  with abort_returns [OF assms, of i s] show ?thesis by (auto simp: router_upload_stream_abort_def)
next
  case (Body_chunk i offset amount)
  then show ?thesis by (cases "router_upload_stream_abort_chunk r i offset s") simp
qed

lemma begin_returns:
  assumes "quiet part (rt_uploads r)"
  shows "\<exists>y r' s'. router_upload_stream_begin_ex env r request len s = Some (y, r', s')"
proof -
  obtain ok r1 s1 where a: "authorized r request s = (ok, r1, s1)" by (metis prod_cases3)
  have q: "quiet part (rt_uploads r1)" using authorized_untouched [OF a] assms by (auto simp: untouched_def)
  have cancel: "\<exists>y r' s'. cancel_stream r2 request i failure s2 = Some (y, r', s')" if "quiet part (rt_uploads r2)" for r2 i failure s2
    using that by (auto simp: cancel_stream_def upload_cancel_def quiet_def split: prod.splits option.splits)
  have whole: "\<exists>y r' s'. begin_whole env r1 request len i s1 = Some (y, r', s')" for i
  proof (cases len)
    case None
    with cancel [OF q] show ?thesis by (simp add: begin_whole_def)
  next
    case (Some amount)
    obtain result m t where b: "upload_begin (rt_uploads r1) i (rq_client_address request) (request_authorization r1 request) amount s1 = (result, m, t)"
      by (rule prod_cases3)
    have "quiet part (rt_uploads (r1\<lparr>rt_uploads := m\<rparr>))" using tidy_begin [OF b, of part 0] q by (simp add: tidy_def)
    from cancel [OF this] Some b show ?thesis by (auto simp: begin_whole_def Let_def)
  qed
  have chunk: "\<exists>y r' s'. begin_chunk env r1 request len i extent s1 = Some (y, r', s')" for i extent
    by (auto simp: begin_chunk_def Let_def split: prod.splits)
  show ?thesis using whole chunk by (auto simp: router_upload_stream_begin_ex_def a split: option.splits bool.splits)
qed

section \<open>The body\<close>

text \<open>The body of a chunk goes to the memory of the manager.\<close>

lemma receive_body_chunk:
  "receive_body env st whole arrived k r s = Some (ok, k', r', s') \<Longrightarrow> st = Body_chunk i offset amount \<Longrightarrow> kept_tidy part n r s r' s'"
proof (induction env st whole arrived k r s arbitrary: ok k' r' s' rule: receive_body.induct)
  case (1 env st whole arrived k r s)
  show ?case
  proof (cases "whole \<le> arrived")
    case True
    with 1(3) show ?thesis by (subst (asm) receive_body.simps) simp
  next
    case False
    obtain e k1 where e: "sock_recv (min (unat (whole - arrived)) FAST_UPLOAD_READ_BYTES) k = (e, k1)" by force
    show ?thesis
    proof (cases e)
      case (Arrived data)
      show ?thesis
      proof (cases "write_piece env st arrived data r s")
        case None
        with 1(3) False e Arrived show ?thesis by (subst (asm) receive_body.simps) simp
      next
        case (Some w)
        obtain y r1 s1 where w: "w = (y, r1, s1)" by (rule prod_cases3)
        with Some 1(4) have step: "kept_tidy part n r s r1 s1" by (auto intro: write_chunk_tidy)
        show ?thesis
        proof (cases y)
          case (Inl failure)
          with 1(3) False e Arrived Some w step show ?thesis by (subst (asm) receive_body.simps) simp
        next
          case (Inr u)
          with 1(3) False e Arrived Some w have "receive_body env st whole (arrived + of_nat (length data)) k1 r1 s1 = Some (ok, k', r', s')"
            by (subst (asm) receive_body.simps) simp
          from 1(1) [OF False e [symmetric] Arrived Some w [symmetric] Inr refl this 1(4)] step show ?thesis by (rule tidy_trans [rotated])
        qed
      qed
    next
      case Interrupted
      with 1(3) False e have "receive_body env st whole arrived k1 r s = Some (ok, k', r', s')"
        by (subst (asm) receive_body.simps) simp
      from 1(2) [OF False e [symmetric] Interrupted this 1(4)] show ?thesis .
    next
      case Ended
      with 1(3) False e show ?thesis by (subst (asm) receive_body.simps) simp
    qed
  qed
qed

lemma receive_body_chunk_returns:
  "st = Body_chunk i offset amount \<Longrightarrow> quiet part (rt_uploads r) \<Longrightarrow> \<exists>p. receive_body env st whole arrived k r s = Some p"
proof (induction env st whole arrived k r s rule: receive_body.induct)
  case (1 env st whole arrived k r s)
  show ?case
  proof (cases "whole \<le> arrived")
    case True
    then show ?thesis by (subst receive_body.simps) auto
  next
    case False
    obtain e k1 where e: "sock_recv (min (unat (whole - arrived)) FAST_UPLOAD_READ_BYTES) k = (e, k1)" by force
    show ?thesis
    proof (cases e)
      case (Arrived data)
      obtain y r1 s1 where w: "write_piece env st arrived data r s = Some (y, r1, s1)"
        using write_chunk_returns [OF 1(4)] 1(3) by fastforce
      with 1(3,4) have q: "quiet part (rt_uploads r1)" using write_chunk_tidy [where part = part and n = 0] by (fastforce simp: tidy_def)
      show ?thesis
      proof (cases y)
        case (Inl failure)
        with False e Arrived w show ?thesis by (subst receive_body.simps) auto
      next
        case (Inr u)
        from 1(1) [OF False e [symmetric] Arrived w refl Inr refl 1(3) q] False e Arrived w Inr show ?thesis by (subst receive_body.simps) auto
      qed
    next
      case Interrupted
      from 1(2) [OF False e [symmetric] Interrupted 1(3,4)] False e Interrupted show ?thesis by (subst receive_body.simps) auto
    next
      case Ended
      with False e show ?thesis by (subst receive_body.simps) auto
    qed
  qed
qed

lemma stream_body_chunk_returns:
  assumes "quiet part (rt_uploads r)"
  shows "\<exists>p. stream_body env (Body_chunk i offset amount) whole buffered k r s = Some p"
proof -
  obtain y r1 s1 where w: "router_upload_stream_write_chunk env r i (offset + 0) buffered s = Some (y, r1, s1)"
    using write_chunk_returns [OF assms] by metis
  then have "quiet part (rt_uploads r1)" using write_chunk_tidy [OF w, of part 0] assms by (simp add: tidy_def)
  with w assms receive_body_chunk_returns [OF refl] show ?thesis
    by (auto simp: stream_body_def split: sum.splits)
qed

text \<open>The body of a file: all of it is in the file, or at most the temporary file has changed.\<close>

definition direct_outcome ::
  "nat \<Rightarrow> nat \<Rightarrow> byte list \<Rightarrow> byte list \<Rightarrow> socket \<Rightarrow> router \<Rightarrow> os \<Rightarrow> bool \<times> socket \<times> router \<times> os \<Rightarrow> bool" where
  "direct_outcome d n data bytes k r s p \<longleftrightarrow>
     (case p of (ok, k', r', s') \<Rightarrow>
        sk_sends k' = sk_sends k \<and> sk_outgoing k' = sk_outgoing k \<and>
        (if ok
         then (\<exists>x. prefix x bytes \<and> directing d n (data @ x) (rt_uploads r') s' \<and>
                length (data @ x) = unat (sl_expected (mg_slot (rt_uploads r)))) \<and>
              same_terms (rt_uploads r) (rt_uploads r') \<and> only_file n s s'
         else quiet (sl_part_path (mg_slot (rt_uploads r))) (rt_uploads r') \<and>
              only_upload (sl_part_path (mg_slot (rt_uploads r))) n s s'))"

lemma direct_outcome_step:
  assumes "direct_outcome d n (data @ x) bytes k1 r1 s1 p" "same_terms (rt_uploads r) (rt_uploads r1)" "only_file n s s1"
    "sk_sends k1 = sk_sends k \<and> sk_outgoing k1 = sk_outgoing k"
  shows "direct_outcome d n data (x @ bytes) k r s p"
proof -
  obtain ok k' r' s' where p: "p = (ok, k', r', s')" by (metis prod_cases4)
  show ?thesis
  proof (cases ok)
    case True
    with assms(1) obtain y where "prefix y bytes" "directing d n ((data @ x) @ y) (rt_uploads r') s'"
      "length ((data @ x) @ y) = unat (sl_expected (mg_slot (rt_uploads r1)))"
      by (auto simp: direct_outcome_def p)
    then have "\<exists>x'. prefix x' (x @ bytes) \<and> directing d n (data @ x') (rt_uploads r') s' \<and>
        length (data @ x') = unat (sl_expected (mg_slot (rt_uploads r1)))"
      by (intro exI [of _ "x @ y"]) simp
    with True assms show ?thesis
      by (auto simp: direct_outcome_def p same_terms_def intro: only_file_trans)
  next
    case False
    with assms show ?thesis
      by (auto simp: direct_outcome_def p same_terms_def intro: only_upload_trans only_file_upload)
  qed
qed

lemma directing_arrived:
  "directing d n data m s \<Longrightarrow> unat (of_nat (length data) :: u64) = length data \<and> length data \<le> unat (sl_expected (mg_slot m))"
  using unat_of_nat_u64 [of "length data"] unat_u64_bound [of "sl_expected (mg_slot m)"]
  by (simp add: directing_def direct_slot_def)

lemma receive_body_direct:
  "receive_body env st whole arrived k r s = Some p \<Longrightarrow> st = Whole_body (sl_id (mg_slot (rt_uploads r))) \<Longrightarrow>
   directing d n data (rt_uploads r) s \<Longrightarrow> whole = sl_expected (mg_slot (rt_uploads r)) \<Longrightarrow> arrived = of_nat (length data) \<Longrightarrow>
   direct_outcome d n data (wire (sk_incoming k)) k r s p"
proof (induction env st whole arrived k r s arbitrary: data p rule: receive_body.induct)
  case (1 env st whole arrived k r s)
  note inv = 1(5) and room = directing_arrived [OF 1(5)]
  show ?case
  proof (cases "whole \<le> arrived")
    case True
    with 1(3) have "p = (True, k, r, s)" by (subst (asm) receive_body.simps) simp
    moreover have "length data = unat whole" using True room 1(6,7) by (simp add: word_le_nat_alt)
    ultimately show ?thesis using inv 1(6) by (auto simp: direct_outcome_def only_file_def intro!: exI [of _ "[]"])
  next
    case False
    let ?room = "min (unat (whole - arrived)) FAST_UPLOAD_READ_BYTES"
    obtain e k1 where e: "sock_recv ?room k = (e, k1)" by force
    note frame = sock_recv_frame [OF e]
    have failing: "direct_outcome d n data bytes k r s (False, k1, r, s)" for bytes
      using frame directing_quiet [OF inv] by (simp add: direct_outcome_def)
    have "0 < ?room" using False by (simp add: body_room)
    with e show ?thesis
    proof (cases rule: sock_recv_cases)
      case ended
      with 1(3) False e have "p = (False, k1, r, s)" by (subst (asm) receive_body.simps) simp
      with failing show ?thesis by simp
    next
      case interrupted
      with 1(3) False e have "receive_body env st whole arrived k1 r s = Some p" by (subst (asm) receive_body.simps) simp
      from 1(2) [OF False e [symmetric] interrupted(1) this 1(4-7)] interrupted(2) frame
      show ?thesis by (simp add: direct_outcome_def split: prod.splits)
    next
      case (arrived x)
      have small: "length x < 2 ^ 64" using arrived(3) by (simp add: FAST_UPLOAD_READ_BYTES_def)
      from 1(3) False e arrived(1) obtain y r1 s1 where w: "write_piece env st (of_nat (length data)) x r s = Some (y, r1, s1)"
        using 1(7) by (subst (asm) receive_body.simps) (auto split: option.splits)
      note piece = write_direct_piece [OF inv refl small, of env y r1 s1]
      show ?thesis
      proof (cases y)
        case (Inl failure)
        with 1(3,7) False e arrived(1) w have "p = (False, k1, r1, s1)" by (subst (asm) receive_body.simps) simp
        with piece w 1(4) Inl frame show ?thesis by (simp add: direct_outcome_def)
      next
        case (Inr u)
        with piece w 1(4) have next_state: "directing d n (data @ x) (rt_uploads r1) s1" "same_terms (rt_uploads r) (rt_uploads r1)" "only_file n s s1"
          by simp_all
        have W: "write_piece env st arrived x r s = Some (Inr u, r1, s1)" using w Inr 1(7) by simp
        have more: "receive_body env st whole (arrived + of_nat (length x)) k1 r1 s1 = Some p"
          using 1(3) False e arrived(1) W by (subst (asm) receive_body.simps) simp
        have "direct_outcome d n (data @ x) (wire (sk_incoming k1)) k1 r1 s1 p"
          by (rule 1(1) [OF False e [symmetric] arrived(1) W refl refl refl more _ next_state(1)])
            (use next_state(2) 1(4,6,7) in \<open>simp_all add: same_terms_def\<close>)
        from direct_outcome_step [OF this next_state(2,3)] frame arrived(4) show ?thesis by simp
      qed
    qed
  qed
qed

lemma receive_body_direct_returns:
  "st = Whole_body (sl_id (mg_slot (rt_uploads r))) \<Longrightarrow> directing d n data (rt_uploads r) s \<Longrightarrow>
   \<exists>p. receive_body env st whole arrived k r s = Some p"
proof (induction env st whole arrived k r s arbitrary: data rule: receive_body.induct)
  case (1 env st whole arrived k r s)
  show ?case
  proof (cases "whole \<le> arrived")
    case True
    then show ?thesis by (subst receive_body.simps) auto
  next
    case False
    let ?room = "min (unat (whole - arrived)) FAST_UPLOAD_READ_BYTES"
    obtain e k1 where e: "sock_recv ?room k = (e, k1)" by force
    have "0 < ?room" using False by (simp add: body_room)
    with e show ?thesis
    proof (cases rule: sock_recv_cases)
      case ended
      with False e show ?thesis by (subst receive_body.simps) auto
    next
      case interrupted
      from 1(2) [OF False e [symmetric] interrupted(1) 1(3,4)] False e interrupted(1) show ?thesis by (subst receive_body.simps) auto
    next
      case (arrived x)
      have small: "length x < 2 ^ 64" using arrived(3) by (simp add: FAST_UPLOAD_READ_BYTES_def)
      obtain y r1 s1 where piece: "router_upload_stream_write_direct env r (sl_id (mg_slot (rt_uploads r))) x s = Some (y, r1, s1)"
        using write_direct_returns [OF 1(4) refl small] by blast
      then have w: "write_piece env st arrived x r s = Some (y, r1, s1)" using 1(3) by simp
      show ?thesis
      proof (cases y)
        case (Inl failure)
        with False e arrived(1) w show ?thesis by (subst receive_body.simps) auto
      next
        case (Inr u)
        with write_direct_piece [OF 1(4) refl small piece] have step: "directing d n (data @ x) (rt_uploads r1) s1"
          "st = Whole_body (sl_id (mg_slot (rt_uploads r1)))" using 1(3) by (simp_all add: same_terms_def)
        from 1(1) [OF False e [symmetric] arrived(1) w refl Inr refl step(2,1)] False e arrived(1) w Inr
        show ?thesis by (subst receive_body.simps) auto
      qed
    qed
  qed
qed

lemma stream_body_direct:
  assumes "stream_body env st whole buffered k r s = Some p" "st = Whole_body (sl_id (mg_slot (rt_uploads r)))"
    "directing d n [] (rt_uploads r) s" "whole = sl_expected (mg_slot (rt_uploads r))" "length buffered < 2 ^ 64"
  shows "direct_outcome d n [] (buffered @ wire (sk_incoming k)) k r s p"
proof -
  have failing: "direct_outcome d n [] bytes k r s (False, k, r, s)" for bytes
    using directing_quiet [OF assms(3)] by (simp add: direct_outcome_def)
  consider "p = (False, k, r, s)" | "buffered = []" "receive_body env st whole 0 k r s = Some p"
    | "buffered \<noteq> []" "\<not> whole < of_nat (length buffered)" by (cases "buffered = []") (use assms(1) in \<open>auto simp: stream_body_def split: if_splits\<close>)
  then show ?thesis
  proof cases
    case 1
    with failing show ?thesis by simp
  next
    case 2
    from receive_body_direct [OF 2(2) assms(2,3,4)] 2(1) show ?thesis by simp
  next
    case 3
    then obtain y r1 s1 where w: "write_piece env st 0 buffered r s = Some (y, r1, s1)"
      using assms(1) by (auto simp: stream_body_def split: option.splits)
    note piece = write_direct_piece [OF assms(3) refl assms(5), of env y r1 s1]
    show ?thesis
    proof (cases y)
      case (Inl failure)
      with assms(1) 3 w have "p = (False, k, r1, s1)" by (simp add: stream_body_def)
      with piece w assms(2) Inl show ?thesis by (simp add: direct_outcome_def)
    next
      case (Inr u)
      with piece w assms(2) have step: "directing d n buffered (rt_uploads r1) s1" "same_terms (rt_uploads r) (rt_uploads r1)" "only_file n s s1"
        by simp_all
      have "receive_body env st whole (of_nat (length buffered)) k r1 s1 = Some p" using assms(1) 3 w Inr by (simp add: stream_body_def)
      from receive_body_direct [OF this _ step(1) _ refl] step(2) assms(2,4)
      have "direct_outcome d n ([] @ buffered) (wire (sk_incoming k)) k r1 s1 p" by (simp add: same_terms_def)
      from direct_outcome_step [OF this step(2,3)] show ?thesis by simp
    qed
  qed
qed

lemma stream_body_direct_returns:
  assumes "st = Whole_body (sl_id (mg_slot (rt_uploads r)))" "directing d n [] (rt_uploads r) s" "length buffered < 2 ^ 64"
  shows "\<exists>p. stream_body env st whole buffered k r s = Some p"
proof -
  obtain y r1 s1 where w: "router_upload_stream_write_direct env r (sl_id (mg_slot (rt_uploads r))) buffered s = Some (y, r1, s1)"
    using write_direct_returns [OF assms(2) refl assms(3)] by blast
  have more: "\<exists>p. receive_body env st whole (of_nat (length buffered)) k r1 s1 = Some p" if "isl y = False"
    using write_direct_piece [OF assms(2) refl assms(3) w] that assms(1)
    by (intro receive_body_direct_returns [where data = "[] @ buffered" and d = d and n = n]) (auto simp: same_terms_def isl_def split: sum.splits)
  show ?thesis using w more assms(1) receive_body_direct_returns [OF assms(1,2)]
    by (auto simp: stream_body_def split: sum.splits)
qed

section \<open>A file\<close>

text \<open>The first bytes of the body are in a new file at the final place; nothing else but the temporary name differs.\<close>

definition fast_stored :: "nat \<Rightarrow> upload_slot \<Rightarrow> byte list \<Rightarrow> os \<Rightarrow> os \<Rightarrow> bool" where
  "fast_stored n x body s s' \<longleftrightarrow>
     (let data = take (unat (sl_expected x)) body
      in length data = unat (sl_expected x) \<and> (sl_expected_hash x = [] \<or> sl_expected_hash x = sha256_hex (sha256_spec data)) \<and>
         os_names s (sl_final_path x) = None \<and> os_names s' (sl_final_path x) = Some (Regular n) \<and> inode_bytes (os_files s' n) = data \<and>
         (\<forall>p. p \<noteq> sl_final_path x \<longrightarrow> p \<noteq> sl_part_path x \<longrightarrow> os_names s' p = os_names s p) \<and>
         (\<forall>k. k \<noteq> n \<longrightarrow> os_files s' k = os_files s k))"

text \<open>The connection is answered with a response that satisfies \<open>P\<close>, with the text for a preflight, or not at all.\<close>

definition answered :: "socket \<Rightarrow> socket \<Rightarrow> (router_response \<Rightarrow> bool) \<Rightarrow> bool" where
  "answered k k' P \<longleftrightarrow>
     sk_outgoing k' = sk_outgoing k \<or>
     (\<exists>k1. sk_sends k1 = sk_sends k \<and> sk_outgoing k1 = sk_outgoing k \<and>
       ((\<exists>origin. sk_outgoing k' = sk_outgoing (snd (send_preflight k1 origin))) \<or>
        (\<exists>rs origin. P rs \<and> sk_outgoing k' = sk_outgoing (snd (send_response k1 rs origin)))))"

definition completed_reply :: "upload_slot \<Rightarrow> byte list \<Rightarrow> router_response \<Rightarrow> bool" where
  "completed_reply x body rs \<longleftrightarrow> rs_status rs = 201 \<and>
     (\<exists>metrics. rs_body rs = map uchar (completed_text (sha256_hex (sha256_spec (take (unat (sl_expected x)) body))) metrics))"

definition fast_outcome :: "nat \<Rightarrow> upload_slot \<Rightarrow> byte list \<Rightarrow> socket \<Rightarrow> os \<Rightarrow> socket \<Rightarrow> os \<Rightarrow> bool" where
  "fast_outcome n x body k s k' s' \<longleftrightarrow>
     fast_stored n x body s s' \<and> answered k k' (completed_reply x body) \<or>
     only_upload (sl_part_path x) n s s' \<and> answered k k' (\<lambda>rs. rs_status rs \<noteq> 201)"

lemma answered_response:
  "sk_sends k1 = sk_sends k \<and> sk_outgoing k1 = sk_outgoing k \<Longrightarrow> P rs \<Longrightarrow> answered k (snd (send_response k1 rs origin)) P"
  by (auto simp: answered_def)

lemma fast_file:
  assumes "fast_stream env q buffered (Whole_body i) k r s = Some (k', r', s')" "prepared d n m0 s0" "same_store s0 s1"
    "upload_begin m0 i client authorization (fq_content_length q) s1 = (UPLOAD_OK, rt_uploads r, s)" "length buffered < 2 ^ 64"
  shows "fast_outcome n (mg_slot m0) (buffered @ wire (sk_incoming k)) k s0 k' s'"
proof -
  let ?x = "mg_slot m0" and ?body = "buffered @ wire (sk_incoming k)"
  have "prepared d n m0 s1" using assms(2,3) by (simp add: prepared_def same_store_def stored_def)
  from begin_direct [OF assms(4) this] obtain m2 where enabled: "upload_enable_direct_stream (rt_uploads r) i = (UPLOAD_OK, m2)"
    and m2: "directing d n [] m2 s" "same_terms m0 m2" "only_file n s0 s" "i = sl_id ?x" "fq_content_length q = sl_expected ?x"
    using assms(3) by (auto simp: only_file_def same_store_def)
  let ?r = "r\<lparr>rt_uploads := m2\<rparr>"
  have direct: "router_upload_stream_enable_direct env r i s = Some (Inr (), ?r, s)"
    using enabled by (simp add: router_upload_stream_enable_direct_def or_abort_def)
  obtain ok k1 r1 s1 where body: "stream_body env (Whole_body i) (fq_content_length q) buffered k ?r s = Some (ok, k1, r1, s1)"
    using assms(1) direct by (auto simp: fast_stream_def split: option.splits)
  have outcome: "direct_outcome d n [] ?body k ?r s (ok, k1, r1, s1)"
    by (rule stream_body_direct [OF body _ _ _ assms(5)]) (use m2 in \<open>simp_all add: same_terms_def\<close>)
  show ?thesis
  proof (cases ok)
    case False
    then obtain r2 s2 where abort: "abort_stream (Whole_body i) r1 s1 = Some (r2, s2)" and out: "k' = k1" "s' = s2"
      using assms(1) direct body by (auto simp: fast_stream_def)
    have "only_upload (sl_part_path ?x) n s0 s2"
      using False outcome abort_stream_tidy [OF abort, of "sl_part_path ?x" n] m2(2) only_file_upload [OF m2(3)]
      by (auto simp: direct_outcome_def tidy_def same_terms_def intro: only_upload_trans)
    then show ?thesis using False outcome out by (simp add: fast_outcome_def answered_def direct_outcome_def)
  next
    case True
    then obtain rs r2 s2 where finish: "router_upload_stream_finish env r1 i s1 = Some (rs, r2, s2)"
      and out: "k' = snd (send_response k1 rs (Some (fq_origin q)))" "s' = s2"
      using assms(1) direct body by (auto simp: fast_stream_def)
    from True outcome obtain data where data: "prefix data ?body" "directing d n data (rt_uploads r1) s1" "length data = unat (sl_expected ?x)"
      and terms: "same_terms m0 (rt_uploads r1)" "only_file n s0 s1" and frame: "sk_sends k1 = sk_sends k" "sk_outgoing k1 = sk_outgoing k"
      using m2(2,3) by (auto simp: direct_outcome_def same_terms_def intro: only_file_trans)
    have first: "take (unat (sl_expected ?x)) ?body = data"
    using data(1) by (metis data(3) append_eq_conv_conj prefixE)
    obtain res digest where fin: "upload_finish_with_metrics (ev_build env) (rt_uploads r1) i s1 = Some (res, digest, rt_uploads r2, s2)"
      and reply: "rs_status rs = 201 \<Longrightarrow> res = UPLOAD_OK \<and> rs_body rs = map uchar (completed_text digest (mg_last_metrics (rt_uploads r2)))"
        "res = UPLOAD_OK \<Longrightarrow> length digest = 64 \<Longrightarrow> rs_status rs = 201"
      using finish_reply [OF finish] by metis
    have fd: "if res = UPLOAD_OK then finished n data (rt_uploads r1) s1 res digest (rt_uploads r2) s2
        else only_upload (sl_part_path (mg_slot (rt_uploads r1))) n s1 s2"
      by (rule finish_directing [OF data(2) _ fin]) (use terms m2(4) in \<open>simp add: same_terms_def\<close>)
    show ?thesis
    proof (cases "res = UPLOAD_OK")
      case good: True
      with fd finished_earlier [OF _ terms] have "finished n data m0 s0 UPLOAD_OK digest (rt_uploads r2) s2" by simp
      then have stored: "fast_stored n ?x ?body s0 s2" and digest: "digest = sha256_hex (sha256_spec data)"
        by (auto simp: finished_def fast_stored_def Let_def first data(3) simp del: take_append)
      have "rs_status rs = 201" by (rule reply(2) [OF good]) (simp add: digest sha256_hex_encode)
      with reply(1) digest have "completed_reply ?x ?body rs" by (auto simp: completed_reply_def first simp del: take_append)
      with stored answered_response [of k1 k "completed_reply ?x ?body"] frame show ?thesis by (simp add: fast_outcome_def out)
    next
      case failed: False
      with fd terms have "only_upload (sl_part_path ?x) n s0 s2"
        by (auto simp: same_terms_def intro: only_upload_trans only_file_upload)
      moreover have "rs_status rs \<noteq> 201" using failed reply(1) by blast
      ultimately show ?thesis using answered_response [of k1 k "\<lambda>rs. rs_status rs \<noteq> 201"] frame by (simp add: fast_outcome_def out)
    qed
  qed
qed

section \<open>A connection\<close>

lemma begin_refusal:
  assumes "router_upload_stream_begin_ex env r request len s = Some (Inl rs, r', s')"
  shows "rs_status rs \<noteq> 201"
proof -
  have cancel: "rs_status rs \<noteq> 201" if "cancel_stream r1 request i failure s1 = Some (Inl rs, r2, s2)" "\<And>s. rs_status (failure s) \<noteq> 201" for r1 i failure s1 r2 s2
    using that by (auto simp: cancel_stream_def split: option.splits)
  show ?thesis
    using assms upload_error_not_created
    by (auto simp: router_upload_stream_begin_ex_def begin_chunk_def begin_whole_def Let_def
        simp del: upload_error_status split: option.splits if_splits prod.splits bool.splits dest!: cancel)
qed

lemma begin_chunk_start:
  "router_upload_stream_begin_ex env r request len s = Some (Inr (Body_chunk i offset amount), r', s') \<Longrightarrow> rq_content_range request \<noteq> None"
  by (auto simp: router_upload_stream_begin_ex_def begin_whole_def cancel_stream_def Let_def
    split: option.splits if_splits prod.splits bool.splits)

lemma answered_error:
  "status \<noteq> 201 \<Longrightarrow> sk_sends k1 = sk_sends k \<and> sk_outgoing k1 = sk_outgoing k \<Longrightarrow>
   answered k (snd (send_simple_error k1 status a b origin)) (\<lambda>rs. rs_status rs \<noteq> 201)"
  using answered_response [of k1 k "\<lambda>rs. rs_status rs \<noteq> 201"] by (auto simp: send_simple_error_def Let_def answered_def)

lemma stream_body_chunk:
  assumes "stream_body env (Body_chunk i offset amount) whole buffered k r s = Some (ok, k1, r1, s1)"
  shows "kept_tidy part n r s r1 s1"
proof -
  note tidy = write_chunk_tidy [where part = part and n = n] receive_body_chunk [OF _ refl, where part = part and n = n]
  show ?thesis
    using assms by (auto simp: stream_body_def split: if_splits option.splits sum.splits dest!: tidy intro: tidy_trans)
qed

text \<open>A chunk changes no file and no name.\<close>

lemma fast_chunk:
  assumes "fast_stream env q buffered (Body_chunk i offset amount) k r s = Some (k', r', s')"
  shows "kept_tidy part n r s r' s'"
proof -
  obtain ok k1 r1 s1 where body: "stream_body env (Body_chunk i offset amount) (fq_content_length q) buffered k r s = Some (ok, k1, r1, s1)"
    using assms by (auto simp: fast_stream_def split: option.splits)
  have step: "kept_tidy part n r s r1 s1" by (rule stream_body_chunk [OF body])
  have "kept_tidy part n r1 s1 r' s'"
  proof (cases ok)
    case False
    with assms body show ?thesis by (auto simp: fast_stream_def simp del: abort_stream.simps intro: abort_stream_tidy)
  next
    case True
    obtain fine routed r2 s2 where f: "router_upload_stream_finish_chunk env r1 i offset amount s1 = (fine, routed, r2, s2)" by (metis prod_cases4)
    obtain r3 s3 where a: "router_upload_stream_abort_chunk r2 i offset s2 = (r3, s3)" by force
    from True assms body f a have "(r', s') \<in> {(r2, s2), (r3, s3)}" by (cases fine) (auto simp: fast_stream_def)
    with finish_chunk_tidy [OF f, of part n] abort_chunk_tidy [OF a, of part n] show ?thesis by (auto intro: tidy_trans)
  qed
  with step show ?thesis by (rule tidy_trans)
qed

lemma served:
  assumes "serve_request env ui_port bound_port address q buffer k r s = Some (k', r', s')" "prepared d n (rt_uploads r) s"
    "length buffer < 2 ^ 64"
  shows "fast_outcome n (mg_slot (rt_uploads r)) (take (fq_buffered_bytes q) (drop (fq_body_offset q) buffer) @ wire (sk_incoming k)) k s k' s' \<or>
    fq_content_range q \<noteq> [] \<and> only_upload (sl_part_path (mg_slot (rt_uploads r))) n s s'"
proof -
  let ?x = "mg_slot (rt_uploads r)" and ?buffered = "take (fq_buffered_bytes q) (drop (fq_body_offset q) buffer)"
  note quiet = prepared_quiet [OF assms(2)]
  have kept: ?thesis if "answered k k' (\<lambda>rs. rs_status rs \<noteq> 201)" "r' = r" "s' = s"
    using that by (simp add: fast_outcome_def)
  show ?thesis
  proof (cases "validate_origin ui_port bound_port q")
    case None
    with assms(1) answered_error [of 403 k k] show ?thesis by (intro kept) (auto simp: serve_request_def)
  next
    case (Some ui)
    consider "fq_method q = ''OPTIONS''" | "fq_method q \<noteq> ''OPTIONS''" "fq_method q \<noteq> ''PUT''" | "fq_method q = ''PUT''" by blast
    then show ?thesis
    proof cases
      case 1
      with assms(1) Some show ?thesis by (intro kept) (auto simp: serve_request_def answered_def)
    next
      case 2
      with assms(1) Some answered_error [of 405 k k] show ?thesis by (intro kept) (auto simp: serve_request_def)
    next
      case 3
      let ?request = "fast_router_request q ui (socket_address_text address)"
        and ?len = "if fq_has_content_length q then Some (fq_content_length q) else None"
      from assms(1) Some 3 obtain y r1 s1 where b: "router_upload_stream_begin_ex env r ?request ?len s = Some (y, r1, s1)"
        by (auto simp: serve_request_def split: option.splits)
      have began: "quiet (sl_part_path ?x) (rt_uploads r1)" "only_upload (sl_part_path ?x) n s s1"
        using begin_tidy [OF b, of "sl_part_path ?x" n] quiet by (simp_all add: tidy_def)
      show ?thesis
      proof (cases y)
        case (Inl failure)
        with assms(1) Some 3 b have "k' = snd (send_response k failure (Some (fq_origin q)))" "s' = s1" by (auto simp: serve_request_def)
        with began(2) begin_refusal b Inl answered_response [of k k "\<lambda>rs. rs_status rs \<noteq> 201"] show ?thesis by (simp add: fast_outcome_def)
      next
        case (Inr st)
        with assms(1) Some 3 b have run: "fast_stream env q ?buffered st k r1 s1 = Some (k', r', s')" by (simp add: serve_request_def)
        show ?thesis
        proof (cases st)
          case (Whole_body i)
          from begin_whole_ok [OF b [unfolded Inr Whole_body]] obtain s0 client authorization amount where
            u: "same_store s s0" "upload_begin (rt_uploads r) i client authorization amount s0 = (UPLOAD_OK, rt_uploads r1, s1)" "?len = Some amount"
            by metis
          then have amount: "amount = fq_content_length q" by (simp split: if_splits)
          have "length ?buffered < 2 ^ 64" using assms(3) by simp
          from fast_file [OF run [unfolded Whole_body] assms(2) u(1) u(2) [unfolded amount] this] show ?thesis by simp
        next
          case (Body_chunk i offset amount)
          have "fq_content_range q \<noteq> []" using begin_chunk_start b Inr Body_chunk by (fastforce simp: fast_router_request_def split: if_splits)
          moreover have "only_upload (sl_part_path ?x) n s s'"
            using fast_chunk [OF run [unfolded Body_chunk], of "sl_part_path ?x" n] began by (auto simp: tidy_def intro: only_upload_trans)
          ultimately show ?thesis by simp
        qed
      qed
    qed
  qed
qed

text \<open>A connection that finds a prepared upload ends, without waiting for anything but its socket.\<close>

lemma fast_file_returns:
  assumes "prepared d n m0 s1" "upload_begin m0 i client authorization (fq_content_length q) s1 = (UPLOAD_OK, rt_uploads r, s)" "length buffered < 2 ^ 64"
  shows "\<exists>p. fast_stream env q buffered (Whole_body i) k r s = Some p"
proof -
  from begin_direct [OF assms(2,1)] obtain m2 where enabled: "upload_enable_direct_stream (rt_uploads r) i = (UPLOAD_OK, m2)"
    and m2: "directing d n [] m2 s" "sl_id (mg_slot m2) = i"
    "fq_content_length q = sl_expected (mg_slot m2)" by (auto simp: same_terms_def)
  let ?r = "r\<lparr>rt_uploads := m2\<rparr>"
  have direct: "router_upload_stream_enable_direct env r i s = Some (Inr (), ?r, s)"
    using enabled by (simp add: router_upload_stream_enable_direct_def or_abort_def)
  have st: "Whole_body i = Whole_body (sl_id (mg_slot (rt_uploads ?r)))" using m2 by simp
  have inv: "directing d n [] (rt_uploads ?r) s" using m2 by simp
  obtain ok k1 r1 s2 where body: "stream_body env (Whole_body i) (fq_content_length q) buffered k ?r s = Some (ok, k1, r1, s2)"
    using stream_body_direct_returns [OF st inv assms(3), of env "fq_content_length q" k] by auto
  from stream_body_direct [OF body st inv _ assms(3)] m2(3)
  have outcome: "direct_outcome d n [] (buffered @ wire (sk_incoming k)) k ?r s (ok, k1, r1, s2)" by simp
  show ?thesis
  proof (cases ok)
    case False
    with outcome have "quiet (sl_part_path (mg_slot m2)) (rt_uploads r1)" by (simp add: direct_outcome_def)
    from abort_stream_returns [OF this, of "Whole_body i" s2] direct body False show ?thesis by (auto simp: fast_stream_def)
  next
    case True
    with outcome obtain data where data: "directing d n data (rt_uploads r1) s2" by (auto simp: direct_outcome_def)
    obtain m3 s3 where reap: "reap_now (rt_uploads r1) s2 = (m3, s3)" by force
    have "sl_fast_direct (mg_slot m3)" if "owns m3 i" using reap_now_owns [OF reap that] data by (simp add: directing_def direct_slot_def)
    then have "\<exists>p. upload_finish_start (rt_uploads r1) i s2 = Some p"
      using reap by (auto simp: upload_finish_start_def split: prod.splits)
    then have "\<exists>p. router_upload_stream_finish env r1 i s2 = Some p"
      by (auto simp: router_upload_stream_finish_def upload_finish_with_metrics_def Let_def split: prod.splits)
    with direct body True show ?thesis by (auto simp: fast_stream_def)
  qed
qed

lemma fast_chunk_returns:
  assumes "quiet part (rt_uploads r)"
  shows "\<exists>p. fast_stream env q buffered (Body_chunk i offset amount) k r s = Some p"
proof -
  obtain ok k1 r1 s1 where body: "stream_body env (Body_chunk i offset amount) (fq_content_length q) buffered k r s = Some (ok, k1, r1, s1)"
    using stream_body_chunk_returns [OF assms] by (metis prod_cases4)
  have "kept_tidy part 0 r s r1 s1" by (rule stream_body_chunk [OF body])
  with assms have "quiet part (rt_uploads r1)" by (simp add: tidy_def)
  from abort_stream_returns [OF this, of "Body_chunk i offset amount" s1] body show ?thesis
    by (cases ok) (auto simp: fast_stream_def split: prod.splits bool.splits)
qed

lemma served_returns:
  assumes "prepared d n (rt_uploads r) s" "length buffer < 2 ^ 64"
  shows "\<exists>p. serve_request env ui_port bound_port address q buffer k r s = Some p"
proof (cases "validate_origin ui_port bound_port q")
  case (Some ui)
  let ?request = "fast_router_request q ui (socket_address_text address)"
    and ?len = "if fq_has_content_length q then Some (fq_content_length q) else None"
    and ?buffered = "take (fq_buffered_bytes q) (drop (fq_body_offset q) buffer)"
  obtain y r1 s1 where b: "router_upload_stream_begin_ex env r ?request ?len s = Some (y, r1, s1)"
    using begin_returns [OF prepared_quiet [OF assms(1)]] by metis
  have "\<exists>p. fast_stream env q ?buffered st k r1 s1 = Some p" if y: "y = Inr st" for st
  proof (cases st)
    case (Whole_body i)
    from begin_whole_ok [OF b [unfolded y Whole_body]] obtain s0 client authorization amount where
      u: "same_store s s0" "upload_begin (rt_uploads r) i client authorization amount s0 = (UPLOAD_OK, rt_uploads r1, s1)" "?len = Some amount"
      by metis
    have "prepared d n (rt_uploads r) s0" using assms(1) u(1) by (simp add: prepared_def same_store_def stored_def)
    moreover have "amount = fq_content_length q" using u(3) by (simp split: if_splits)
    ultimately show ?thesis using fast_file_returns [of d n "rt_uploads r" s0 i client authorization q r1 s1 ?buffered] u(2) assms(2) Whole_body by simp
  next
    case (Body_chunk i offset amount)
    have "quiet (sl_part_path (mg_slot (rt_uploads r))) (rt_uploads r1)"
      using begin_tidy [OF b, of "sl_part_path (mg_slot (rt_uploads r))" 0] prepared_quiet [OF assms(1)] by (simp add: tidy_def)
    from fast_chunk_returns [OF this] Body_chunk show ?thesis by simp
  qed
  with Some b show ?thesis by (cases y) (auto simp: serve_request_def)
qed (simp add: serve_request_def)

lemma connection_returns:
  assumes "prepared d n (rt_uploads r) s"
  shows "\<exists>k' r' s'. connection_main env ui_port bound_port address k r s = Some (k', r', s')"
proof -
  obtain ok s1 where a: "allocate s = (ok, s1)" by force
  have ready: "prepared d n (rt_uploads r) s1" using assms allocate_store [OF a] by (simp add: prepared_def same_store_def stored_def)
  obtain h buffer k1 where h: "receive_headers [] k = (h, buffer, k1)" by (rule prod_cases3)
  have start: "parse_request [] = Incomplete" by (simp add: parse_request_def)
  note headers = receive_headers_wire [OF h start, simplified]
  have "\<exists>p. serve_request env ui_port bound_port address q buffer k1 r s1 = Some p" if "h = Some q" for q
    using headers that by (intro served_returns [OF ready]) (auto simp: FAST_UPLOAD_HEADER_BYTES_def)
  then show ?thesis by (cases ok; cases h) (auto simp: connection_main_def a h)
qed

text \<open>The request that a connection brings, if any.\<close>

definition brings :: "socket \<Rightarrow> fast_request \<Rightarrow> bool" where
  "brings k q \<longleftrightarrow> parse_request (take FAST_UPLOAD_HEADER_BYTES (wire (sk_incoming k))) = Parsed q"

lemma connection_cases:
  assumes "connection_main env ui_port bound_port address k r s = Some (k', r', s')"
  obtains (refused) status a b k1 s1 where "same_store s s1" "status \<noteq> 201" "sk_sends k1 = sk_sends k \<and> sk_outgoing k1 = sk_outgoing k"
      "k' = (snd (send_simple_error k1 status a b None))\<lparr>sk_open := False\<rparr>" "r' = r" "s' = s1"
    | (read) p q buffer k1 k2 s1 where "same_store s s1" "brings k p" "q = p\<lparr>fq_buffered_bytes := length buffer - fq_body_offset p\<rparr>"
      "serve_request env ui_port bound_port address q buffer k1 r s1 = Some (k2, r', s')" "k' = k2\<lparr>sk_open := False\<rparr>"
      "sk_sends k1 = sk_sends k \<and> sk_outgoing k1 = sk_outgoing k" "length buffer \<le> FAST_UPLOAD_HEADER_BYTES"
      "take (fq_buffered_bytes q) (drop (fq_body_offset q) buffer) @ wire (sk_incoming k1) = drop (fq_body_offset p) (wire (sk_incoming k))"
proof -
  obtain ok s1 where a: "allocate s = (ok, s1)" by force
  note store = allocate_store [OF a]
  show thesis
  proof (cases ok)
    case False
    with assms a show thesis by (intro refused [OF store, of 500 k]) (auto simp: connection_main_def)
  next
    case True
    obtain h buffer k1 where h: "receive_headers [] k = (h, buffer, k1)" by (rule prod_cases3)
    have start: "parse_request [] = Incomplete" by (simp add: parse_request_def)
    note headers = receive_headers_wire [OF h start, simplified]
    show thesis
    proof (cases h)
      case None
      with True assms a h headers show thesis by (intro refused [OF store, of 400 k1]) (auto simp: connection_main_def)
    next
      case (Some q)
      from Some headers have w: "wire (sk_incoming k) = buffer @ wire (sk_incoming k1)" "length buffer \<le> FAST_UPLOAD_HEADER_BYTES"
        "parse_request buffer = Parsed q" and frame: "sk_sends k1 = sk_sends k \<and> sk_outgoing k1 = sk_outgoing k" by simp_all
      note place = parse_request_offset [OF w(3)]
      define p where "p = q\<lparr>fq_buffered_bytes := length (take FAST_UPLOAD_HEADER_BYTES (wire (sk_incoming k))) - fq_body_offset q\<rparr>"
      have "take FAST_UPLOAD_HEADER_BYTES (wire (sk_incoming k)) =
          buffer @ take (FAST_UPLOAD_HEADER_BYTES - length buffer) (wire (sk_incoming k1))"
        using w(1,2) by simp
      with parse_request_append [of buffer "take (FAST_UPLOAD_HEADER_BYTES - length buffer) (wire (sk_incoming k1))"] w(3)
      have br: "brings k p" by (simp add: brings_def counted_def p_def)
      have qq: "q = p\<lparr>fq_buffered_bytes := length buffer - fq_body_offset p\<rparr>" using place by (cases q) (simp add: p_def)
      obtain k2 where sv: "serve_request env ui_port bound_port address q buffer k1 r s1 = Some (k2, r', s')" "k' = k2\<lparr>sk_open := False\<rparr>"
        using assms True a h Some by (auto simp: connection_main_def)
      show thesis by (rule read [OF store br qq sv frame w(2)]) (use w(1) place in \<open>simp add: p_def\<close>)
    qed
  qed
qed

lemma connection_stores:
  assumes "connection_main env ui_port bound_port address k r s = Some (k', r', s')" "prepared d n (rt_uploads r) s"
  defines "x \<equiv> mg_slot (rt_uploads r)"
  shows "(\<exists>q. brings k q \<and> fast_stored n x (drop (fq_body_offset q) (wire (sk_incoming k))) s s' \<and>
        answered k k' (completed_reply x (drop (fq_body_offset q) (wire (sk_incoming k))))) \<or>
    only_upload (sl_part_path x) n s s' \<and> (answered k k' (\<lambda>rs. rs_status rs \<noteq> 201) \<or> (\<exists>q. brings k q \<and> fq_content_range q \<noteq> []))"
  using assms(1)
proof (cases rule: connection_cases)
  case (refused status a b k1 s1)
  with answered_error [of status k1 k a b None] show ?thesis by (auto simp: answered_def same_store_upload)
next
  case (read p q buffer k1 k2 s1)
  let ?body = "drop (fq_body_offset p) (wire (sk_incoming k))"
  have "prepared d n (rt_uploads r) s1" using assms(2) read(1) by (simp add: prepared_def same_store_def stored_def)
  from served [OF read(4) this] read(7) have "fast_outcome n x ?body k1 s1 k2 s' \<or>
      fq_content_range q \<noteq> [] \<and> only_upload (sl_part_path x) n s1 s'" by (simp add: FAST_UPLOAD_HEADER_BYTES_def read(8) x_def)
  moreover have "fast_stored n x ?body s1 s' = fast_stored n x ?body s s'"
    "only_upload (sl_part_path x) n s1 s' = only_upload (sl_part_path x) n s s'"
    using read(1) by (simp_all add: fast_stored_def only_upload_def same_store_def)
  moreover have "answered k1 k2 P = answered k k' P" for P using read(5,6) by (simp add: answered_def)
  ultimately show ?thesis using read(2,3) by (auto simp: fast_outcome_def)
qed

text \<open>C2: What an upload over the fast listener stores, from the packets to the file: while a file is prepared, let one
  connection be served, whatever it brings, in any pieces and with any interruption and failing system call.  It
  comes to its end.  Either the bytes that follow the header of its request, as many as were announced, stand in a new file at the
  announced place, where nothing was before, they have the announced digest if one was announced, and the answer
  is 201 with their SHA-256 digest; or no name but the temporary one and no file but the temporary one has
  changed, and the answer, if there is one, is not 201 (other than for a chunk, which is only kept in memory).\<close>
theorem fast_upload_stores:
  assumes "prepared d n (rt_uploads r) s"
  shows "\<exists>k' r' s'. connection_main env ui_port bound_port address k r s = Some (k', r', s') \<and>
    ((\<exists>q. brings k q \<and> fast_stored n (mg_slot (rt_uploads r)) (drop (fq_body_offset q) (wire (sk_incoming k))) s s' \<and>
        answered k k' (completed_reply (mg_slot (rt_uploads r)) (drop (fq_body_offset q) (wire (sk_incoming k))))) \<or>
     only_upload (sl_part_path (mg_slot (rt_uploads r))) n s s' \<and>
      (answered k k' (\<lambda>rs. rs_status rs \<noteq> 201) \<or> (\<exists>q. brings k q \<and> fq_content_range q \<noteq> [])))"
proof -
  obtain k' r' s' where run: "connection_main env ui_port bound_port address k r s = Some (k', r', s')"
    using connection_returns [OF assms] by blast
  from connection_stores [OF run assms] run show ?thesis by blast
qed

section \<open>Who may use the listener\<close>

text \<open>An authority is a host and a number, with a colon between them.\<close>

definition authority_is :: "string \<Rightarrow> string \<Rightarrow> u16 \<Rightarrow> bool" where
  "authority_is authority host p \<longleftrightarrow> (\<exists>t. authority = host @ CHR '':'' # t \<and> parse_length t = Some (ucast p))"

lemma small_port: "p \<le> 65535 \<Longrightarrow> ucast (ucast p :: u16) = (p :: u64)"
  by (simp add: word_eq_unat unsigned_ucast_eq unsigned_take_bit_eq take_bit_nat_eq_self_iff word_le_nat_alt)

lemma split_authority_text:
  assumes "split_authority authority capacity = Some (host, p)"
  shows "authority_is authority host p"
proof -
  from assms obtain t n where pair: "(if authority = [] then None
            else if hd authority = CHR ''[''
            then (case split_at_first CHR '']'' authority of
                    None \<Rightarrow> None
                  | Some (a, rest) \<Rightarrow> (if rest = [] \<or> hd rest \<noteq> CHR '':'' then None else Some (a @ '']'', tl rest)))
            else if split_at_last CHR '':'' authority = None \<or>
                    split_at_first CHR '':'' authority \<noteq> split_at_last CHR '':'' authority then None
            else split_at_last CHR '':'' authority) = Some (host, t)"
    and n: "parse_length t = Some n" "\<not> 65535 < n" "p = ucast n"
    unfolding split_authority_def by (auto split: option.splits prod.splits if_splits)
  have "authority = host @ CHR '':'' # t"
  proof (cases "hd authority = CHR ''[''")
    case True
    with pair obtain a c where "split_at_first CHR '']'' authority = Some (a, c)" "c \<noteq> []" "hd c = CHR '':''" "host = a @ '']''" "t = tl c"
      by (auto split: if_splits option.splits)
    with split_at_first_Some [of "CHR '']''" authority a c] show ?thesis by (cases c) auto
  next
    case False
    with pair show ?thesis by (auto split: if_splits dest: split_at_last_Some)
  qed
  with n show ?thesis by (auto simp: authority_is_def small_port not_less)
qed

text \<open>A page of the receiver itself: its origin names the port of the pages, and the host that the request was sent to.\<close>

definition from_page :: "u16 \<Rightarrow> u16 \<Rightarrow> fast_request \<Rightarrow> string \<Rightarrow> bool" where
  "from_page ui_port bound_port q authority \<longleftrightarrow> fq_origin q = ''http://'' @ authority \<and>
     (\<exists>host host'. authority_is authority host ui_port \<and> authority_is (fq_host q) host' bound_port \<and> map to_lower host = map to_lower host')"

lemma validate_origin_page:
  assumes "validate_origin ui_port bound_port q = Some authority"
  shows "from_page ui_port bound_port q authority"
proof -
  have "take 7 (fq_origin q) = ''http://''" "authority = drop 7 (fq_origin q)"
    using assms by (auto simp: validate_origin_def Let_def split: if_splits option.splits prod.splits)
  then have "fq_origin q = ''http://'' @ authority" by (metis append_take_drop_id)
  moreover obtain host host' where "split_authority authority 256 = Some (host, ui_port)"
    "split_authority (fq_host q) 256 = Some (host', bound_port)" "same_caseless host host'"
    using assms by (auto simp: validate_origin_def Let_def split: if_splits option.splits prod.splits)
  ultimately show ?thesis using split_authority_text unfolding from_page_def same_caseless_def by metis
qed

text \<open>C5: Only a page of the receiver with a session can do anything over the fast listener: a connection changes no
  upload, no setting, no name and no file, unless its request is a PUT whose origin is http:// and the port of the
  pages on the very host (up to case) that the request was sent to with the port of this listener, and the
  router's own check of origin and session admits it.\<close>
theorem fast_listener_guarded:
  assumes "connection_main env ui_port bound_port address k r s = Some (k', r', s')"
  shows "untouched r s r' s' \<or>
    (\<exists>q authority t. brings k q \<and> fq_method q = ''PUT'' \<and> from_page ui_port bound_port q authority \<and> same_store s t \<and>
       allowed r (fast_router_request q authority (socket_address_text address)) t)"
  using assms
proof (cases rule: connection_cases)
  case (refused status a b k1 s1)
  then show ?thesis using untouchedI [of s s1 r "rt_auth r"] by simp
next
  case (read p q buffer k1 k2 s1)
  have start: "untouched r s r s1" using untouchedI [of s s1 r "rt_auth r"] read(1) by simp
  have request: "fast_router_request q = fast_router_request p" "fq_method q = fq_method p" "from_page ui_port bound_port q = from_page ui_port bound_port p"
    by (simp_all add: read(3) fast_router_request_def from_page_def fun_eq_iff)
  show ?thesis
  proof (cases "validate_origin ui_port bound_port q")
    case None
    with read(4) start show ?thesis by (auto simp: serve_request_def)
  next
    case (Some ui)
    show ?thesis
    proof (cases "fq_method q = ''PUT''")
      case False
      with read(4) start Some show ?thesis by (auto simp: serve_request_def split: if_splits)
    next
      case True
      let ?request = "fast_router_request q ui (socket_address_text address)"
        and ?len = "if fq_has_content_length q then Some (fq_content_length q) else None"
      show ?thesis
      proof (cases "allowed r ?request s1")
        case True
        with read(1,2) \<open>fq_method q = ''PUT''\<close> validate_origin_page [OF Some] request show ?thesis by metis
      next
        case False
        obtain y r1 s2 where b: "router_upload_stream_begin_ex env r ?request ?len s1 = Some (y, r1, s2)"
          using read(4) Some \<open>fq_method q = ''PUT''\<close> by (auto simp: serve_request_def split: option.splits)
        from begin_guarded [OF b False] read(4) Some \<open>fq_method q = ''PUT''\<close> b
        have "untouched r s1 r' s'" by (auto simp: serve_request_def)
        with read(1) show ?thesis by (auto simp: untouched_def intro: same_store_trans)
      qed
    qed
  qed
qed

end
