(* ===== verification/FastExample.thy ===== *)
theory FastExample
  imports FastRuns
begin

text \<open>
  The three bytes of the earlier examples, over the fast listener; two of them come with the header.
\<close>

definition example_header :: string where
  "example_header = ''PUT /api/v1/uploads/'' @ example_id @ '' HTTP/1.1'' @ crlf @ ''Host: PS5:81'' @ crlf @
     ''Origin: http://ps5:80'' @ crlf @ ''Content-Type: application/octet-stream'' @ crlf @ ''Content-Length: 3''"

definition example_socket :: socket where
  "example_socket =
     \<lparr>sk_incoming = [Interrupted, Arrived (map uchar (example_header @ crlf @ crlf) @ [1, 2]), Arrived [3]],
      sk_sends = [Send_interrupted, Sent 10], sk_outgoing = [], sk_open = True\<rparr>"

abbreviation "example_line_path \<equiv> ''PUT /api/v1/uploads/'' @ example_id @ '' HTTP/1.1''"

lemma header_lines_step:
  assumes "split_line t = Some (line, rest)" "split_at_first CHR '':'' line = Some (name, v)" "header_field (trim name) (trim v) q = Some q'"
  shows "header_lines t q = header_lines rest q'"
proof -
  have "t \<noteq> []" using assms(1) by auto
  then show ?thesis using assms by (subst header_lines.simps) simp
qed

lemma header_lines_last:
  assumes "t \<noteq> []" "split_line t = None" "split_at_first CHR '':'' t = Some (name, v)" "header_field (trim name) (trim v) q = Some q'"
  shows "header_lines t q = Some q'"
  using assms by (simp add: header_lines.simps [of t])

lemma one_digit: "parse_length ''3'' = Some 3" "parse_length ''80'' = Some 80" "parse_length ''81'' = Some 81"
  using strtoull_digits [of "''3''" "[]"] strtoull_digits [of "''80''" "[]"] strtoull_digits [of "''81''" "[]"]
  by (simp_all add: parse_length_def dec_value_def isdigit_def)

definition example_parsed :: "nat \<Rightarrow> fast_request" where
  "example_parsed amount =
     no_request\<lparr>fq_method := ''PUT'', fq_path := ''/api/v1/uploads/'' @ example_id, fq_host := ''PS5:81'', fq_origin := ''http://ps5:80'',
       fq_content_type := ''application/octet-stream'', fq_content_length := 3, fq_has_content_length := True,
       fq_body_offset := length example_header + 4, fq_buffered_bytes := amount\<rparr>"

lemma example_end: "header_end (map uchar (example_header @ crlf @ crlf) @ [1, 2]) = Some (length example_header)"
  by code_simp

lemma example_text: "cstr (map byte_char (take (length example_header) (map uchar (example_header @ crlf @ crlf) @ [1, 2]))) = example_header"
  by code_simp

lemma example_lines:
  "split_line example_header = Some (example_line_path, ''Host: PS5:81'' @ crlf @ ''Origin: http://ps5:80'' @ crlf @
     ''Content-Type: application/octet-stream'' @ crlf @ ''Content-Length: 3'')"
  "scan_request_line example_line_path = Some (''PUT'', ''/api/v1/uploads/'' @ example_id)"
  by code_simp+

lemma example_fields:
  "header_lines (''Host: PS5:81'' @ crlf @ ''Origin: http://ps5:80'' @ crlf @
     ''Content-Type: application/octet-stream'' @ crlf @ ''Content-Length: 3'')
     (no_request\<lparr>fq_method := ''PUT'', fq_path := ''/api/v1/uploads/'' @ example_id, fq_body_offset := length example_header + 4,
        fq_buffered_bytes := amount\<rparr>) = Some (example_parsed amount)"
proof -
  have lines: "split_line (''Host: PS5:81'' @ crlf @ t) = Some (''Host: PS5:81'', t)"
    "split_line (''Origin: http://ps5:80'' @ crlf @ t) = Some (''Origin: http://ps5:80'', t)"
    "split_line (''Content-Type: application/octet-stream'' @ crlf @ t) = Some (''Content-Type: application/octet-stream'', t)"
    "split_line ''Content-Length: 3'' = None" for t
    by (simp_all add: crlf_def)
  have parts: "split_at_first CHR '':'' ''Host: PS5:81'' = Some (''Host'', '' PS5:81'')"
    "split_at_first CHR '':'' ''Origin: http://ps5:80'' = Some (''Origin'', '' http://ps5:80'')"
    "split_at_first CHR '':'' ''Content-Type: application/octet-stream'' = Some (''Content-Type'', '' application/octet-stream'')"
    "split_at_first CHR '':'' ''Content-Length: 3'' = Some (''Content-Length'', '' 3'')"
    by code_simp+
  have trims: "trim ''Host'' = ''Host''" "trim '' PS5:81'' = ''PS5:81''" "trim ''Origin'' = ''Origin''" "trim '' http://ps5:80'' = ''http://ps5:80''"
    "trim ''Content-Type'' = ''Content-Type''" "trim '' application/octet-stream'' = ''application/octet-stream''"
    "trim ''Content-Length'' = ''Content-Length''" "trim '' 3'' = ''3''"
    by code_simp+
  have names: "\<not> same_caseless ''Origin'' ''Host''" "\<not> same_caseless ''Content-Type'' ''Host''" "\<not> same_caseless ''Content-Type'' ''Origin''"
    "\<not> same_caseless ''Content-Type'' ''Authorization''" "\<not> same_caseless ''Content-Length'' ''Host''" "\<not> same_caseless ''Content-Length'' ''Origin''"
    "\<not> same_caseless ''Content-Length'' ''Authorization''" "\<not> same_caseless ''Content-Length'' ''Content-Type''"
    "\<not> same_caseless ''Content-Length'' ''Content-Range''"
    by code_simp+
  have same: "same_caseless a a" for a by (simp add: same_caseless_def)
  note field = header_field_def set_once_def copy_header_value_def names same
  let ?q0 = "no_request\<lparr>fq_method := ''PUT'', fq_path := ''/api/v1/uploads/'' @ example_id, fq_body_offset := length example_header + 4,
    fq_buffered_bytes := amount\<rparr>"
  let ?q1 = "?q0\<lparr>fq_host := ''PS5:81''\<rparr>" let ?q2 = "?q1\<lparr>fq_origin := ''http://ps5:80''\<rparr>"
  let ?q3 = "?q2\<lparr>fq_content_type := ''application/octet-stream''\<rparr>"
  have q1: "header_field (trim ''Host'') (trim '' PS5:81'') ?q0 = Some ?q1"
    unfolding trims by (simp add: field no_request_def)
  have q2: "header_field (trim ''Origin'') (trim '' http://ps5:80'') ?q1 = Some ?q2"
    unfolding trims by (simp add: field no_request_def)
  have q3: "header_field (trim ''Content-Type'') (trim '' application/octet-stream'') ?q2 = Some ?q3"
    unfolding trims by (simp add: field no_request_def)
  have q4: "header_field (trim ''Content-Length'') (trim '' 3'') ?q3 = Some (example_parsed amount)"
    unfolding trims by (simp add: field one_digit example_parsed_def no_request_def)
  show ?thesis
    using header_lines_step [OF lines(1) parts(1) q1] header_lines_step [OF lines(2) parts(2) q2] header_lines_step [OF lines(3) parts(3) q3]
      header_lines_last [OF _ lines(4) parts(4) q4] by simp
qed

abbreviation "example_buffer \<equiv> map uchar (example_header @ crlf @ crlf) @ [1, 2 :: byte]"

lemma example_length: "length example_header < 300" by code_simp

lemma example_buffer_length: "length example_buffer = length example_header + 6" by (simp add: crlf_def)

lemma example_request: "parse_request example_buffer = Parsed (example_parsed 2)"
proof -
  have count: "length example_buffer - (length example_header + 4) = 2" unfolding example_buffer_length by simp
  show ?thesis
    unfolding parse_request_def example_end option.case example_text example_lines prod.case count example_fields by (rule refl)
qed

lemma sock_recv_whole:
  "data \<noteq> [] \<Longrightarrow> length data \<le> capacity \<Longrightarrow> sk_incoming k = Arrived data # es \<Longrightarrow>
   sock_recv capacity k = (Arrived data, k\<lparr>sk_incoming := es\<rparr>)"
  by (cases data) (simp_all add: sock_recv_def)

lemma example_received:
  "receive_headers [] example_socket =
    (Some (example_parsed 2), example_buffer, example_socket\<lparr>sk_incoming := [Arrived [3]]\<rparr>)"
proof -
  let ?k1 = "example_socket\<lparr>sk_incoming := [Arrived example_buffer, Arrived [3]]\<rparr>"
  have "length example_buffer \<le> FAST_UPLOAD_HEADER_BYTES" using example_length example_buffer_length by (simp add: FAST_UPLOAD_HEADER_BYTES_def)
  then have recv: "sock_recv FAST_UPLOAD_HEADER_BYTES ?k1 = (Arrived example_buffer, ?k1\<lparr>sk_incoming := [Arrived [3]]\<rparr>)"
    by (intro sock_recv_whole) simp_all
  have first: "sock_recv FAST_UPLOAD_HEADER_BYTES example_socket = (Interrupted, ?k1)"
    by (simp add: sock_recv_def example_socket_def)
  have positive: "\<not> FAST_UPLOAD_HEADER_BYTES \<le> 0" by (simp add: FAST_UPLOAD_HEADER_BYTES_def)
  have "receive_headers [] ?k1 = (Some (example_parsed 2), example_buffer, ?k1\<lparr>sk_incoming := [Arrived [3]]\<rparr>)"
    using recv positive example_request by (subst receive_headers.simps) simp
  then show ?thesis using first positive by (subst receive_headers.simps) simp
qed

lemma example_page: "validate_origin 80 81 (example_parsed 2) = Some ''ps5:80''"
proof -
  have splits: "split_at_last CHR '':'' ''ps5:80'' = Some (''ps5'', ''80'')" "split_at_first CHR '':'' ''ps5:80'' = Some (''ps5'', ''80'')"
    "split_at_last CHR '':'' ''PS5:81'' = Some (''PS5'', ''81'')" "split_at_first CHR '':'' ''PS5:81'' = Some (''PS5'', ''81'')"
    "same_caseless ''ps5'' ''PS5''" by code_simp+
  have "split_authority ''ps5:80'' 256 = Some (''ps5'', 80)" "split_authority ''PS5:81'' 256 = Some (''PS5'', 81)"
    by (simp_all add: split_authority_def splits one_digit)
  then show ?thesis by (simp add: validate_origin_def example_parsed_def splits)
qed

lemma example_begun:
  obtains m1 s1 where "upload_begin http_manager example_id ''c'' ''NoAuth'' 3 http_os = (UPLOAD_OK, m1, s1)"
    "router_upload_stream_begin_ex example_env http_router (fast_router_request (example_parsed 2) ''ps5:80'' ''c'') (Some 3) http_os =
       Some (Inr (Whole_body example_id), http_router\<lparr>rt_uploads := m1\<rparr>, s1)" "calm 5 m1 s1"
proof -
  obtain d n where ready: "prepared d n http_manager http_os" by (rule http_ready)
  obtain m1 s1 where b: "upload_begin http_manager example_id ''c'' ''NoAuth'' 3 http_os = (UPLOAD_OK, m1, s1)"
    using upload_begin_calm [OF ready http_calm] unfolding http_terms by metis
  have p: "upload_id_from_path (''/api/v1/uploads/'' @ example_id) = Some example_id" "valid_host (Some ''ps5:80'')" by code_simp+
  have router: "rt_auth_mode http_router = CONFIG_AUTH_NONE" "rt_uploads http_router = http_manager"
    by (simp_all add: http_router_def example_router_def)
  have "router_upload_stream_begin_ex example_env http_router (fast_router_request (example_parsed 2) ''ps5:80'' ''c'') (Some 3) http_os =
      Some (Inr (Whole_body example_id), http_router\<lparr>rt_uploads := m1\<rparr>, s1)"
    using b p by (simp add: router_upload_stream_begin_ex_def fast_router_request_def example_parsed_def no_request_def same_origin_def
        authorized_def router begin_whole_def request_authorization_def Let_def)
  moreover have "calm 5 m1 s1"
    using stream_run_calm [OF stream_run.stream_begin [OF b] ready http_calm] by simp
  ultimately show thesis using b that by blast
qed

lemma example_descriptor: "sl_fd (mg_slot http_manager) \<noteq> Some (os_next http_os)"
proof -
  have "case http_prepare of (r, p, m, s) \<Rightarrow> sl_fd (mg_slot m) \<noteq> Some (os_next s)" by code_simp
  then show ?thesis by (simp add: http_prepare_eq)
qed

lemma begin_next:
  assumes "upload_begin m i client authorization amount s = (UPLOAD_OK, m', s')" "calm now m s"
  shows "os_next s' = os_next s"
  using assms(1) calm_reap [OF assms(2)] touch_next read_nanos_next
  by (fastforce simp: upload_begin_def split: if_splits prod.splits)

text \<open>The calls for the three bytes succeed.\<close>

lemma example_calls:
  assumes "upload_begin http_manager example_id ''c'' ''NoAuth'' 3 http_os = (UPLOAD_OK, m1, s1)" "calm 5 m1 s1"
  obtains m2 m3 s3 m4 s4 digest m5 s5 where "upload_enable_direct_stream m1 example_id = (UPLOAD_OK, m2)"
    "upload_write_direct m2 example_id [1, 2] s1 = (UPLOAD_OK, m3, s3)" "upload_write_direct m3 example_id [3] s3 = (UPLOAD_OK, m4, s4)"
    "upload_finish_with_metrics PS5 m4 example_id s4 = Some (UPLOAD_OK, digest, m5, s5)" "os_names s5 ''/data/in/f'' \<noteq> None"
proof -
  obtain d n where ready: "prepared d n http_manager http_os" by (rule http_ready)
  then have fd: "d \<noteq> os_next http_os" using example_descriptor by (auto simp: prepared_def)
  from begin_direct [OF assms(1) ready] obtain m2 where 2: "upload_enable_direct_stream m1 example_id = (UPLOAD_OK, m2)"
    "directing d n [] m2 s1" "same_terms http_manager m2" "only_file n http_os s1" by blast
  have calm2: "calm 5 m2 s1" using 2(1) assms(2) by (auto simp: upload_enable_direct_stream_def calm_def split: if_splits)
  have terms: "sl_id (mg_slot m2) = example_id" "sl_expected (mg_slot m2) = 3" using 2(3) http_terms by (simp_all add: same_terms_def)
  obtain m3 s3 where 3: "upload_write_direct m2 example_id [1, 2] s1 = (UPLOAD_OK, m3, s3)" "calm 5 m3 s3" "os_next s3 = os_next s1"
    using write_direct_calm [OF 2(2) calm2, of "[1, 2]"] terms by auto
  have inv3: "directing d n [1, 2] m3 s3" "same_terms m2 m3" "only_file n s1 s3"
    using write_direct_directing [OF 2(2) terms(1) [symmetric] _ 3(1)] by simp_all
  have terms3: "sl_id (mg_slot m3) = example_id" "sl_expected (mg_slot m3) = 3" using inv3(2) terms by (simp_all add: same_terms_def)
  obtain m4 s4 where 4: "upload_write_direct m3 example_id [3] s3 = (UPLOAD_OK, m4, s4)" "calm 5 m4 s4" "os_next s4 = os_next s3"
    using write_direct_calm [OF inv3(1) 3(2), of "[3]"] terms3 by auto
  have inv4: "directing d n [1, 2, 3] m4 s4" "same_terms m3 m4" "only_file n s3 s4"
    using write_direct_directing [OF inv3(1) terms3(1) [symmetric] _ 4(1)] by simp_all
  have terms4: "same_terms http_manager m4" using 2(3) inv3(2) inv4(2) by (auto intro: same_terms_trans)
  have names: "os_names s4 = os_names http_os" using 2(4) inv3(3) inv4(3) by (simp add: only_file_def)
  have "os_next s4 \<noteq> d" using fd begin_next [OF assms(1) http_calm] 3(3) 4(3) by simp
  moreover have own: "sl_id (mg_slot m4) = example_id" using terms4 http_terms by (simp add: same_terms_def)
  ultimately obtain digest m5 s5 where fin: "upload_finish_with_metrics PS5 m4 example_id s4 = Some (UPLOAD_OK, digest, m5, s5)"
    using finish_direct_calm [OF inv4(1) 4(2), of PS5] terms4 http_terms http_free names parent_exists_cong [OF names]
    by (auto simp: same_terms_def)
  have "finished n [1, 2, 3] m4 s4 UPLOAD_OK digest m5 s5" using finish_directing [OF inv4(1) own [symmetric] fin] by simp
  then have "os_names s5 ''/data/in/f'' \<noteq> None" using terms4 http_terms by (auto simp: finished_def Let_def same_terms_def)
  with 2(1) 3(1) 4(1) fin show thesis by (rule that)
qed

abbreviation "fast_example \<equiv> connection_main example_env 80 81 (AF_INET, ''c'') example_socket http_router http_os"

lemma example_rest:
  assumes "router_upload_stream_write_direct example_env r example_id [3] s = Some (Inr (), r', s')"
  shows "receive_body example_env (Whole_body example_id) 3 2 (example_socket\<lparr>sk_incoming := [Arrived [3]]\<rparr>) r s =
    Some (True, example_socket\<lparr>sk_incoming := []\<rparr>, r', s')"
proof -
  have recv: "sock_recv (min (unat (3 - 2 :: u64)) FAST_UPLOAD_READ_BYTES) (example_socket\<lparr>sk_incoming := [Arrived [3]]\<rparr>) =
      (Arrived [3], example_socket\<lparr>sk_incoming := []\<rparr>)"
    by (simp add: sock_recv_def FAST_UPLOAD_READ_BYTES_def)
  have "receive_body example_env (Whole_body example_id) 3 (2 + of_nat (length [3 :: byte])) (example_socket\<lparr>sk_incoming := []\<rparr>) r' s' =
      Some (True, example_socket\<lparr>sk_incoming := []\<rparr>, r', s')"
    by (subst receive_body.simps) simp
  then show ?thesis using recv assms by (subst receive_body.simps) simp
qed

lemma example_served: "\<exists>k' r' s'. fast_example = Some (k', r', s') \<and> os_names s' ''/data/in/f'' \<noteq> None"
proof -
  obtain m1 s1 where 1: "upload_begin http_manager example_id ''c'' ''NoAuth'' 3 http_os = (UPLOAD_OK, m1, s1)"
    "router_upload_stream_begin_ex example_env http_router (fast_router_request (example_parsed 2) ''ps5:80'' ''c'') (Some 3) http_os =
       Some (Inr (Whole_body example_id), http_router\<lparr>rt_uploads := m1\<rparr>, s1)" "calm 5 m1 s1" by (rule example_begun)
  obtain m2 m3 s3 m4 s4 digest m5 s5 where calls: "upload_enable_direct_stream m1 example_id = (UPLOAD_OK, m2)"
    "upload_write_direct m2 example_id [1, 2] s1 = (UPLOAD_OK, m3, s3)" "upload_write_direct m3 example_id [3] s3 = (UPLOAD_OK, m4, s4)"
    "upload_finish_with_metrics PS5 m4 example_id s4 = Some (UPLOAD_OK, digest, m5, s5)" "os_names s5 ''/data/in/f'' \<noteq> None"
    by (rule example_calls [OF 1(1,3)])
  let ?r = "\<lambda>m. http_router\<lparr>rt_uploads := m\<rparr>" and ?k = "example_socket\<lparr>sk_incoming := [Arrived [3]]\<rparr>"
  have router: "router_upload_stream_enable_direct example_env (?r m1) example_id s1 = Some (Inr (), ?r m2, s1)"
    "router_upload_stream_write_direct example_env (?r m2) example_id [1, 2] s1 = Some (Inr (), ?r m3, s3)"
    "router_upload_stream_write_direct example_env (?r m3) example_id [3] s3 = Some (Inr (), ?r m4, s4)"
    using calls by (simp_all add: router_upload_stream_enable_direct_def router_upload_stream_write_direct_def or_abort_def)
  have body: "stream_body example_env (Whole_body example_id) 3 [1, 2] ?k (?r m2) s1 = Some (True, example_socket\<lparr>sk_incoming := []\<rparr>, ?r m4, s4)"
    using router(2) example_rest [OF router(3)] by (simp add: stream_body_def)
  obtain rs where finish: "router_upload_stream_finish example_env (?r m4) example_id s4 = Some (rs, ?r m5, s5)"
    using calls(4) by (auto simp: router_upload_stream_finish_def example_env_def Let_def)
  have len: "fq_content_length (example_parsed 2) = 3" "fq_has_content_length (example_parsed 2)" "fq_method (example_parsed 2) = ''PUT''"
    "fq_buffered_bytes (example_parsed 2) = 2" "fq_body_offset (example_parsed 2) = length example_header + 4"
    by (simp_all add: example_parsed_def no_request_def)
  have stream: "fast_stream example_env (example_parsed 2) [1, 2] (Whole_body example_id) ?k (?r m1) s1 =
      Some (snd (send_response (example_socket\<lparr>sk_incoming := []\<rparr>) rs (Some (fq_origin (example_parsed 2)))), ?r m5, s5)"
    using router(1) body finish len by (simp add: fast_stream_def)
  have buffered: "take (fq_buffered_bytes (example_parsed 2)) (drop (fq_body_offset (example_parsed 2)) example_buffer) = [1, 2]"
    by (simp add: len crlf_def)
  have address: "socket_address_text (AF_INET, ''c'') = ''c''" by (simp add: socket_address_text_def AUTH_CLIENT_ADDRESS_BYTES_def)
  have served: "serve_request example_env 80 81 (AF_INET, ''c'') (example_parsed 2) example_buffer ?k http_router http_os =
      Some (snd (send_response (example_socket\<lparr>sk_incoming := []\<rparr>) rs (Some (fq_origin (example_parsed 2)))), ?r m5, s5)"
    unfolding serve_request_def example_page option.case address buffered using len 1(2) stream by simp
  have "allocate http_os = (True, http_os)" using http_calm by (simp add: calm_def allocate_def next_fault_def)
  then have run: "fast_example = Some ((snd (send_response (example_socket\<lparr>sk_incoming := []\<rparr>) rs (Some (fq_origin (example_parsed 2)))))\<lparr>sk_open := False\<rparr>, ?r m5, s5)"
    using served by (simp add: connection_main_def example_received del: map_append append_assoc)
  with calls(5) show ?thesis by blast
qed

text \<open>The connection of the example stores its three bytes.\<close>

lemma example_wire: "wire (sk_incoming example_socket) = example_buffer @ [3]"
  by (simp add: example_socket_def)

lemma example_brings: "brings example_socket (example_parsed 3)"
proof -
  have "take FAST_UPLOAD_HEADER_BYTES (wire (sk_incoming example_socket)) = example_buffer @ [3]"
    using example_length example_buffer_length unfolding example_wire by (simp add: FAST_UPLOAD_HEADER_BYTES_def crlf_def)
  moreover have "length (example_buffer @ [3]) - (length example_header + 4) = 3" by (simp add: crlf_def)
  ultimately show ?thesis
    using parse_request_append [of example_buffer "[3]"] example_request
    by (simp add: brings_def counted_def example_parsed_def del: map_append append_assoc)
qed

theorem fast_upload_stores_witness:
  "\<exists>k' r' s' n. fast_example = Some (k', r', s') \<and> os_names s' ''/data/in/f'' = Some (Regular n) \<and> inode_bytes (os_files s' n) = [1, 2, 3]"
proof -
  obtain d n where ready: "prepared d n (rt_uploads http_router) http_os" using http_ready by (auto simp: http_router_def)
  have manager: "rt_uploads http_router = http_manager" by (simp add: http_router_def)
  obtain k' r' s' where run: "fast_example = Some (k', r', s')" "os_names s' ''/data/in/f'' \<noteq> None" using example_served by blast
  have "''/data/in/f'' \<noteq> sl_part_path (mg_slot http_manager)" using http_free(1) ready by (auto simp: prepared_def manager)
  then have "\<not> only_upload (sl_part_path (mg_slot http_manager)) n http_os s'" using run(2) http_free(1) by (auto simp: only_upload_def)
  with fast_upload_stores [OF ready, of example_env 80 81 "(AF_INET, ''c'')" example_socket] run(1) manager obtain q where
    q: "brings example_socket q" "fast_stored n (mg_slot http_manager) (drop (fq_body_offset q) (wire (sk_incoming example_socket))) http_os s'"
    by auto
  have "fq_body_offset q = length example_header + 4" using q(1) example_brings by (simp add: brings_def example_parsed_def)
  then have "drop (fq_body_offset q) (wire (sk_incoming example_socket)) = [1, 2, 3]" unfolding example_wire by (simp add: crlf_def)
  with q(2) http_terms run(1) show ?thesis by (auto simp: fast_stored_def Let_def)
qed

theorem fast_listener_guarded_witness:
  "\<exists>k' r' s' q. fast_example = Some (k', r', s') \<and> brings example_socket q \<and> fq_method q = ''PUT'' \<and> from_page 80 81 q ''ps5:80''"
proof -
  obtain k' r' s' where run: "fast_example = Some (k', r', s')" "os_names s' ''/data/in/f'' \<noteq> None" using example_served by blast
  have "\<not> untouched http_router http_os r' s'" using run(2) http_free(1) by (auto simp: untouched_def same_store_def)
  with fast_listener_guarded [OF run(1)] obtain q authority where q: "brings example_socket q" "fq_method q = ''PUT''" "from_page 80 81 q authority"
    by blast
  have "q = example_parsed 3" using q(1) example_brings by (simp add: brings_def)
  with q(3) have "authority = ''ps5:80''" by (auto simp: from_page_def example_parsed_def)
  with q run(1) show ?thesis by blast
qed

end
