(* ===== verification/StartupProps.thy ===== *)
theory StartupProps
  imports Startup FastExample
begin

text \<open>
  The start of the program: a check of the settings changes nothing, a first start writes settings that the
  next one reads back, and a running server has its two listeners, its router and its upload manager in step.
\<close>

section \<open>Loading\<close>

lemma open_read_names:
  "sys_open_read path s = (fd, t) \<Longrightarrow> os_names t = os_names s \<and> os_files t = os_files s \<and> os_next s \<le> os_next t"
  by (auto simp: sys_open_read_def no_fd_def same_store_def dest!: next_fault_store
      split: prod.splits fault.splits sum.splits option.splits node.splits)

lemma read_names:
  "sys_read fd n s = (r, t) \<Longrightarrow> os_names t = os_names s \<and> os_files t = os_files s \<and> os_next s \<le> os_next t"
  by (auto simp: sys_read_def same_store_def Let_def dest!: next_fault_store split: prod.splits fault.splits option.splits)

lemma read_stream_disk:
  "read_stream fd s = (x, failed, t) \<Longrightarrow> os_names t = os_names s \<and> os_files t = os_files s \<and> os_next s \<le> os_next t"
proof (induction fd s arbitrary: x failed t rule: read_stream.induct)
  case (1 fd s)
  obtain r u where r: "sys_read fd 4096 s = (r, u)" by force
  note u = read_names [OF r]
  show ?case
  proof (cases "r = None \<or> r = Some []")
    case True
    with 1(2) r u show ?thesis by (subst (asm) read_stream.simps) auto
  next
    case False
    then obtain data where data: "r = Some data" "data \<noteq> []" by auto
    obtain y f v where v: "read_stream fd u = (y, f, v)" by (rule prod_cases3)
    from 1(2) r data v have "t = v" by (subst (asm) read_stream.simps) simp
    with 1(1) [OF r [symmetric] data v] u show ?thesis by simp
  qed
qed

lemma sys_close_next: "sys_close fd s = (r, t) \<Longrightarrow> os_next t = os_next s"
  by (auto simp: sys_close_def fails_def same_store_def dest!: next_fault_store split: prod.splits fault.splits if_splits)

lemma config_load_disk:
  assumes "config_load_file path s = (x, t)"
  shows "os_names t = os_names s \<and> os_files t = os_files s \<and> os_next s \<le> os_next t"
proof -
  obtain r u where r: "sys_open_read path s = (r, u)" by force
  note u = open_read_names [OF r]
  show ?thesis
  proof (cases r)
    case None
    with assms r u show ?thesis by (auto simp: config_load_file_def)
  next
    case (Some fd)
    obtain y f v where v: "read_stream fd u = (y, f, v)" by (rule prod_cases3)
    obtain c w where w: "sys_close fd v = (c, w)" by force
    from assms r Some v w have "t = w" by (simp add: config_load_file_def)
    with u read_stream_disk [OF v] sys_close_store [OF w] sys_close_next [OF w] show ?thesis by simp
  qed
qed

lemma load_configuration_checks:
  assumes "load_configuration env garbage path False s = (loaded, c, t)"
  shows "os_names t = os_names s \<and> os_files t = os_files s"
    and "loaded \<longleftrightarrow> fst (fst (config_load_file path s)) = CONFIG_LOAD_OK"
proof -
  obtain x u where "config_load_file path s = (x, u)" by (cases "config_load_file path s")
  moreover obtain r m d where "x = (r, m, d)" by (rule prod_cases3)
  ultimately have l: "config_load_file path s = ((r, m, d), u)" by simp
  note u = config_load_disk [OF l]
  have shown: "os_names (snd (platform_notify b x u)) = os_names u \<and> os_files (snd (platform_notify b x u)) = os_files u" for b x
    using platform_notify_store [of b x u] by (cases "platform_notify b x u") (simp add: same_store_def)
  show "os_names t = os_names s \<and> os_files t = os_files s"
    using assms l u shown by (auto simp: load_configuration_def Let_def split: if_splits)
  show "loaded \<longleftrightarrow> fst (fst (config_load_file path s)) = CONFIG_LOAD_OK"
    using assms l by (auto simp: load_configuration_def Let_def split: if_splits)
qed

section \<open>The command line\<close>

lemma parse_port_range: "parse_port t = Some p \<Longrightarrow> 0 \<le> p \<and> p \<le> 65535"
  by (auto simp: parse_port_def word_le_def linorder_not_less word_less_def split: prod.splits if_splits)

text \<open>The port of the command line is a port, and a check of the settings names the file.\<close>

definition sound_options :: "options \<Rightarrow> bool" where
  "sound_options op \<longleftrightarrow> - 1 \<le> op_port_override op \<and> op_port_override op \<le> 65535 \<and>
     (op_check_only op \<longleftrightarrow> op_requested_path op \<noteq> None) \<and> (op_check_only op \<longleftrightarrow> \<not> op_allow_missing op) \<and> (op_check_only op \<longrightarrow> op_once op)"

lemma parse_arguments_sound: "parse_arguments args op = Some op' \<Longrightarrow> sound_options op \<Longrightarrow> sound_options op'"
proof (induction args op arbitrary: op' rule: parse_arguments.induct)
  case (2 a rest op)
  show ?case
  proof (cases "a = ''--once'' \<and> \<not> op_once op")
    case True
    have "sound_options (op\<lparr>op_once := True\<rparr>)" using "2.prems"(2) by (auto simp: sound_options_def)
    moreover have "parse_arguments rest (op\<lparr>op_once := True\<rparr>) = Some op'" using "2.prems"(1) True by simp
    ultimately show ?thesis using "2.IH"(1) [OF True] by blast
  next
    case False
    with "2.prems" obtain b more' where rest: "rest = b # more'" by (cases rest) auto
    show ?thesis
    proof (cases "a = ''--check-config'' \<and> op_requested_path op = None")
      case True
      let ?op = "op\<lparr>op_requested_path := Some b, op_allow_missing := False, op_once := True, op_check_only := True\<rparr>"
      have "sound_options ?op" using "2.prems"(2) by (auto simp: sound_options_def)
      moreover have "parse_arguments more' ?op = Some op'" using "2.prems"(1) True False rest by simp
      ultimately show ?thesis using "2.IH"(2) [OF False rest True] by blast
    next
      case no: False
      from "2.prems"(1) [unfolded rest parse_arguments.simps list.case if_not_P [OF False] if_not_P [OF no]]
      obtain p where p: "a = ''--port'' \<and> op_port_override op < 0" "parse_port b = Some p"
        "parse_arguments more' (op\<lparr>op_port_override := p\<rparr>) = Some op'" by (auto split: if_splits option.splits)
      have "sound_options (op\<lparr>op_port_override := p\<rparr>)"
        using "2.prems"(2) parse_port_range [OF p(2)] by (auto simp: sound_options_def)
      with "2.IH"(3) [OF False rest no p(1,2)] p(3) show ?thesis by blast
    qed
  qed
qed simp

lemma command_line_sound: "command_line args = Some op \<Longrightarrow> sound_options op \<and> (op_check_only op \<longrightarrow> op_port_override op < 0)"
  using parse_arguments_sound [of args no_options] 
  by (auto simp: command_line_def sound_options_def no_options_def split: option.splits if_splits)

text \<open>A negative number is taken modulo two to the power of 64.\<close>

lemma negative_port: "parse_port ''-18446744073709551615'' = Some 1"
proof -
  have "strtoull ''-18446744073709551615'' = (1, [], False)"
    by (simp add: strtoull_def Let_def dec_value_def isdigit_def isspace_def)
  then show ?thesis by (simp add: parse_port_def)
qed

text \<open>C11: A check of the settings is read-only: with an accepted command line that asks for it, no name and no file of
  the system changes, whatever the file holds and whichever call fails; no server is started, and the exit status is
  zero exactly when the signal handlers could be set and the named file loads without an error.\<close>
theorem check_config_is_readonly:
  assumes "command_line args = Some op" "op_check_only op" "main_start env bt args s = (result, t)"
  shows "os_names t = os_names s \<and> os_files t = os_files s \<and>
    result = Inl (if fst (platform_init (bt_signals bt) False) \<and> fst (fst (config_load_file (the (op_requested_path op)) s)) = CONFIG_LOAD_OK then 0 else 1)"
proof -
  obtain path where op: "op_requested_path op = Some path" "\<not> op_allow_missing op"
    using command_line_sound [OF assms(1)] assms(2) by (auto simp: sound_options_def)
  obtain loaded c u where l: "load_configuration env (bt_garbage bt) path False s = (loaded, c, u)" by (rule prod_cases3)
  from load_configuration_checks [OF l] assms op l show ?thesis
    by (auto simp: main_start_def split: if_splits)
qed

section \<open>The first start\<close>






lemma saved_defaults_load:
  assumes "config_save_file path config_set_defaults s = (True, t)" "own_temporary path s"
    "stored_at u path = stored_at t path" "benign (os_faults u)"
  shows "fst (config_load_file path u) = (CONFIG_LOAD_OK, Some ''ok'', config_set_defaults)"
proof -
  have "no_link (path @ ''.tmp'') s" using assms(2) by (simp add: own_temporary_def)
  from config_save_steps(2) [OF assms(1) this own_temporary_inode [OF assms(2)]] obtain n
    where "stored_at u path = (Some (Regular n), map uchar (config_text config_set_defaults))"
    using assms(3) by (auto simp: stored_at_def)
  moreover have "\<forall>x \<in> set (storage_targets config_set_defaults). CHR ''|'' \<notin> set (st_path x)"
    by (simp add: config_set_defaults_def)
  ultimately show ?thesis
    using config_load_stored [OF _ assms(4)] read_config_text_ok [OF defaults_wf_config] by (simp only: bytes_back) simp
qed





section \<open>The running server\<close>

text \<open>The listener of a pool before its first connection.\<close>

definition new_pool :: "fast_server \<Rightarrow> fast_pool" where
  "new_pool f = \<lparr>fp_server = f, fp_accept = Accepting, fp_workers = Map.empty, fp_open = {}, fp_stopped = False\<rparr>"

lemma fast_started:
  assumes "fst (fast_upload_server_start calls ui_port requested) = Some f"
  shows "ui_port \<noteq> 0 \<and> fs_ui_port f = ui_port \<and> fs_bound_port f \<noteq> 0 \<and> pool_run (new_pool f)"
proof -
  obtain closed where st: "fast_upload_server_start calls ui_port requested = (Some f, closed)"
    using assms by (cases "fast_upload_server_start calls ui_port requested") simp
  from pool_start [OF st] have "pool_run (new_pool f)" by (simp add: new_pool_def)
  then show ?thesis using st by (auto simp: fast_upload_server_start_def new_server_def Let_def split: if_splits option.splits)
qed

lemma start_fast_started: "start_fast calls config_port bound_port = Some f \<Longrightarrow>
    bound_port \<noteq> 0 \<and> fs_ui_port f = bound_port \<and> fs_bound_port f \<noteq> 0 \<and> pool_run (new_pool f)"
  by (auto simp: start_fast_def Let_def dest: fast_started split: option.splits if_splits)

lemma router_init_router:
  assumes "router_init env config s = (Some r, t)"
  shows "rt_config r = config \<and> rt_auth_mode r = auth_mode config \<and> free_manager (rt_uploads r) \<and>
    rt_config_path r = platform_data_dir (ev_build env) (ev_data_dir env) @ ''/config.ini''"
  using assms free_manager_create by (auto simp: router_init_def Let_def split: if_splits option.splits prod.splits)

text \<open>The router and the fast listener agree on the ports, and nothing is being uploaded.\<close>

definition in_step :: "http_server \<Rightarrow> bool" where
  "in_step hs \<longleftrightarrow> hs_bound_port hs \<noteq> 0 \<and> port (rt_config (hs_router hs)) = hs_bound_port hs \<and>
     fs_ui_port (hs_fast hs) = hs_bound_port hs \<and> fs_bound_port (hs_fast hs) \<noteq> 0 \<and>
     rt_fast_upload_port (hs_router hs) = fs_bound_port (hs_fast hs) \<and> rt_auth_mode (hs_router hs) = auth_mode (rt_config (hs_router hs)) \<and>
     free_manager (rt_uploads (hs_router hs)) \<and> pool_run (new_pool (hs_fast hs))"

lemma server_start_in_step:
  assumes "server_start env calls config s = (Some hs, t)"
  shows "in_step hs \<and> rt_config (hs_router hs) = config\<lparr>port := hs_bound_port hs\<rparr> \<and>
    rt_config_path (hs_router hs) = platform_data_dir (ev_build env) (ev_data_dir env) @ ''/config.ini''"
proof -
  obtain r u where r: "router_init env config s = (Some r, u)"
    using assms by (auto simp: server_start_def split: if_splits prod.splits option.splits)
  with assms obtain p f where pf: "start_fast calls (port config) p = Some f"
    "hs = \<lparr>hs_router = router_set_fast_upload_port (router_set_port r p) (fast_upload_server_port (Some f)), hs_fast = f, hs_bound_port = p\<rparr>"
    by (auto simp: server_start_def Let_def split: if_splits option.splits)
  with start_fast_started [OF pf(1)] router_init_router [OF r] show ?thesis
    by (simp add: in_step_def router_set_port_def router_set_fast_upload_port_def fast_upload_server_port_def)
qed

text \<open>C9: A program that gets to its loop is in step: both listeners have a port, other than zero; the
  router tells its clients the port of the fast listener that really runs, and the fast listener checks origins against the
  port of the pages that is really bound, whatever the command line or the file asked for and whichever of the two attempts
  to start it worked; the settings in use are those of the file, within every limit, but for the port, and a change of them goes to
  the file they came from; no upload is under way, and the books of the listener are those of an empty pool.\<close>
theorem running_server_in_step:
  assumes "main_start env bt args s = (Inr hs, t)"
  shows "in_step hs \<and> (\<exists>p. wf_settings ((rt_config (hs_router hs))\<lparr>port := p\<rparr>)) \<and>
    rt_config (hs_router hs) = (snd (snd (fst (config_load_file (rt_config_path (hs_router hs)) s))))\<lparr>port := hs_bound_port hs\<rparr>"
proof -
  obtain op where op: "command_line args = Some op" "fst (platform_init (bt_signals bt) False)"
    using assms by (auto simp: main_start_def split: option.splits if_splits)
  let ?path = "platform_data_dir (ev_build env) (ev_data_dir env) @ ''/config.ini''"
  have start: "op_requested_path op = None" "op_allow_missing op" "\<not> CONFIG_DESTINATION_CAPACITY \<le> length ?path"
    using assms op command_line_sound [OF op(1)]
    by (auto simp: main_start_def sound_options_def Let_def split: option.splits if_splits prod.splits)
  obtain loaded c u where l: "load_configuration env (bt_garbage bt) ?path True s = (loaded, c, u)" by (rule prod_cases3)
  define config where "config = (if 0 \<le> op_port_override op then c\<lparr>port := of_int (op_port_override op)\<rparr> else c)"
  obtain v where v: "server_start env (bt_daemon bt) config u = (Some hs, v)"
    using assms op start l by (auto simp: main_start_def Let_def config_def split: option.splits if_splits prod.splits)
  have c: "c = snd (snd (fst (config_load_file ?path s)))" "wf_settings c"
  proof -
    obtain x s1 where x: "config_load_file ?path s = (x, s1)" by (cases "config_load_file ?path s")
    obtain r m d where xd: "x = (r, m, d)" by (rule prod_cases3)
    from l x xd have "c = d" by (auto simp: load_configuration_def Let_def split: if_splits)
    then show "c = snd (snd (fst (config_load_file ?path s)))" using x xd by simp
    show "wf_settings c"
      using x xd \<open>c = d\<close> parse_config_wf defaults_wf by (auto simp: config_load_file_def split: prod.splits option.splits if_splits)
  qed
  note hs = server_start_in_step [OF v]
  have config: "rt_config (hs_router hs) = c\<lparr>port := hs_bound_port hs\<rparr>" using hs by (simp add: config_def)
  then have "(rt_config (hs_router hs))\<lparr>port := port c\<rparr> = c" by simp
  with c(2) have "wf_settings ((rt_config (hs_router hs))\<lparr>port := port c\<rparr>)" by metis
  moreover have "rt_config (hs_router hs) = (snd (snd (fst (config_load_file (rt_config_path (hs_router hs)) s))))\<lparr>port := hs_bound_port hs\<rparr>"
    using hs config c(1) by metis
  ultimately show ?thesis using hs by blast
qed

section \<open>Examples\<close>

definition example_boot :: boot where
  "example_boot = \<lparr>bt_garbage = [], bt_signals = (True, True, True),
     bt_daemon = \<lparr>dc_memory = True, dc_daemon = (\<lambda>_. True), dc_port = Some 80, dc_socket = None,
       dc_fast = example_listen, dc_fast_again = example_listen\<rparr>, bt_interfaces = None\<rparr>"

lemma example_check: "command_line [''--check-config'', ''/data/c''] =
    Some (no_options\<lparr>op_requested_path := Some ''/data/c'', op_allow_missing := False, op_once := True, op_check_only := True\<rparr>)"
  by (simp add: command_line_def no_options_def)

theorem check_config_is_readonly_witness:
  "\<exists>s t. main_start example_env example_boot [''--check-config'', ''/data/c''] s = (Inl 0, t) \<and> os_names s ''/data/c'' \<noteq> None \<and>
    os_names t = os_names s \<and> os_files t = os_files s"
proof -
  let ?s = "mounted [''/data'']"
  obtain s where s: "config_save_file ''/data/c'' config_set_defaults ?s = (True, s)" "os_faults s = []"
    using config_save_faultless [of ?s "''/data/c''" config_set_defaults] by (auto simp: mounted_def parent_exists_def split_at_last_def)
  have own: "own_temporary ''/data/c'' ?s" by (simp add: own_temporary_def no_link_def mounted_def)
  then have "os_names s ''/data/c'' \<noteq> None"
    using config_save_steps(2) [OF s(1) _ own_temporary_inode [OF own]] by (simp add: own_temporary_def)
  moreover have "fst (fst (config_load_file ''/data/c'' s)) = CONFIG_LOAD_OK"
    using saved_defaults_load [OF s(1) own refl] s(2) by (simp add: benign_def)
  moreover obtain r t where r: "main_start example_env example_boot [''--check-config'', ''/data/c''] s = (r, t)" by force
  ultimately show ?thesis
    using check_config_is_readonly [OF example_check _ r] r by (intro exI [of _ s] exI [of _ t]) (simp add: example_boot_def platform_init_def)
qed

abbreviation "example_path \<equiv> ''/data/ps5localsend/config.ini''"




definition example_run :: "(nat + http_server) \<times> os" where
  "example_run = main_start example_env example_boot [] (example_disk\<lparr>os_faults := [Proceed, Fail EACCES]\<rparr>)"

lemma example_runs: "case fst example_run of Inl status \<Rightarrow> False | Inr hs \<Rightarrow> hs_bound_port hs = 80 \<and> fs_bound_port (hs_fast hs) = 81"
  by code_simp

theorem running_server_in_step_witness:
  "\<exists>s hs t. main_start example_env example_boot [] s = (Inr hs, t) \<and> in_step hs \<and> rt_fast_upload_port (hs_router hs) = 81"
proof -
  obtain hs t where r: "example_run = (Inr hs, t)" "fs_bound_port (hs_fast hs) = 81"
    using example_runs by (cases "fst example_run") (auto simp: prod_eq_iff)
  from running_server_in_step [OF r(1) [unfolded example_run_def]] r show ?thesis
    unfolding example_run_def in_step_def by metis
qed

end
