(* ===== verification/Spec2Isabelle.thy ===== *)
theory Spec2Isabelle
  imports Sha256_Vectors SafePath AuthRuns AuthJson ConfigSave ConfigProps StartupProps
begin

text \<open>
  PS5 LocalSend: a program that runs on a console and receives files from a browser in the same network.
  This development models its C code under \<^verbatim>\<open>src/src/\<close> function by function and proves what its parts promise, up to the
  composition of all of them: what a browser sends is what stands on the disk.

  \<^bold>\<open>The program.\<close>  \<^verbatim>\<open>main.c\<close> loads the settings (\<^verbatim>\<open>config.c\<close>) and starts the server
  (\<^verbatim>\<open>server.c\<close>): a daemon of libmicrohttpd, which calls the server back for every request, and a second listener on plain
  sockets for the bodies of uploads (\<^verbatim>\<open>fast_upload_server.c\<close>).  Both hand requests to one router (\<^verbatim>\<open>router.c\<close>), which
  checks the origin and the session (\<^verbatim>\<open>auth.c\<close>: a PIN is shown on the screen, and whoever types it gets a bearer
  token) and then calls the upload manager (\<^verbatim>\<open>upload.c\<close>).  The manager has one slot, for the one upload that can be active.
  An upload is prepared with its name and size, which opens a temporary file in the destination
  directory; its bytes come as one stream through a ring of four buffers that a writer thread empties, or
  straight into the file over the fast listener, or as chunks over several connections; at the end the
  digest (\<^verbatim>\<open>sha256.c\<close>) is compared and the file is linked to its final name, never over an existing one
  (\<^verbatim>\<open>safe_path.c\<close>).  \<^verbatim>\<open>platform_host.c\<close> and \<^verbatim>\<open>platform_ps5.c\<close> wrap the system.

  \<^bold>\<open>Theories, sources and state.\<close>
  \<^item> \<open>Prelude\<close>: machine types, the part of the C library that the sources use, hexadecimal and decimal texts
    with the locale \<open>text_codec\<close> of both.
  \<^item> \<open>FileSys\<close>: the system calls on the record \<open>os\<close>: names, inodes, descriptors, \<open>errno\<close>, and scripts of what the
    environment does (faults and short writes, clocks, random bytes, free space, listings), plus the notices shown.
  \<^item> \<open>Sha256\<close>, \<open>Sha256_Vectors\<close>: \<^verbatim>\<open>sha256.c\<close>, the context as a record of words and bytes.
  \<^item> \<open>Utf8\<close>, \<open>SafePath\<close>: \<^verbatim>\<open>safe_path.c\<close>.
  \<^item> \<open>Auth\<close>, \<open>AuthRuns\<close>, \<open>AuthJson\<close>: \<^verbatim>\<open>auth.c\<close>, the manager as its two tables; each locked call is one step of \<open>auth_run\<close>.
  \<^item> \<open>Config\<close>, \<open>ConfigProps\<close>, \<open>ConfigFile\<close>, \<open>ConfigSave\<close>: \<^verbatim>\<open>config.c\<close>, the settings as the record \<open>app_config\<close>.
  \<^item> \<open>UploadJson\<close>, \<open>UploadFile\<close>, \<open>Upload\<close>: \<^verbatim>\<open>upload.c\<close>.  The struct of the manager is the record
    \<open>upload_manager\<close> of the queue, the writer, the chunks and the slot; \<open>UploadQueue\<close>, \<open>UploadSlot\<close>, \<open>UploadStream\<close>,
    \<open>UploadPublish\<close>, \<open>UploadEnd\<close>, \<open>UploadRuns\<close> and \<open>UploadDirect\<close> hold its invariants, its end and its runs.
  \<^item> \<open>Platform\<close>: the platform files, both builds.
  \<^item> \<open>RouterText\<close>, \<open>RouterTextProps\<close>, \<open>Router\<close>, \<open>RouterProps\<close>, \<open>RouterRuns\<close>: \<^verbatim>\<open>router.c\<close>, its texts, its routes and streams.
  \<^item> \<open>Server\<close>, \<open>ServerProps\<close>: the callbacks of \<^verbatim>\<open>server.c\<close>; \<open>request_state\<close> is what they keep of one request.
  \<^item> \<open>FastServer\<close>, \<open>FastProps\<close>, \<open>FastRuns\<close>, \<open>FastExample\<close>: one connection of \<^verbatim>\<open>fast_upload_server.c\<close>; a \<open>socket\<close> is
    what arrives on it in the network's portions, what its sends do and what has been sent.
  \<^item> \<open>FastPool\<close>: the slots of the workers, the accepting thread, start and stop, as the step relation \<open>pool_step\<close>.
  \<^item> \<open>Startup\<close>, \<open>StartupProps\<close>: \<^verbatim>\<open>main.c\<close> and the start and stop of \<^verbatim>\<open>server.c\<close>.

  \<^bold>\<open>What the groups of lemmas show.\<close>
  \<^item> From the network to the disk: an upload that is answered 201 has stored exactly the bytes sent, whatever the pieces,
    the moments at which the writer works and the requests of others in between; a failed one has changed nothing but
    its temporary file (\<open>ServerProps\<close>, \<open>FastRuns\<close>, \<open>UploadRuns\<close>).  It rests on the ring being a queue
    (\<open>byte_queue\<close>, interpreted by \<open>UploadQueue\<close>), on SHA-256 in pieces (\<open>incremental_hash\<close>, interpreted by \<open>Sha256\<close>), and
    on the invariants \<open>streaming\<close> and \<open>directing\<close> of the two ways of the bytes.
  \<^item> No wait without an end: every call of a streamed upload and every connection of the fast listener returns.
  \<^item> A connection that breaks leaves nothing behind: the descriptor is closed and the temporary file removed (\<open>UploadEnd\<close>).
  \<^item> Access: no route and no listener acts on uploads or settings without the origin and, unless the settings turn
    authentication off, a session; only the public status may end an upload whose lease has run out; a session exists
    only for a client that typed a PIN that was shown for it; guesses are bounded; the PIN goes to the screen only.
  \<^item> Texts: each parser is equivalent to a grammar, each writer is read back.
  \<^item> Settings: whatever is loaded is within its limits, saving is atomic, and a load gets back what was saved.
  \<^item> Files: no write leaves the destination directory, no existing file is replaced, the sweep of
    abandoned files touches no other name.
  \<^item> Threads: at most eight workers, each with its own slot and connection, and none left when a stop returns.
  \<^item> The start: a check is read-only, an existing settings file is never changed; ports and settings of the running parts agree.
  \<^item> Where the code does not do what it means to, the behaviour is proved as it is (a busy or late request that ends the
    upload of another client, a rate limit that can be lifted, a port that makes the settings unreadable, a load that fails
    without a message, a stop that shuts down a number already closed).

  \<^bold>\<open>Conventions.\<close>  Integers have the width of the source, and wrap.  A string is what stands before its terminator, and
  a buffer's size is a bound that the operation checks.  Errors are values: \<open>option\<close> where the code returns an error
  without further data, the code's own enumerations where it has them.  A reply is the record
  \<open>router_response\<close>.  Where a function holds a mutex for its whole body it is one step; where it waits for the writer
  (\<open>await\<close>, \<open>write_pieces\<close>) it is a \<open>partial_function\<close> whose value \<open>None\<close> is a wait that never ends, and theorems show that there
  is a value.  The loops over sockets are total, since every receipt uses up what is pending.  The searches for a free
  name stop at 9999 and the resolution of symbolic links at 40, as in the source and the system.  Faults of system calls are
  scripted per call; theorems hold for every script unless they say otherwise.

  \<^bold>\<open>Parameters.\<close>  What is not under \<^verbatim>\<open>src/src/\<close> is an argument: \<open>environment\<close> (the build, environment variables, texts of errors, embedded
  pages), \<open>http_connection\<close> (what libmicrohttpd says of a connection and whether it takes a reply), \<open>daemon_calls\<close>,
  \<open>listen_calls\<close> and \<open>boot\<close> (what the calls at the start return).

  \<^bold>\<open>Not modelled.\<close>  The pages and scripts of the browser and their embedded copies (other languages and generated data);
  libmicrohttpd (vendored); the tests and tools; messages on the standard
  streams; the copies of the signal handler, the sleep, the random source and the choice of the address in \<^verbatim>\<open>platform_ps5.c\<close>, which repeat those of \<^verbatim>\<open>platform_host.c\<close>; null pointers, which no
  caller passes.
\<close>

end
